(* ===== verification/Prelude.thy ===== *)
theory Prelude
  imports
    Main
    "HOL-Library.AList"
    "HOL-Library.Char_ord"
    "HOL-Library.List_Lexorder"
    "HOL-Library.Multiset"
    "HOL-Library.Word"
begin

text \<open>
  The part of the Go language and its standard library that the components share: byte
  strings, maps with an explicit iteration order, dynamic values, durations, panics and
  the lemma collections of the development.

  \<^item> A Go \<open>string\<close> or byte slice is a list of bytes, Isabelle's \<^typ>\<open>string\<close>
    (a \<^typ>\<open>char\<close> is one byte).
  \<^item> A Go map is an association list with distinct keys. Its order is \<^emph>\<open>one\<close> order in
    which \<open>range\<close> may visit the entries; Go leaves that order open, so a statement about
    a function that ranges over a map holds for every list with the same entries.
  \<^item> \<open>any\<close> is a datatype with the dynamic types that JSON decoding yields.
  \<^item> A \<open>time.Duration\<close> is an integer number of nanoseconds; where the source computes
    with durations the 64-bit wrap-around is written out with \<open>int64\<close>.
\<close>

section \<open>Lemma collections\<close>

named_theorems go_simps \<open>equations that compute with the Go runtime model\<close>
named_theorems go_maps \<open>what a lookup returns after a map operation\<close>
named_theorems mcpx_inv \<open>preservation of the components' invariants\<close>

section \<open>Strings\<close>

type_synonym bytes = string

fun str_join :: "string \<Rightarrow> string list \<Rightarrow> string" where
  "str_join sep [] = []"
| "str_join sep [x] = x"
| "str_join sep (x # y # xs) = x @ sep @ str_join sep (y # xs)"

fun str_split :: "char \<Rightarrow> string \<Rightarrow> string list" where
  "str_split c [] = [[]]"
| "str_split c (x # xs) =
     (if x = c then [] # str_split c xs
      else (case str_split c xs of [] \<Rightarrow> [[x]] | p # ps \<Rightarrow> (x # p) # ps))"

definition is_ascii :: "char \<Rightarrow> bool" where
  "is_ascii c \<longleftrightarrow> of_char c < (128 :: nat)"

definition ascii_lower :: "char \<Rightarrow> char" where
  "ascii_lower c =
     (if (65 :: nat) \<le> of_char c \<and> of_char c \<le> (90 :: nat) then char_of (of_char c + (32 :: nat)) else c)"

definition ascii_upper :: "char \<Rightarrow> char" where
  "ascii_upper c =
     (if (97 :: nat) \<le> of_char c \<and> of_char c \<le> (122 :: nat) then char_of (of_char c - (32 :: nat)) else c)"

definition ascii_space :: "char \<Rightarrow> bool" where
  "ascii_space c \<longleftrightarrow> of_char c \<in> {9, 10, 11, 12, 13, 32 :: nat}"

text \<open>
  \<open>strings.ToLower\<close> and \<open>strings.TrimSpace\<close> have a path for pure ASCII strings,
  written out here, and a path through the Unicode tables for the rest, which is the
  parameter \<open>unicode\<close>.
\<close>

record unicode =
  uniLower :: "string \<Rightarrow> string"
  uniTrimSpace :: "string \<Rightarrow> string"

definition ToLower :: "unicode \<Rightarrow> string \<Rightarrow> string" where
  "ToLower u s = (if list_all is_ascii s then map ascii_lower s else uniLower u s)"

definition TrimSpace :: "unicode \<Rightarrow> string \<Rightarrow> string" where
  "TrimSpace u s =
     (if list_all is_ascii s
      then rev (dropWhile ascii_space (rev (dropWhile ascii_space s)))
      else uniTrimSpace u s)"

text \<open>
  \<open>strings.ToUpper\<close> of a string of one byte. A byte from 128 up is no UTF-8 encoding by
  itself, and \<open>strings.Map\<close> replaces it by the encoding of U+FFFD.
\<close>

definition ToUpper1 :: "char \<Rightarrow> string" where
  "ToUpper1 c = (if is_ascii c then [ascii_upper c] else [CHR 0xEF, CHR 0xBF, CHR 0xBD])"

lemma str_split_not_Nil [simp]: "str_split c s \<noteq> []"
  by (induction s) (auto split: list.splits)

lemma str_split_join: "str_join [c] (str_split c s) = s"
proof (induction s)
  case (Cons x xs)
  then show ?case
    by (cases "str_split c xs"; cases "tl (str_split c xs)") (auto split: list.splits)
qed simp

lemma str_split_no_sep: "p \<in> set (str_split c s) \<Longrightarrow> c \<notin> set p"
proof (induction s arbitrary: p)
  case (Cons x xs)
  then show ?case by (auto split: if_splits list.splits)
qed simp

lemma str_split_single: "c \<notin> set s \<Longrightarrow> str_split c s = [s]"
  by (induction s) auto

lemma set_str_join: "set (str_join sep xs) \<subseteq> set sep \<union> (\<Union>x\<in>set xs. set x)"
  by (induction sep xs rule: str_join.induct) auto

text \<open>A separator that does not occur in the first parts makes concatenation injective.\<close>

lemma sep_append_inject:
  assumes "c \<notin> set a" and "c \<notin> set b" and "a @ c # x = b @ c # y"
  shows "a = b \<and> x = y"
  using assms
proof (induction a arbitrary: b)
  case Nil
  then show ?case by (cases b) auto
next
  case (Cons h t)
  then show ?case by (cases b) auto
qed

lemma sep_append_eq:
  "c \<notin> set a \<Longrightarrow> c \<notin> set b \<Longrightarrow> a @ c # x = b @ c # y \<longleftrightarrow> a = b \<and> x = y"
  using sep_append_inject by metis

text \<open>Case mapping of ASCII bytes, read off their codes.\<close>

lemma of_char_ascii_upper: "of_char (ascii_upper c) =
  (if (97::nat) \<le> of_char c \<and> of_char c \<le> (122::nat) then of_char c - 32 else (of_char c :: nat))"
  by (auto simp: ascii_upper_def of_char_of)

lemma of_char_ascii_lower: "of_char (ascii_lower c) =
  (if (65::nat) \<le> of_char c \<and> of_char c \<le> (90::nat) then of_char c + 32 else (of_char c :: nat))"
  by (auto simp: ascii_lower_def of_char_of)

lemma char_eq_of_char: "c = d \<longleftrightarrow> of_char c = (of_char d :: nat)"
  by simp

lemma ascii_upper_not_underscore: "c \<noteq> CHR ''_'' \<Longrightarrow> ascii_upper c \<noteq> CHR ''_''"
  unfolding char_eq_of_char of_char_ascii_upper by (auto split: if_splits)

lemma ascii_lower_upper: "ascii_lower (ascii_upper c) = ascii_lower c"
  unfolding char_eq_of_char of_char_ascii_lower of_char_ascii_upper by auto

lemma ascii_lower_idem: "ascii_lower (ascii_lower c) = ascii_lower c"
  unfolding char_eq_of_char of_char_ascii_lower of_char_ascii_upper by auto

lemma is_ascii_lower: "is_ascii (ascii_lower c) \<longleftrightarrow> is_ascii c"
  unfolding is_ascii_def of_char_ascii_lower by auto

section \<open>Maps\<close>

type_synonym ('k, 'v) gomap = "('k \<times> 'v) list"

definition gm_ok :: "('k, 'v) gomap \<Rightarrow> bool" where
  "gm_ok m \<longleftrightarrow> distinct (map fst m)"

abbreviation gm_get :: "('k, 'v) gomap \<Rightarrow> 'k \<Rightarrow> 'v option" where
  "gm_get \<equiv> map_of"

definition gm_set :: "'k \<Rightarrow> 'v \<Rightarrow> ('k, 'v) gomap \<Rightarrow> ('k, 'v) gomap" where
  "gm_set k v m = AList.update k v m"

definition gm_delete :: "'k \<Rightarrow> ('k, 'v) gomap \<Rightarrow> ('k, 'v) gomap" where
  "gm_delete k m = AList.delete k m"

text \<open>Two lists that are the same map: the same value under every key.\<close>

definition gm_eq :: "('k, 'v) gomap \<Rightarrow> ('k, 'v) gomap \<Rightarrow> bool" where
  "gm_eq m m' \<longleftrightarrow> map_of m = map_of m'"

text \<open>A map made by writing the given entries one after the other: the last write wins.\<close>

definition gm_write :: "('k, 'v) gomap \<Rightarrow> ('k \<times> 'v) list \<Rightarrow> ('k, 'v) gomap" where
  "gm_write m ps = foldl (\<lambda>m (k, v). gm_set k v m) m ps"

abbreviation gm_build :: "('k \<times> 'v) list \<Rightarrow> ('k, 'v) gomap" where
  "gm_build \<equiv> gm_write []"

lemma gm_get_set [simp, go_maps]: "gm_get (gm_set k v m) = (gm_get m)(k \<mapsto> v)"
  by (simp add: gm_set_def update_conv')

lemma gm_get_delete [simp, go_maps]: "gm_get (gm_delete k m) = (gm_get m)(k := None)"
  by (simp add: gm_delete_def delete_conv')

lemma gm_set_same: "gm_get m k = Some v \<Longrightarrow> gm_set k v m = m"
  by (simp add: gm_set_def update_triv)

lemma gm_ok_set [simp]: "gm_ok m \<Longrightarrow> gm_ok (gm_set k v m)"
  by (simp add: gm_ok_def gm_set_def distinct_update)

lemma gm_ok_delete [simp]: "gm_ok m \<Longrightarrow> gm_ok (gm_delete k m)"
  by (simp add: gm_ok_def gm_delete_def distinct_delete)

lemma gm_ok_Nil [simp]: "gm_ok []"
  by (simp add: gm_ok_def)

lemma gm_write_Nil [simp]: "gm_write m [] = m"
  by (simp add: gm_write_def)

lemma gm_write_Cons [simp]: "gm_write m ((k, v) # ps) = gm_write (gm_set k v m) ps"
  by (simp add: gm_write_def)

lemma gm_ok_write [simp]: "gm_ok m \<Longrightarrow> gm_ok (gm_write m ps)"
  by (induction ps arbitrary: m) auto

lemma gm_get_write [go_maps]: "gm_get (gm_write m ps) = gm_get m ++ map_of (rev ps)"
proof (induction ps arbitrary: m)
  case (Cons p ps)
  then show ?case by (cases p) (simp add: map_add_def fun_eq_iff split: option.split)
qed simp

lemma map_of_same_set:
  assumes "distinct (map fst m)" and "distinct (map fst m')" and "set m = set m'"
  shows "map_of m = map_of m'"
proof
  fix k
  have "map_of m k = Some v \<longleftrightarrow> map_of m' k = Some v" for v
    using assms by simp
  then show "map_of m k = map_of m' k"
    by (metis not_Some_eq)
qed

lemma gm_get_build_distinct:
  "distinct (map fst ps) \<Longrightarrow> gm_get (gm_build ps) = map_of ps"
  using map_of_same_set [of "rev ps" ps] by (simp add: gm_get_write rev_map [symmetric])

lemma set_gm_set: "set (gm_set k v m) \<subseteq> insert (k, v) (set m)"
  by (induction m) (auto simp: gm_set_def)

lemma set_gm_write: "set (gm_write m ps) \<subseteq> set m \<union> set ps"
proof (induction ps arbitrary: m)
  case (Cons p ps)
  then show ?case using set_gm_set [of "fst p" "snd p" m] by (cases p) fastforce
qed simp

text \<open>A map whose keys are all fresh is written down unchanged.\<close>

lemma gm_set_fresh: "k \<notin> fst ` set m \<Longrightarrow> gm_set k v m = m @ [(k, v)]"
  by (induction m) (auto simp: gm_set_def)

lemma gm_write_fresh:
  "distinct (map fst m @ map fst ps) \<Longrightarrow> gm_write m ps = m @ ps"
proof (induction ps arbitrary: m)
  case (Cons p ps)
  then show ?case by (cases p) (simp add: gm_set_fresh)
qed simp

lemma gm_build_id [simp]: "distinct (map fst ps) \<Longrightarrow> gm_build ps = ps"
  by (simp add: gm_write_fresh)

lemma gm_eq_refl [simp]: "gm_eq m m"
  by (simp add: gm_eq_def)

lemma gm_eq_sym: "gm_eq m m' \<Longrightarrow> gm_eq m' m"
  by (simp add: gm_eq_def)

lemma gm_eq_trans [trans]: "gm_eq a b \<Longrightarrow> gm_eq b c \<Longrightarrow> gm_eq a c"
  by (simp add: gm_eq_def)

text \<open>Another iteration order of the same map is a permutation of its entries.\<close>

lemma gm_perm_ok: "gm_ok m \<Longrightarrow> mset m = mset m' \<Longrightarrow> gm_ok m'"
  unfolding gm_ok_def by (metis mset_map mset_eq_imp_distinct_iff)

lemma gm_perm_get: "gm_ok m \<Longrightarrow> mset m = mset m' \<Longrightarrow> gm_get m = gm_get m'"
  using gm_perm_ok [of m m'] map_of_same_set [of m m'] mset_eq_setD [of m m']
  by (simp add: gm_ok_def)

section \<open>Dynamic values\<close>

text \<open>
  A value of type \<open>any\<close>: the six shapes of decoded JSON (a number is the bit pattern of
  its float64), and \<open>AOther\<close> for a value of any other dynamic type.
\<close>

datatype any =
    ANil
  | ABool bool
  | ANum "64 word"
  | AStr string
  | AArr "any list"
  | AObj "(string \<times> any) list"
  | AOther nat

text \<open>\<open>map[string]any\<close> as a variable holds it: \<open>None\<close> is the nil map.\<close>

type_synonym args = "(string, any) gomap option"

text \<open>Ranging over, or reading from, a nil map or slice finds nothing.\<close>

definition entries :: "'a list option \<Rightarrow> 'a list" where
  "entries m = (case m of None \<Rightarrow> [] | Some es \<Rightarrow> es)"

lemma entries_simps [simp]: "entries None = []" "entries (Some m) = m"
  by (simp_all add: entries_def)

section \<open>Durations and panics\<close>

type_synonym duration = int
type_synonym gotime = int

definition int64 :: "int \<Rightarrow> int" where
  "int64 x = (x + 2 ^ 63) mod 2 ^ 64 - 2 ^ 63"

definition second :: duration where
  "second = 1000000000"

lemma int64_small: "- (2 ^ 63) \<le> x \<Longrightarrow> x < 2 ^ 63 \<Longrightarrow> int64 x = x"
  by (simp add: int64_def)

lemma int64_range: "- (2 ^ 63) \<le> int64 x" "int64 x < 2 ^ 63"
proof -
  have "0 \<le> (x + 2 ^ 63) mod 2 ^ 64" and "(x + 2 ^ 63) mod 2 ^ 64 < (2 ^ 64 :: int)"
    by simp_all
  then show "- (2 ^ 63) \<le> int64 x" "int64 x < 2 ^ 63"
    by (simp_all add: int64_def)
qed

text \<open>What a call of user code yields: a value, or a panic that unwinds the stack.\<close>

datatype 'a outcome = Ret 'a | Panic

section \<open>First occurrences\<close>

text \<open>The elements whose key has not occurred before, in order: what a loop with a set of
  keys already met collects.\<close>

fun first_by :: "('a \<Rightarrow> 'b) \<Rightarrow> 'a list \<Rightarrow> 'a list" where
  "first_by f [] = []"
| "first_by f (x # xs) = x # filter (\<lambda>y. f y \<noteq> f x) (first_by f xs)"

lemma first_by_append:
  "first_by f (xs @ ys) = first_by f xs @ filter (\<lambda>y. f y \<notin> f ` set xs) (first_by f ys)"
  by (induction xs) (auto intro: filter_cong)

lemma set_first_by: "set (first_by f xs) \<subseteq> set xs"
  by (induction xs) auto

lemma image_first_by: "f ` set (first_by f xs) = f ` set xs"
proof (induction xs)
  case (Cons x xs)
  have "f ` set (first_by f (x # xs)) = insert (f x) (f ` set (first_by f xs) - {f x})"
    by auto
  then show ?case by (simp add: Cons)
qed simp

lemma distinct_first_by: "distinct (map f (first_by f xs))"
  by (induction xs) (auto simp: distinct_map intro: inj_on_subset)

lemma first_by_cong:
  "(\<And>x y. x \<in> set xs \<Longrightarrow> y \<in> set xs \<Longrightarrow> f x = f y \<longleftrightarrow> g x = g y) \<Longrightarrow> first_by f xs = first_by g xs"
proof (induction xs)
  case (Cons x xs)
  then have "first_by f xs = first_by g xs" by simp
  then show ?case
    using Cons.prems set_first_by [of g xs] by (auto intro!: filter_cong)
qed simp

lemma sort_distinct_set: "distinct xs \<Longrightarrow> sort xs = sorted_list_of_set (set xs)"
  by (simp add: sorted_list_of_set_sort_remdups distinct_remdups_id)

text \<open>A computed first component names the whole pair.\<close>

lemma pair_by_fst: "fst p = x \<Longrightarrow> p = (x, snd p)"
  by (cases p) simp

end
