(* ===== verification/Tool.thy ===== *)
theory Tool
  imports Prelude
begin

text \<open>
  Tool metadata and call results, \<open>tool.go\<close>. \<open>Clone\<close> is modelled twice: on values,
  which is what the other components use, and on an explicit heap of byte arrays, where the
  independence of the copy can be stated. The heap version is shown to implement the value
  version.
\<close>

section \<open>Definitions\<close>

record ToolInfo =
  ti_Server :: string
  ti_Name :: string
  ti_Description :: string
  ti_InputSchema :: bytes
  ti_ReadOnly :: bool
  ti_Write :: bool
  ti_Destructive :: bool
  ti_Idempotent :: bool
  ti_OpenWorld :: bool
  ti_Custom :: "(string, string) gomap"

definition zeroToolInfo :: ToolInfo where
  "zeroToolInfo = \<lparr>ti_Server = [], ti_Name = [], ti_Description = [], ti_InputSchema = [],
     ti_ReadOnly = False, ti_Write = False, ti_Destructive = False, ti_Idempotent = False,
     ti_OpenWorld = False, ti_Custom = []\<rparr>"

datatype ContentKind = ContentText | ContentImage | ContentOther

text \<open>A byte slice that the code compares with nil is an option: \<open>None\<close> is nil.\<close>

record ContentPart =
  cp_Kind :: ContentKind
  cp_Text :: string
  cp_MIMEType :: string
  cp_Data :: "bytes option"
  cp_Raw :: "bytes option"

record CallResult =
  cr_Text :: string
  cr_Parts :: "ContentPart list"
  cr_IsError :: bool

definition clone_part :: "ContentPart \<Rightarrow> ContentPart" where
  "clone_part p =
     (let cp = p;
          cp = (case cp_Data p of None \<Rightarrow> cp | Some d \<Rightarrow> cp\<lparr>cp_Data := Some d\<rparr>);
          cp = (case cp_Raw p of None \<Rightarrow> cp | Some r \<Rightarrow> cp\<lparr>cp_Raw := Some r\<rparr>)
      in cp)"

definition Clone :: "CallResult option \<Rightarrow> CallResult option" where
  "Clone r =
     (case r of None \<Rightarrow> None
      | Some r \<Rightarrow> Some \<lparr>cr_Text = cr_Text r, cr_Parts = map clone_part (cr_Parts r),
                        cr_IsError = cr_IsError r\<rparr>)"

subsection \<open>On a heap of byte arrays\<close>

text \<open>
  \<open>Data\<close> and \<open>Raw\<close> hold the address of their backing array; the parts themselves are
  stored in an array of parts that \<open>make\<close> allocates. Addresses are natural numbers and
  \<open>next\<close> is the first free one.
\<close>

record hpart =
  hp_Kind :: ContentKind
  hp_Text :: string
  hp_MIMEType :: string
  hp_Data :: "nat option"
  hp_Raw :: "nat option"

record hresult =
  hr_Text :: string
  hr_Parts :: nat
  hr_IsError :: bool

record heap =
  h_next :: nat
  h_bytes :: "nat \<Rightarrow> bytes"
  h_parts :: "nat \<Rightarrow> hpart list"

definition bytes_Clone :: "nat \<Rightarrow> heap \<Rightarrow> nat \<times> heap" where
  "bytes_Clone a h =
     (h_next h, h\<lparr>h_next := Suc (h_next h), h_bytes := (h_bytes h)(h_next h := h_bytes h a)\<rparr>)"

definition hclone_slice :: "nat option \<Rightarrow> heap \<Rightarrow> nat option \<times> heap" where
  "hclone_slice s h =
     (case s of None \<Rightarrow> (None, h) | Some a \<Rightarrow> (let (b, h) = bytes_Clone a h in (Some b, h)))"

definition hclone_part :: "hpart \<Rightarrow> heap \<Rightarrow> hpart \<times> heap" where
  "hclone_part p h =
     (let cp = p;
          (d, h) = hclone_slice (hp_Data p) h; cp = cp\<lparr>hp_Data := d\<rparr>;
          (r, h) = hclone_slice (hp_Raw p) h; cp = cp\<lparr>hp_Raw := r\<rparr>
      in (cp, h))"

fun hclone_parts :: "hpart list \<Rightarrow> heap \<Rightarrow> hpart list \<times> heap" where
  "hclone_parts [] h = ([], h)"
| "hclone_parts (p # ps) h =
     (let (cp, h) = hclone_part p h; (cps, h) = hclone_parts ps h in (cp # cps, h))"

definition hClone :: "hresult option \<Rightarrow> heap \<Rightarrow> hresult option \<times> heap" where
  "hClone r h =
     (case r of None \<Rightarrow> (None, h)
      | Some r \<Rightarrow>
          (let parts = h_next h;
               (cps, h) = hclone_parts (h_parts h (hr_Parts r)) (h\<lparr>h_next := Suc parts\<rparr>);
               h = h\<lparr>h_parts := (h_parts h)(parts := cps)\<rparr>
           in (Some \<lparr>hr_Text = hr_Text r, hr_Parts = parts, hr_IsError = hr_IsError r\<rparr>, h)))"

text \<open>The value a pointer stands for, and the addresses it reaches.\<close>

definition abs_part :: "heap \<Rightarrow> hpart \<Rightarrow> ContentPart" where
  "abs_part h p = \<lparr>cp_Kind = hp_Kind p, cp_Text = hp_Text p, cp_MIMEType = hp_MIMEType p,
     cp_Data = map_option (h_bytes h) (hp_Data p), cp_Raw = map_option (h_bytes h) (hp_Raw p)\<rparr>"

definition abs_result :: "heap \<Rightarrow> hresult option \<Rightarrow> CallResult option" where
  "abs_result h r = map_option (\<lambda>r. \<lparr>cr_Text = hr_Text r,
     cr_Parts = map (abs_part h) (h_parts h (hr_Parts r)), cr_IsError = hr_IsError r\<rparr>) r"

definition part_addrs :: "hpart \<Rightarrow> nat set" where
  "part_addrs p = set_option (hp_Data p) \<union> set_option (hp_Raw p)"

definition heap_ok :: "heap \<Rightarrow> hresult \<Rightarrow> bool" where
  "heap_ok h r \<longleftrightarrow> hr_Parts r < h_next h \<and>
     (\<forall>p\<in>set (h_parts h (hr_Parts r)). \<forall>a\<in>part_addrs p. a < h_next h)"

section \<open>Cloning copies the value\<close>

lemma clone_part_id [simp]: "clone_part p = p"
  by (simp add: clone_part_def Let_def split: option.split)

lemma Clone_id [simp]: "Clone r = r"
  by (cases r) (simp_all add: Clone_def map_idI)

definition grows :: "heap \<Rightarrow> heap \<Rightarrow> bool" where
  "grows h h' \<longleftrightarrow> h_next h \<le> h_next h' \<and> h_parts h' = h_parts h \<and>
     (\<forall>a<h_next h. h_bytes h' a = h_bytes h a)"

lemma grows_refl [simp]: "grows h h"
  by (simp add: grows_def)

lemma grows_trans: "grows a b \<Longrightarrow> grows b c \<Longrightarrow> grows a c"
  by (auto simp: grows_def)

definition fresh_slice :: "heap \<Rightarrow> heap \<Rightarrow> nat option \<Rightarrow> bool" where
  "fresh_slice h h' s \<longleftrightarrow> (\<forall>a\<in>set_option s. h_next h \<le> a \<and> a < h_next h')"

lemma hclone_slice_spec:
  assumes "hclone_slice s h = (t, h')"
  shows "grows h h'" and "map_option (h_bytes h') t = map_option (h_bytes h) s"
    and "fresh_slice h h' t"
  using assms
  by (auto simp: hclone_slice_def bytes_Clone_def grows_def fresh_slice_def split: option.splits)

lemma abs_part_grows:
  "grows h h' \<Longrightarrow> \<forall>a\<in>part_addrs p. a < h_next h \<Longrightarrow> abs_part h' p = abs_part h p"
  by (auto simp: abs_part_def grows_def part_addrs_def intro!: option.map_cong)

lemma hclone_part_spec:
  assumes "hclone_part p h = (q, h')" and "\<forall>a\<in>part_addrs p. a < h_next h"
  shows "grows h h'" and "abs_part h' q = abs_part h p"
    and "\<forall>a\<in>part_addrs q. h_next h \<le> a \<and> a < h_next h'"
proof -
  obtain d h1 where d: "hclone_slice (hp_Data p) h = (d, h1)" by fastforce
  obtain r h2 where r: "hclone_slice (hp_Raw p) h1 = (r, h2)" by fastforce
  have eqs: "q = p\<lparr>hp_Data := d, hp_Raw := r\<rparr>" "h' = h2"
    using assms(1) d r by (simp_all add: hclone_part_def Let_def)
  note d1 = hclone_slice_spec [OF d] and r1 = hclone_slice_spec [OF r]
  show "grows h h'" using d1(1) r1(1) eqs by (auto intro: grows_trans)
  have "map_option (h_bytes h2) d = map_option (h_bytes h1) d"
    using d1(3) r1(1) by (auto simp: fresh_slice_def grows_def intro!: option.map_cong)
  moreover have "map_option (h_bytes h1) (hp_Raw p) = map_option (h_bytes h) (hp_Raw p)"
    using d1(1) assms(2) by (auto simp: grows_def part_addrs_def intro!: option.map_cong)
  ultimately show "abs_part h' q = abs_part h p"
    using d1(2) r1(2) eqs by (simp add: abs_part_def)
  show "\<forall>a\<in>part_addrs q. h_next h \<le> a \<and> a < h_next h'"
    using d1(1,3) r1(1,3) eqs by (fastforce simp: part_addrs_def fresh_slice_def grows_def)
qed

lemma hclone_parts_spec:
  assumes "hclone_parts ps h = (qs, h')" and "\<forall>p\<in>set ps. \<forall>a\<in>part_addrs p. a < h_next h"
  shows "grows h h' \<and> map (abs_part h') qs = map (abs_part h) ps \<and>
    (\<forall>q\<in>set qs. \<forall>a\<in>part_addrs q. h_next h \<le> a \<and> a < h_next h')"
  using assms
proof (induction ps arbitrary: h qs h')
  case (Cons p ps)
  obtain q h1 where q: "hclone_part p h = (q, h1)" by fastforce
  obtain rs h2 where rs: "hclone_parts ps h1 = (rs, h2)" by fastforce
  have eqs: "qs = q # rs" "h' = h2" using Cons.prems(1) q rs by simp_all
  have pa: "\<forall>a\<in>part_addrs p. a < h_next h" using Cons.prems(2) by simp
  note one = hclone_part_spec [OF q pa]
  have "\<forall>p\<in>set ps. \<forall>a\<in>part_addrs p. a < h_next h1"
    using Cons.prems(2) one(1) by (fastforce simp: grows_def)
  note rest = Cons.IH [OF rs this]
  have "abs_part h2 q = abs_part h1 q" using rest one(3) by (auto intro!: abs_part_grows)
  moreover have "map (abs_part h1) ps = map (abs_part h) ps"
    using one(1) Cons.prems(2) by (auto intro!: abs_part_grows)
  moreover have "h_next h \<le> h_next h1" "h_next h1 \<le> h_next h2"
    using one(1) rest by (simp_all add: grows_def)
  ultimately show ?case
    using one rest eqs by (auto intro: grows_trans; fastforce)
qed simp

lemma hClone_parts:
  assumes "heap_ok h r" and "hClone (Some r) h = (Some r', h')"
  shows "hr_Parts r' = h_next h" and "hr_Text r' = hr_Text r" and "hr_IsError r' = hr_IsError r"
    and "map (abs_part h') (h_parts h' (hr_Parts r')) = map (abs_part h) (h_parts h (hr_Parts r))"
    and "\<forall>p\<in>set (h_parts h' (hr_Parts r')). \<forall>a\<in>part_addrs p. h_next h \<le> a"
    and "\<forall>a<h_next h. h_bytes h' a = h_bytes h a \<and> h_parts h' a = h_parts h a"
proof -
  let ?h0 = "h\<lparr>h_next := Suc (h_next h)\<rparr>"
  obtain cps h1 where c: "hclone_parts (h_parts h (hr_Parts r)) ?h0 = (cps, h1)" by fastforce
  have eqs: "r' = \<lparr>hr_Text = hr_Text r, hr_Parts = h_next h, hr_IsError = hr_IsError r\<rparr>"
    "h' = h1\<lparr>h_parts := (h_parts h1)(h_next h := cps)\<rparr>"
    using assms(2) c by (simp_all add: hClone_def Let_def)
  have "\<forall>p\<in>set (h_parts h (hr_Parts r)). \<forall>a\<in>part_addrs p. a < h_next ?h0"
    using assms(1) by (fastforce simp: heap_ok_def)
  note spec = hclone_parts_spec [OF c this]
  have abs: "abs_part h' = abs_part h1" "abs_part ?h0 = abs_part h"
    using eqs by (simp_all add: abs_part_def fun_eq_iff)
  show "hr_Parts r' = h_next h" "hr_Text r' = hr_Text r" "hr_IsError r' = hr_IsError r"
    using eqs by simp_all
  show "map (abs_part h') (h_parts h' (hr_Parts r')) = map (abs_part h) (h_parts h (hr_Parts r))"
    using spec eqs abs by simp
  show "\<forall>p\<in>set (h_parts h' (hr_Parts r')). \<forall>a\<in>part_addrs p. h_next h \<le> a"
    using spec eqs by fastforce
  show "\<forall>a<h_next h. h_bytes h' a = h_bytes h a \<and> h_parts h' a = h_parts h a"
    using spec eqs by (simp add: grows_def)
qed

lemma abs_result_cong:
  assumes "h_parts h (hr_Parts r) = h_parts h' (hr_Parts r)"
    and "\<And>p a. p \<in> set (h_parts h' (hr_Parts r)) \<Longrightarrow> a \<in> part_addrs p \<Longrightarrow> h_bytes h a = h_bytes h' a"
  shows "abs_result h (Some r) = abs_result h' (Some r)"
  using assms
  by (fastforce simp: abs_result_def abs_part_def part_addrs_def intro!: option.map_cong)

section \<open>Properties\<close>

text \<open>
  C37. \<open>Clone\<close> is a deep copy: the copy has the value of the original, and afterwards the
  two share no storage. Whatever is written into the arrays that existed before the call
  leaves the copy's value alone, and whatever is written into arrays allocated by or after
  the call leaves the original's value alone; so a caller that edits a cached result, or a
  hook that edits the result it stored, cannot change the cache's copy.\<close>

theorem hClone_deep_copy:
  assumes ok: "heap_ok h r" and clone: "hClone (Some r) h = (Some r', h')"
  shows "abs_result h' (Some r') = Clone (abs_result h (Some r)) \<and>
    (\<forall>h''. (\<forall>a\<ge>h_next h. h_bytes h'' a = h_bytes h' a \<and> h_parts h'' a = h_parts h' a) \<longrightarrow>
       abs_result h'' (Some r') = abs_result h' (Some r')) \<and>
    (\<forall>h''. (\<forall>a<h_next h. h_bytes h'' a = h_bytes h' a \<and> h_parts h'' a = h_parts h' a) \<longrightarrow>
       abs_result h'' (Some r) = abs_result h (Some r))"
proof (intro conjI allI impI)
  note spec = hClone_parts [OF ok clone]
  show "abs_result h' (Some r') = Clone (abs_result h (Some r))"
    using spec by (simp add: abs_result_def)
  show "abs_result h'' (Some r') = abs_result h' (Some r')"
    if "\<forall>a\<ge>h_next h. h_bytes h'' a = h_bytes h' a \<and> h_parts h'' a = h_parts h' a" for h''
    using that spec(1,5) by (intro abs_result_cong) auto
  show "abs_result h'' (Some r) = abs_result h (Some r)"
    if "\<forall>a<h_next h. h_bytes h'' a = h_bytes h' a \<and> h_parts h'' a = h_parts h' a" for h''
    using that spec(6) ok by (intro abs_result_cong) (auto simp: heap_ok_def)
qed

definition demo_heap :: heap where
  "demo_heap = \<lparr>h_next = 2, h_bytes = (\<lambda>_. ''png''),
     h_parts = (\<lambda>_. [\<lparr>hp_Kind = ContentImage, hp_Text = [], hp_MIMEType = ''image/png'',
                       hp_Data = Some 0, hp_Raw = None\<rparr>])\<rparr>"

theorem hClone_deep_copy_witness:
  "\<exists>r' h'. hClone (Some \<lparr>hr_Text = ''t'', hr_Parts = 1, hr_IsError = False\<rparr>) demo_heap = (Some r', h') \<and>
     abs_result h' (Some r') =
       Clone (abs_result demo_heap (Some \<lparr>hr_Text = ''t'', hr_Parts = 1, hr_IsError = False\<rparr>)) \<and>
     abs_result (h'\<lparr>h_bytes := (h_bytes h')(0 := ''edited'')\<rparr>) (Some r') = abs_result h' (Some r')"
proof -
  let ?r = "\<lparr>hr_Text = ''t'', hr_Parts = 1, hr_IsError = False\<rparr>"
  obtain r' h' where c: "hClone (Some ?r) demo_heap = (Some r', h')"
    by (cases "hClone (Some ?r) demo_heap") (auto simp: hClone_def Let_def split: prod.splits)
  have ok: "heap_ok demo_heap ?r" by (simp add: heap_ok_def demo_heap_def part_addrs_def)
  have "\<forall>a\<ge>h_next demo_heap. h_bytes (h'\<lparr>h_bytes := (h_bytes h')(0 := ''edited'')\<rparr>) a = h_bytes h' a \<and>
      h_parts (h'\<lparr>h_bytes := (h_bytes h')(0 := ''edited'')\<rparr>) a = h_parts h' a"
    by (simp add: demo_heap_def)
  then show ?thesis using hClone_deep_copy [OF ok c] c by blast
qed

end
