(* ===== verification/Core.thy ===== *)
theory Core
  imports Tool
begin

text \<open>
  What every other component mentions: errors and error wrapping (\<open>caller.go\<close>,
  \<open>healthcheck.go\<close>), contexts as the library uses them, log fields (\<open>logger.go\<close>) and
  the reasons for a rejected call (\<open>hooks.go\<close>).

  An error is a value of \<open>err\<close>: one constructor per sentinel and per \<open>fmt.Errorf\<close>
  site, which carries the operands of the format; \<open>ErrText\<close> is \<open>errors.New\<close> and
  \<open>ErrExternal\<close> an error of code outside the library.
\<close>

section \<open>Errors\<close>

datatype err =
    ErrServerNotFound
  | ErrToolNotFound
  | ErrServerDown
  | ErrInvalidArgs (BadFields: "string list") (SchemaErrors: "string list")
  | UnknownServer string "string list"
  | NotInView string
  | UnknownTool string string
  | DownServer string
  | InvalidArgsJSON err
  | CallTimeoutErr string string duration
  | ServerErr string err
  | ConnectErr string err
  | ListToolsErr string err
  | AuthErr string err
  | UnknownServersInView "string list" "string list"
  | BadHealthInterval
  | DuplicateServer string
  | MissingAuthFunc string
  | ServerGone string
  | NoSession string
  | ErrText string
  | ErrExternal nat

text \<open>The operand of \<open>%w\<close>, if the format has one.\<close>

fun Unwrap :: "err \<Rightarrow> err option" where
  "Unwrap (UnknownServer s as) = Some ErrServerNotFound"
| "Unwrap (NotInView s) = Some ErrServerNotFound"
| "Unwrap (UnknownTool t s) = Some ErrToolNotFound"
| "Unwrap (DownServer s) = Some ErrServerDown"
| "Unwrap (InvalidArgsJSON e) = Some e"
| "Unwrap (ServerErr s e) = Some e"
| "Unwrap (ConnectErr s e) = Some e"
| "Unwrap (ListToolsErr s e) = Some e"
| "Unwrap (AuthErr s e) = Some e"
| "Unwrap _ = None"

text \<open>\<open>errors.Is\<close> follows the chain of wrapped errors, which is as long as this depth.\<close>

fun wrap_depth :: "err \<Rightarrow> nat" where
  "wrap_depth (InvalidArgsJSON e) = Suc (wrap_depth e)"
| "wrap_depth (ServerErr s e) = Suc (wrap_depth e)"
| "wrap_depth (ConnectErr s e) = Suc (wrap_depth e)"
| "wrap_depth (ListToolsErr s e) = Suc (wrap_depth e)"
| "wrap_depth (AuthErr s e) = Suc (wrap_depth e)"
| "wrap_depth (UnknownServer s as) = 1"
| "wrap_depth (NotInView s) = 1"
| "wrap_depth (UnknownTool t s) = 1"
| "wrap_depth (DownServer s) = 1"
| "wrap_depth _ = 0"

lemma Unwrap_depth: "Unwrap e = Some e' \<Longrightarrow> wrap_depth e' < wrap_depth e"
  by (cases e rule: Unwrap.cases) auto

function errors_Is :: "err \<Rightarrow> err \<Rightarrow> bool" where
  "errors_Is e target =
     (e = target \<or> (case Unwrap e of None \<Rightarrow> False | Some e' \<Rightarrow> errors_Is e' target))"
  by pat_completeness auto
termination
  by (relation "measure (\<lambda>(e, target). wrap_depth e)") (auto dest: Unwrap_depth)

declare errors_Is.simps [simp del]

text \<open>\<open>(*ErrInvalidArgs).Error\<close>\<close>

definition ErrInvalidArgs_Error :: "string list \<Rightarrow> string list \<Rightarrow> string" where
  "ErrInvalidArgs_Error bad schema =
     (if schema = [] then
        ''mcpx: argument(s) have invalid placeholder values: '' @ str_join '', '' bad
      else
        (let parts = [];
             parts = (if bad \<noteq> [] then parts @ [''placeholder values: '' @ str_join '', '' bad] else parts);
             parts = parts @ [''schema violations: '' @ str_join ''; '' schema]
         in ''mcpx: invalid arguments: '' @ str_join ''; '' parts))"

section \<open>Contexts\<close>

text \<open>
  A \<open>context.Context\<close> is the chain of its \<open>WithValue\<close> bindings, the innermost first,
  and its deadline.
\<close>

datatype ctxkey = CacheScopeKey | CacheHitKey | PolicyKey string | OtherKey nat
datatype ctxval = CtxString string | CtxBool bool | CtxStrings "string list" | CtxOther nat

record ctx =
  ctx_values :: "(ctxkey \<times> ctxval) list"
  ctx_deadline :: "gotime option"

definition ctx_Background :: ctx where
  "ctx_Background = \<lparr>ctx_values = [], ctx_deadline = None\<rparr>"

definition ctx_Value :: "ctx \<Rightarrow> ctxkey \<Rightarrow> ctxval option" where
  "ctx_Value c k = map_of (ctx_values c) k"

definition ctx_WithValue :: "ctx \<Rightarrow> ctxkey \<Rightarrow> ctxval \<Rightarrow> ctx" where
  "ctx_WithValue c k v = c\<lparr>ctx_values := (k, v) # ctx_values c\<rparr>"

definition ctx_WithTimeout :: "ctx \<Rightarrow> gotime \<Rightarrow> duration \<Rightarrow> ctx" where
  "ctx_WithTimeout c now d =
     c\<lparr>ctx_deadline := Some (case ctx_deadline c of None \<Rightarrow> now + d | Some t \<Rightarrow> min t (now + d))\<rparr>"

lemma ctx_Value_WithValue [simp]:
  "ctx_Value (ctx_WithValue c k v) k' = (if k' = k then Some v else ctx_Value c k')"
  by (simp add: ctx_Value_def ctx_WithValue_def)

lemma ctx_Value_WithTimeout [simp]: "ctx_Value (ctx_WithTimeout c n d) k = ctx_Value c k"
  by (simp add: ctx_Value_def ctx_WithTimeout_def)

section \<open>Log fields and reject reasons\<close>

datatype level = Debug | Info | Warn | Error

text \<open>
  A field value is a string, a number, the text of an error, an argument map, or the text
  of a number, of a duration or of a panic.
\<close>

datatype fieldval = FStr string | FNum int | FErr err | FArgs args | FAny any
  | FDecimal int | FDuration duration | FPanic

type_synonym Field = "string \<times> fieldval"

datatype RejectReason =
    RejectUnknownServer
  | RejectUnknownTool
  | RejectServerDown
  | RejectBeforeHookAbort
  | RejectInvalidArgs

section \<open>Which sentinel an error matches\<close>

text \<open>
  A caller tells the three rejections apart with \<open>errors.Is\<close>: no wrapped error of
  \<open>CallTool\<close> matches the sentinel of another.
\<close>

lemma errors_Is_rejections [simp]:
  "errors_Is (UnknownServer s as) e \<longleftrightarrow> e = UnknownServer s as \<or> e = ErrServerNotFound"
  "errors_Is (UnknownTool t s) e \<longleftrightarrow> e = UnknownTool t s \<or> e = ErrToolNotFound"
  "errors_Is (DownServer s) e \<longleftrightarrow> e = DownServer s \<or> e = ErrServerDown"
  "errors_Is (NotInView s) e \<longleftrightarrow> e = NotInView s \<or> e = ErrServerNotFound"
  by (auto simp: errors_Is.simps)

lemma errors_Is_ServerErr: "errors_Is e t \<Longrightarrow> errors_Is (ServerErr s e) t"
  by (subst errors_Is.simps) simp

end
