(* ===== verification/Transform.thy ===== *)
theory Transform
  imports Prelude
begin

text \<open>
  Argument transformers, \<open>transform.go\<close>: the built-in transformers \<open>camelCase\<close>,
  \<open>joinArrays\<close> and \<open>singularResourceType\<close>, the field map and the pipeline
  \<open>applyAll\<close> over them. The loops \<open>for k, v := range m\<close> write into a fresh map,
  \<^const>\<open>gm_write\<close>; the order of the list is the order of the loop.
\<close>

section \<open>Definitions\<close>

subsection \<open>Snake case to camel case\<close>

definition camel_part :: "string \<Rightarrow> string" where
  "camel_part p = (case p of [] \<Rightarrow> [] | c # cs \<Rightarrow> ToUpper1 c @ cs)"

definition snakeToCamel :: "string \<Rightarrow> string" where
  "snakeToCamel s =
     (case str_split (CHR ''_'') s of
        [] \<Rightarrow> s
      | p # ps \<Rightarrow> (if ps = [] then s else p @ concat (map camel_part ps)))"

fun camel_val :: "any \<Rightarrow> any" where
  "camel_val (AObj m) = AObj (gm_build (map (\<lambda>(k, v). (snakeToCamel k, camel_val v)) m))"
| "camel_val v = v"

definition snakeToCamelKeys :: "args \<Rightarrow> args" where
  "snakeToCamelKeys m =
     Some (gm_build (map (\<lambda>(k, v). (snakeToCamel k, camel_val v)) (entries m)))"

subsection \<open>Joining arrays of strings\<close>

fun all_strings :: "any list \<Rightarrow> string list option" where
  "all_strings [] = Some []"
| "all_strings (AStr s # xs) = map_option ((#) s) (all_strings xs)"
| "all_strings (_ # xs) = None"

fun join_val :: "any \<Rightarrow> any" where
  "join_val (AObj m) = AObj (gm_build (map (\<lambda>(k, v). (k, join_val v)) m))"
| "join_val (AArr xs) =
     (case all_strings xs of Some strs \<Rightarrow> AStr (str_join '' '' strs) | None \<Rightarrow> AArr xs)"
| "join_val v = v"

definition joinStringArrays :: "args \<Rightarrow> args" where
  "joinStringArrays m = Some (gm_build (map (\<lambda>(k, v). (k, join_val v)) (entries m)))"

subsection \<open>Singular resource types\<close>

definition k8sResourceSingular :: "(string, string) gomap" where
  "k8sResourceSingular =
    [(''pods'', ''pod''), (''deployments'', ''deployment''), (''services'', ''service''),
     (''namespaces'', ''namespace''), (''nodes'', ''node''), (''configmaps'', ''configmap''),
     (''secrets'', ''secret''), (''statefulsets'', ''statefulset''),
     (''daemonsets'', ''daemonset''), (''replicasets'', ''replicaset''),
     (''ingresses'', ''ingress''), (''jobs'', ''job''), (''cronjobs'', ''cronjob'')]"

definition DefaultResourceSingular :: "(string, string) gomap" where
  "DefaultResourceSingular = gm_build k8sResourceSingular"

definition mergedSingularMap ::
  "(string, string) gomap option \<Rightarrow> (string, string) gomap option \<Rightarrow> (string, string) gomap" where
  "mergedSingularMap globalCustom perServer =
     gm_write (gm_write (gm_build k8sResourceSingular) (entries globalCustom)) (entries perServer)"

definition singularizeResourceType :: "unicode \<Rightarrow> args \<Rightarrow> (string, string) gomap \<Rightarrow> args" where
  "singularizeResourceType u args singular =
     (case gm_get (entries args) ''resourceType'' of
        None \<Rightarrow> args
      | Some (AStr s) \<Rightarrow>
          (case gm_get singular (ToLower u s) of
             None \<Rightarrow> args
           | Some singularVal \<Rightarrow>
               Some (gm_set ''resourceType'' (AStr singularVal) (gm_build (entries args))))
      | Some _ \<Rightarrow> args)"

subsection \<open>Field map and pipeline\<close>

definition applyFieldMap :: "args \<Rightarrow> (string, string) gomap option \<Rightarrow> args" where
  "applyFieldMap args fm =
     (if entries fm = [] then args
      else Some (gm_build (map (\<lambda>(k, v).
             (case gm_get (entries fm) k of Some renamed \<Rightarrow> (renamed, v) | None \<Rightarrow> (k, v)))
             (entries args))))"

type_synonym CustomTransformer = "args \<Rightarrow> args"
type_synonym ArgsTransformer = string
type_synonym ArgsTransformers = "ArgsTransformer list"

abbreviation ArgsTransformerCamelCase :: ArgsTransformer where
  "ArgsTransformerCamelCase \<equiv> ''camelCase''"
abbreviation ArgsTransformerJoinArrays :: ArgsTransformer where
  "ArgsTransformerJoinArrays \<equiv> ''joinArrays''"
abbreviation ArgsTransformerSingularResource :: ArgsTransformer where
  "ArgsTransformerSingularResource \<equiv> ''singularResourceType''"

text \<open>A registered function may be nil: the table holds an option.\<close>

definition applyArgsTransformer ::
  "unicode \<Rightarrow> ArgsTransformer \<Rightarrow> args \<Rightarrow> (string, CustomTransformer option) gomap \<Rightarrow>
   (string, string) gomap \<Rightarrow> args" where
  "applyArgsTransformer u t args custom singularMap =
     (if t = ArgsTransformerCamelCase then snakeToCamelKeys args
      else if t = ArgsTransformerJoinArrays then joinStringArrays args
      else if t = ArgsTransformerSingularResource then singularizeResourceType u args singularMap
      else (case gm_get custom t of Some (Some fn) \<Rightarrow> fn args | _ \<Rightarrow> args))"

fun applyAll ::
  "unicode \<Rightarrow> ArgsTransformers \<Rightarrow> args \<Rightarrow> (string, CustomTransformer option) gomap \<Rightarrow>
   (string, string) gomap \<Rightarrow> args" where
  "applyAll u [] args custom singularMap = args"
| "applyAll u (t # ts) args custom singularMap =
     applyAll u ts (applyArgsTransformer u t args custom singularMap) custom singularMap"

section \<open>The names that snakeToCamel makes\<close>

lemma ToUpper1_no_underscore: "c \<noteq> CHR ''_'' \<Longrightarrow> CHR ''_'' \<notin> set (ToUpper1 c)"
  using ascii_upper_not_underscore [of c] by (simp add: ToUpper1_def)

lemma camel_part_no_underscore: "CHR ''_'' \<notin> set p \<Longrightarrow> CHR ''_'' \<notin> set (camel_part p)"
proof (cases p)
  case (Cons c cs)
  assume "CHR ''_'' \<notin> set p"
  then show ?thesis
    using ToUpper1_no_underscore [of c] Cons by (simp add: camel_part_def eq_commute)
qed (simp add: camel_part_def)

lemma snakeToCamel_no_underscore: "CHR ''_'' \<notin> set (snakeToCamel s)"
proof (cases "str_split (CHR ''_'') s")
  case (Cons p ps)
  have parts: "CHR ''_'' \<notin> set q" if "q \<in> set (p # ps)" for q
    using that str_split_no_sep [of q "CHR ''_''" s] Cons by simp
  show ?thesis
  proof (cases "ps = []")
    case True
    then have "p = s" using str_split_join [of "CHR ''_''" s] Cons by simp
    then show ?thesis using parts [of p] Cons True by (simp add: snakeToCamel_def)
  next
    case False
    then show ?thesis
      using Cons parts camel_part_no_underscore by (auto simp: snakeToCamel_def)
  qed
qed simp

lemma snakeToCamel_id: "CHR ''_'' \<notin> set s \<Longrightarrow> snakeToCamel s = s"
  by (simp add: snakeToCamel_def str_split_single)

lemma snakeToCamel_idem [simp]: "snakeToCamel (snakeToCamel s) = snakeToCamel s"
  by (rule snakeToCamel_id [OF snakeToCamel_no_underscore])

text \<open>
  On ASCII names the conversion drops the underscores and changes nothing but case.
\<close>

lemma concat_str_split: "concat (str_split c s) = filter (\<lambda>x. x \<noteq> c) s"
proof (induction s)
  case (Cons x xs)
  then show ?case by (cases "str_split c xs") auto
qed simp

lemma camel_part_lower:
  "list_all is_ascii p \<Longrightarrow> map ascii_lower (camel_part p) = map ascii_lower p"
  by (cases p) (simp_all add: camel_part_def ToUpper1_def ascii_lower_upper)

lemma str_split_ascii: "list_all is_ascii s \<Longrightarrow> p \<in> set (str_split c s) \<Longrightarrow> list_all is_ascii p"
proof (induction s arbitrary: p)
  case (Cons x xs)
  then show ?case by (auto split: if_splits list.splits)
qed simp

lemma snakeToCamel_letters:
  assumes "list_all is_ascii s"
  shows "map ascii_lower (snakeToCamel s) = map ascii_lower (filter (\<lambda>c. c \<noteq> CHR ''_'') s)"
proof (cases "str_split (CHR ''_'') s")
  case (Cons p ps)
  have lower: "map (\<lambda>q. map ascii_lower (camel_part q)) ps = map (map ascii_lower) ps"
    using str_split_ascii [OF assms, of _ "CHR ''_''"] Cons
    by (intro map_cong refl camel_part_lower) simp
  have parts: "p @ concat ps = filter (\<lambda>c. c \<noteq> CHR ''_'') s"
    using concat_str_split [of "CHR ''_''" s] Cons by simp
  show ?thesis
  proof (cases "ps = []")
    case True
    then have "p = s" using str_split_join [of "CHR ''_''" s] Cons by simp
    then show ?thesis using parts Cons True by (simp add: snakeToCamel_def)
  next
    case False
    then show ?thesis
      using Cons lower by (simp add: snakeToCamel_def map_concat comp_def flip: parts cong: map_cong)
  qed
qed simp

section \<open>Loops over a map\<close>

lemma map_pair_fst [simp]: "map fst (map (\<lambda>(k, v). (f k, g v)) m) = map f (map fst m)"
  by (induction m) auto

lemma distinct_map_keys:
  "gm_ok m \<Longrightarrow> inj_on f (fst ` set m) \<Longrightarrow> distinct (map fst (map (\<lambda>(k, v). (f k, g v)) m))"
  by (simp only: map_pair_fst gm_ok_def distinct_map [of f "map fst m"] set_map simp_thms)

text \<open>
  The loop \<open>for k, v := range m { out[f(k)] = g(v) }\<close> reads back entry by entry, in
  whatever order it ran, when \<open>f\<close> keeps the keys apart.
\<close>

lemma rename_loop_get:
  assumes "gm_ok m" and "inj_on f (fst ` set m)" and "gm_get m k = Some v"
  shows "gm_get (gm_build (map (\<lambda>(k, v). (f k, g v)) m)) (f k) = Some (g v)"
proof -
  have d: "distinct (map fst (map (\<lambda>(k, v). (f k, g v)) m))"
    using assms(1,2) by (rule distinct_map_keys)
  have "(f k, g v) \<in> set (map (\<lambda>(k, v). (f k, g v)) m)"
    using assms(3) by (force dest: map_of_SomeD)
  then show ?thesis
    using d by (simp only: gm_get_build_distinct map_of_is_SomeI)
qed

lemma rename_loop_perm:
  assumes "gm_ok m" and "inj_on f (fst ` set m)" and "mset m = mset m'"
  shows "gm_eq (gm_build (map (\<lambda>(k, v). (f k, g v)) m)) (gm_build (map (\<lambda>(k, v). (f k, g v)) m'))"
proof -
  have ok': "gm_ok m'" and set': "set m' = set m"
    using assms(1,3) gm_perm_ok mset_eq_setD by (auto dest: mset_eq_setD)
  have "distinct (map fst (map (\<lambda>(k, v). (f k, g v)) m))"
    using assms(1,2) by (rule distinct_map_keys)
  moreover have "distinct (map fst (map (\<lambda>(k, v). (f k, g v)) m'))"
    using ok' assms(2) set' by (intro distinct_map_keys) simp_all
  moreover have "set (map (\<lambda>(k, v). (f k, g v)) m) = set (map (\<lambda>(k, v). (f k, g v)) m')"
    by (simp add: set')
  ultimately show ?thesis
    unfolding gm_eq_def by (metis gm_get_build_distinct map_of_same_set)
qed

text \<open>A loop that ran once changes nothing when it runs again.\<close>

lemma rename_loop_idem:
  assumes keys: "\<And>k. f (f k) = f k" and vals: "\<And>k v. (k, v) \<in> set m \<Longrightarrow> g (g v) = g v"
  defines "h \<equiv> \<lambda>(k, v). (f k, g v)"
  shows "gm_build (map h (gm_build (map h m))) = gm_build (map h m)"
proof -
  have "h p = p" if "p \<in> set (gm_build (map h m))" for p
    using that set_gm_write [of "[]" "map h m"] by (auto simp: h_def keys vals)
  then have "map h (gm_build (map h m)) = gm_build (map h m)"
    by (rule map_idI)
  moreover have "gm_ok (gm_build (map h m))" by simp
  ultimately show ?thesis by (simp add: gm_ok_def)
qed

section \<open>The built-in transformers normalise\<close>

lemma camel_val_idem: "camel_val (camel_val v) = camel_val v"
proof (induction v rule: camel_val.induct)
  case (1 m)
  then show ?case using rename_loop_idem [of snakeToCamel m camel_val] by simp
qed simp_all

lemma join_val_idem: "join_val (join_val v) = join_val v"
proof (induction v rule: join_val.induct)
  case (1 m)
  then show ?case using rename_loop_idem [of "\<lambda>k. k" m join_val] by simp
qed (simp_all split: option.split)

section \<open>The contract of a built-in transformer\<close>

text \<open>
  A built-in transformer normalises: naming it twice is naming it once.
\<close>

locale args_transformer =
  fixes f :: "args \<Rightarrow> args"
  assumes f_idem: "f (f a) = f a"
begin

lemma iterate_once: "(f ^^ Suc n) a = f a"
  by (induction n) (simp_all add: f_idem)

end

interpretation camel: args_transformer snakeToCamelKeys
proof unfold_locales
  show "snakeToCamelKeys (snakeToCamelKeys a) = snakeToCamelKeys a" for a
    using rename_loop_idem [of snakeToCamel "entries a" camel_val]
    by (simp add: snakeToCamelKeys_def camel_val_idem)
qed

interpretation joined: args_transformer joinStringArrays
proof unfold_locales
  show "joinStringArrays (joinStringArrays a) = joinStringArrays a" for a
    using rename_loop_idem [of "\<lambda>k. k" "entries a" join_val]
    by (simp add: joinStringArrays_def join_val_idem)
qed

text \<open>
  Normalising resource types needs a table that maps no singular form on to another one.
\<close>

definition singular_stable :: "unicode \<Rightarrow> (string, string) gomap \<Rightarrow> bool" where
  "singular_stable u s \<longleftrightarrow>
     list_all (\<lambda>(p, v). case gm_get s (ToLower u v) of None \<Rightarrow> True | Some w \<Rightarrow> w = v) s"

lemma singularizeResourceType_idem:
  assumes "singular_stable u s"
  shows "singularizeResourceType u (singularizeResourceType u a s) s = singularizeResourceType u a s"
proof (cases "gm_get (entries a) ''resourceType''")
  case (Some v)
  show ?thesis
  proof (cases v)
    case (AStr t)
    show ?thesis
    proof (cases "gm_get s (ToLower u t)")
      case found: (Some w)
      then have stable: "gm_get s (ToLower u w) = None \<or> gm_get s (ToLower u w) = Some w"
        using assms map_of_SomeD [OF found]
        by (cases "gm_get s (ToLower u w)") (fastforce simp: singular_stable_def list_all_iff)+
      have "gm_ok (gm_set ''resourceType'' (AStr w) (gm_build (entries a)))" by simp
      then have "gm_build (gm_set ''resourceType'' (AStr w) (gm_build (entries a))) =
          gm_set ''resourceType'' (AStr w) (gm_build (entries a))"
        unfolding gm_ok_def by (rule gm_build_id)
      then show ?thesis
        using Some AStr found stable
        by (auto simp: singularizeResourceType_def gm_set_same)
    qed (simp add: singularizeResourceType_def Some AStr)
  qed (simp_all add: singularizeResourceType_def Some)
qed (simp add: singularizeResourceType_def)

lemma k8s_stable: "singular_stable u k8sResourceSingular"
  by (simp add: singular_stable_def k8sResourceSingular_def ToLower_def is_ascii_def
      ascii_lower_def)

interpretation singular: args_transformer
  "\<lambda>a. singularizeResourceType u a k8sResourceSingular" for u
  by unfold_locales (rule singularizeResourceType_idem [OF k8s_stable])

section \<open>Where the arguments go\<close>

text \<open>
  The specification of the camel-case names, letter by letter: an underscore is dropped
  and the next letter that is not an underscore is put in upper case.
\<close>

fun camelled_from :: "bool \<Rightarrow> string \<Rightarrow> string" where
  "camelled_from up [] = []"
| "camelled_from up (c # cs) =
     (if c = CHR ''_'' then camelled_from True cs
      else (if up then ascii_upper c else c) # camelled_from False cs)"

abbreviation camelled :: "string \<Rightarrow> string" where
  "camelled \<equiv> camelled_from False"

lemma camelled_split:
  assumes "list_all is_ascii s"
  shows "concat (map camel_part (str_split (CHR ''_'') s)) = camelled_from True s \<and>
    hd (str_split (CHR ''_'') s) @ concat (map camel_part (tl (str_split (CHR ''_'') s))) = camelled s"
  using assms
proof (induction s)
  case (Cons c cs)
  then show ?case
    by (cases "str_split (CHR ''_'') cs") (auto simp: camel_part_def ToUpper1_def)
qed (simp add: camel_part_def)

lemma snakeToCamel_camelled:
  assumes "list_all is_ascii s"
  shows "snakeToCamel s = camelled s"
proof (cases "str_split (CHR ''_'') s")
  case (Cons p ps)
  have "snakeToCamel s = p @ concat (map camel_part ps)"
    using Cons str_split_join [of "CHR ''_''" s] by (auto simp: snakeToCamel_def)
  then show ?thesis using camelled_split [OF assms] Cons by simp
qed simp

text \<open>
  The values of nested objects that are no objects or empty ones, each with the keys that
  lead to it.
\<close>

fun leaves :: "any \<Rightarrow> (string list \<times> any) list" where
  "leaves (AObj m) = (if m = [] then [([], AObj [])]
     else concat (map (\<lambda>(k, v). map (\<lambda>(ks, w). (k # ks, w)) (leaves v)) m))"
| "leaves v = [([], v)]"

text \<open>
  The arguments on which the renaming is safe: in every object the keys are ASCII and stay
  apart, and arrays hold neither objects nor arrays.
\<close>

fun apart :: "any \<Rightarrow> bool" where
  "apart (AObj m) = (distinct (map (\<lambda>(k, v). camelled k) m) \<and>
     list_all (\<lambda>(k, v). list_all is_ascii k \<and> apart v) m)"
| "apart (AArr xs) = list_all (\<lambda>x. case x of AObj _ \<Rightarrow> False | AArr _ \<Rightarrow> False | _ \<Rightarrow> True) xs"
| "apart v = True"

lemma camel_loop_apart:
  assumes "apart (AObj m)"
  shows "gm_build (map (\<lambda>(k, v). (snakeToCamel k, camel_val v)) m) =
    map (\<lambda>(k, v). (camelled k, camel_val v)) m"
proof -
  have e: "map (\<lambda>(k, v). (snakeToCamel k, camel_val v)) m = map (\<lambda>(k, v). (camelled k, camel_val v)) m"
    using assms by (auto simp: list_all_iff snakeToCamel_camelled)
  have "map fst (map (\<lambda>(k, v). (camelled k, camel_val v)) m) = map (\<lambda>(k, v). camelled k) m"
    by (simp add: comp_def case_prod_beta)
  then have "distinct (map fst (map (\<lambda>(k, v). (camelled k, camel_val v)) m))"
    using assms by (simp only: apart.simps)
  then show ?thesis unfolding e by (rule gm_build_id)
qed

lemma leaves_camel_val:
  "apart v \<Longrightarrow> leaves (camel_val v) = map (\<lambda>(ks, w). (map camelled ks, w)) (leaves v)"
proof (induction v rule: camel_val.induct)
  case (1 m)
  have "map (\<lambda>(ks, w). (camelled k # ks, w)) (leaves (camel_val v)) =
      map (\<lambda>(ks, w). (map camelled ks, w)) (map (\<lambda>(ks, w). (k # ks, w)) (leaves v))"
    if "(k, v) \<in> set m" for k v
  proof -
    have "apart v" using that "1.prems" by (auto simp: list_all_iff)
    from "1.IH" [OF that refl this] show ?thesis by (simp add: comp_def case_prod_beta)
  qed
  then have "map (\<lambda>(k, v). map (\<lambda>(ks, w). (k # ks, w)) (leaves v)) (map (\<lambda>(k, v). (camelled k, camel_val v)) m) =
      map (map (\<lambda>(ks, w). (map camelled ks, w))) (map (\<lambda>(k, v). map (\<lambda>(ks, w). (k # ks, w)) (leaves v)) m)"
    by (auto simp: comp_def case_prod_beta)
  then have "concat (map (\<lambda>(k, v). map (\<lambda>(ks, w). (k # ks, w)) (leaves v)) (map (\<lambda>(k, v). (camelled k, camel_val v)) m)) =
      map (\<lambda>(ks, w). (map camelled ks, w)) (concat (map (\<lambda>(k, v). map (\<lambda>(ks, w). (k # ks, w)) (leaves v)) m))"
    by (simp only: map_concat)
  then show ?case
    unfolding camel_val.simps camel_loop_apart [OF "1.prems"] leaves.simps map_is_Nil_conv
    by (cases "m = []") (simp_all only: simp_thms if_True if_False, simp)
qed simp_all

section \<open>Properties\<close>

lemma applyFieldMap_alt:
  "entries fm \<noteq> [] \<Longrightarrow> applyFieldMap a fm =
     Some (gm_build (map (\<lambda>(k, v). ((case gm_get (entries fm) k of Some r \<Rightarrow> r | None \<Rightarrow> k), v)) (entries a)))"
  by (auto simp: applyFieldMap_def split: option.splits
      intro!: arg_cong [of _ _ gm_build] map_cong)

text \<open>
  On an ASCII name \<open>snakeToCamel\<close> yields a name without underscores that has the
  same letters in the same order, up to case.\<close>

theorem snakeToCamel_spec:
  assumes "list_all is_ascii s"
  shows "CHR ''_'' \<notin> set (snakeToCamel s) \<and>
    map ascii_lower (snakeToCamel s) = map ascii_lower (filter (\<lambda>c. c \<noteq> CHR ''_'') s)"
  using assms snakeToCamel_no_underscore snakeToCamel_letters by simp

theorem snakeToCamel_spec_witness:
  "list_all is_ascii ''pod_name_x'' \<and> snakeToCamel ''pod_name_x'' = ''podNameX'' \<and>
   CHR ''_'' \<notin> set (snakeToCamel ''pod_name_x'') \<and>
   map ascii_lower (snakeToCamel ''pod_name_x'') =
     map ascii_lower (filter (\<lambda>c. c \<noteq> CHR ''_'') ''pod_name_x'')"
proof -
  have h: "list_all is_ascii ''pod_name_x''" by code_simp
  have e: "snakeToCamel ''pod_name_x'' = ''podNameX''" by code_simp
  show ?thesis using h e snakeToCamel_spec [OF h] by blast
qed

text \<open>
  The camel-case transformer keeps every argument: when no two keys have the same
  camel-case form, each entry is found under its converted key with its nested objects
  converted too, and every order in which the runtime ranges over the map gives the same
  result.\<close>

theorem snakeToCamelKeys_entries:
  assumes "gm_ok m" and "inj_on snakeToCamel (fst ` set m)" and "mset m' = mset m"
    and "gm_get m k = Some v"
  shows "gm_get (entries (snakeToCamelKeys (Some m))) (snakeToCamel k) = Some (camel_val v) \<and>
    gm_eq (entries (snakeToCamelKeys (Some m'))) (entries (snakeToCamelKeys (Some m)))"
  using assms rename_loop_get [of m snakeToCamel k v camel_val]
    rename_loop_perm [of m snakeToCamel m' camel_val]
  by (simp add: snakeToCamelKeys_def gm_eq_sym)

theorem snakeToCamelKeys_entries_witness:
  "gm_get (entries (snakeToCamelKeys (Some [(''a_b'', AStr ''x''), (''c'', ANil)])))
     (snakeToCamel ''a_b'') = Some (camel_val (AStr ''x'')) \<and>
   gm_eq (entries (snakeToCamelKeys (Some [(''c'', ANil), (''a_b'', AStr ''x'')])))
     (entries (snakeToCamelKeys (Some [(''a_b'', AStr ''x''), (''c'', ANil)])))"
proof (rule snakeToCamelKeys_entries)
  show "gm_ok [(''a_b'', AStr ''x''), (''c'', ANil)]" by (simp add: gm_ok_def)
  have "snakeToCamel ''a_b'' = ''aB''" and "snakeToCamel ''c'' = ''c''" by code_simp+
  then show "inj_on snakeToCamel (fst ` set [(''a_b'', AStr ''x''), (''c'', ANil)])" by simp
qed simp_all

text \<open>
  \<open>applyFieldMap\<close> renames and loses nothing: when the renaming keeps the keys of
  the arguments apart, every entry is found under its new key (its old key when the field
  map does not name it), in whatever order the map is visited.\<close>

theorem applyFieldMap_entries:
  assumes "gm_ok m" and "fm \<noteq> []" and "mset m' = mset m" and "gm_get m k = Some v"
    and "inj_on (\<lambda>k. case gm_get fm k of Some r \<Rightarrow> r | None \<Rightarrow> k) (fst ` set m)"
  shows "gm_get (entries (applyFieldMap (Some m) (Some fm)))
      (case gm_get fm k of Some r \<Rightarrow> r | None \<Rightarrow> k) = Some v \<and>
    gm_eq (entries (applyFieldMap (Some m') (Some fm))) (entries (applyFieldMap (Some m) (Some fm)))"
  using assms rename_loop_get [of m "\<lambda>k. case gm_get fm k of Some r \<Rightarrow> r | None \<Rightarrow> k" k v "\<lambda>v. v"]
    rename_loop_perm [of m "\<lambda>k. case gm_get fm k of Some r \<Rightarrow> r | None \<Rightarrow> k" m' "\<lambda>v. v"]
  by (simp add: applyFieldMap_alt gm_eq_sym)

theorem applyFieldMap_entries_witness:
  "gm_get (entries (applyFieldMap (Some [(''ns'', AStr ''x''), (''c'', ANil)]) (Some [(''ns'', ''namespace'')])))
     (case gm_get [(''ns'', ''namespace'')] ''ns'' of Some r \<Rightarrow> r | None \<Rightarrow> ''ns'') = Some (AStr ''x'') \<and>
   gm_eq (entries (applyFieldMap (Some [(''c'', ANil), (''ns'', AStr ''x'')]) (Some [(''ns'', ''namespace'')])))
     (entries (applyFieldMap (Some [(''ns'', AStr ''x''), (''c'', ANil)]) (Some [(''ns'', ''namespace'')])))"
  by (rule applyFieldMap_entries) (simp_all add: gm_ok_def)

text \<open>
  A renaming on to a key that is present loses an argument, and the iteration order of
  the map decides which one: the same arguments and field map give different requests.\<close>

theorem applyFieldMap_collision:
  "\<exists>m m' fm. gm_ok m \<and> mset m' = mset m \<and>
     \<not> gm_eq (entries (applyFieldMap (Some m) (Some fm))) (entries (applyFieldMap (Some m') (Some fm)))"
proof -
  let ?m = "[(''ns'', ABool True), (''namespace'', ABool False)]"
  let ?fm = "[(''ns'', ''namespace'')]"
  have "gm_get (entries (applyFieldMap (Some ?m) (Some ?fm))) ''namespace'' = Some (ABool False)"
    and "gm_get (entries (applyFieldMap (Some (rev ?m)) (Some ?fm))) ''namespace'' = Some (ABool True)"
    by (simp_all add: applyFieldMap_def)
  then have "\<not> gm_eq (entries (applyFieldMap (Some ?m) (Some ?fm))) (entries (applyFieldMap (Some (rev ?m)) (Some ?fm)))"
    unfolding gm_eq_def by force
  moreover have "gm_ok ?m" and "mset (rev ?m) = mset ?m" by (simp_all add: gm_ok_def)
  ultimately show ?thesis by blast
qed

text \<open>
  \<open>joinStringArrays\<close> keeps the keys and replaces each value by its joined form:
  an array whose items are all strings becomes the strings with a space between them, an
  array with any other item stays, objects are treated recursively.\<close>

theorem joinStringArrays_entries:
  assumes "gm_ok m"
  shows "gm_get (entries (joinStringArrays (Some m))) k = map_option join_val (gm_get m k) \<and>
    join_val (AArr (map AStr strs)) = AStr (str_join '' '' strs) \<and>
    (all_strings xs = None \<longrightarrow> join_val (AArr xs) = AArr xs)"
proof -
  have strs: "all_strings (map AStr strs) = Some strs" by (induction strs) auto
  have "distinct (map fst (map (\<lambda>(k, v). (k, join_val v)) m))"
    using distinct_map_keys [OF assms inj_on_id2, of join_val] .
  then have "gm_get (entries (joinStringArrays (Some m))) k = map_of (map (\<lambda>(k, v). (k, join_val v)) m) k"
    by (simp only: joinStringArrays_def entries_simps gm_build_id)
  then show ?thesis by (simp add: map_of_map strs)
qed

theorem joinStringArrays_entries_witness:
  "gm_get (entries (joinStringArrays (Some [(''argv'', AArr [AStr ''ls'', AStr ''-l''])]))) ''argv'' =
     map_option join_val (gm_get [(''argv'', AArr [AStr ''ls'', AStr ''-l''])] ''argv'') \<and>
   join_val (AArr (map AStr [''ls'', ''-l''])) = AStr ''ls -l'' \<and>
   join_val (AArr [AStr ''a'', ANil]) = AArr [AStr ''a'', ANil]"
  using joinStringArrays_entries [of "[(''argv'', AArr [AStr ''ls'', AStr ''-l''])]" "''argv''"
      "[''ls'', ''-l'']" "[AStr ''a'', ANil]"]
  by (simp add: gm_ok_def)

text \<open>
  C40. The \<open>camelCase\<close> transformer renames and loses nothing: on arguments whose keys
  are ASCII and stay apart in every object, and whose arrays hold neither objects nor
  arrays, the server gets exactly the values of the caller, each under its old keys with
  every underscore dropped and the letter after it in upper case, at every depth.\<close>

theorem camelCase_renames:
  assumes "apart (AObj (entries a))"
  shows "leaves (AObj (entries (applyAll u [ArgsTransformerCamelCase] a custom singularMap))) =
    map (\<lambda>(ks, v). (map camelled ks, v)) (leaves (AObj (entries a)))"
  using leaves_camel_val [OF assms]
  by (simp add: applyArgsTransformer_def snakeToCamelKeys_def)

theorem camelCase_renames_witness:
  "leaves (AObj (entries (applyAll \<lparr>uniLower = id, uniTrimSpace = id\<rparr> [''camelCase'']
      (Some [(''label_map'', AObj [(''app__name'', AStr ''web'')]), (''all'', ABool True)]) [] []))) =
   [([''labelMap'', ''appName''], AStr ''web''), ([''all''], ABool True)]"
proof -
  let ?a = "Some [(''label_map'', AObj [(''app__name'', AStr ''web'')]), (''all'', ABool True)]"
  have "apart (AObj (entries ?a))" by code_simp
  then have "leaves (AObj (entries (applyAll \<lparr>uniLower = id, uniTrimSpace = id\<rparr> [''camelCase''] ?a [] []))) =
      map (\<lambda>(ks, v). (map camelled ks, v)) (leaves (AObj (entries ?a)))"
    by (rule camelCase_renames)
  also have "\<dots> = [([''labelMap'', ''appName''], AStr ''web''), ([''all''], ABool True)]"
    by code_simp
  finally show ?thesis .
qed

text \<open>
  The built-in transformers normalise: a server that lists one of them several times in
  a row sends what it would send if it listed it once.\<close>

theorem applyAll_repeat:
  assumes "t = ArgsTransformerCamelCase \<or> t = ArgsTransformerJoinArrays \<or> t = ArgsTransformerSingularResource"
  shows "applyAll u (replicate (Suc n) t) a custom k8sResourceSingular =
    applyAll u [t] a custom k8sResourceSingular"
proof -
  define f where "f = (\<lambda>a. applyArgsTransformer u t a custom k8sResourceSingular)"
  have iter: "applyAll u (replicate n t) a custom k8sResourceSingular = (f ^^ n) a" for n a
    by (induction n arbitrary: a) (simp_all add: funpow_swap1 flip: f_def, simp add: f_def)
  have "f = snakeToCamelKeys \<or> f = joinStringArrays \<or>
      f = (\<lambda>a. singularizeResourceType u a k8sResourceSingular)"
    using assms by (auto simp: f_def applyArgsTransformer_def)
  then have "(f ^^ Suc n) a = f a"
    using camel.iterate_once joined.iterate_once singular.iterate_once by blast
  then show ?thesis using iter [of "Suc n" a] by (simp add: f_def)
qed

theorem applyAll_repeat_witness:
  "applyAll \<lparr>uniLower = id, uniTrimSpace = id\<rparr> [''camelCase'', ''camelCase''] (Some [(''a_b'', ANil)]) [] k8sResourceSingular =
   applyAll \<lparr>uniLower = id, uniTrimSpace = id\<rparr> [''camelCase''] (Some [(''a_b'', ANil)]) [] k8sResourceSingular"
  using applyAll_repeat [of "''camelCase''" "\<lparr>uniLower = id, uniTrimSpace = id\<rparr>" 1 "Some [(''a_b'', ANil)]" "[]"]
  by (simp add: numeral_2_eq_2)

text \<open>
  \<open>mergedSingularMap\<close> layers the three tables: an entry of the server wins over one
  of \<open>WithResourceSingular\<close>, which wins over the built-in one, and
  \<open>DefaultResourceSingular\<close> is the built-in table.\<close>

theorem mergedSingularMap_layers:
  assumes "gm_ok g" and "gm_ok p"
  shows "gm_get (mergedSingularMap (Some g) (Some p)) k =
      (case gm_get p k of Some v \<Rightarrow> Some v | None \<Rightarrow>
        (case gm_get g k of Some v \<Rightarrow> Some v | None \<Rightarrow> gm_get DefaultResourceSingular k)) \<and>
    gm_get (mergedSingularMap None None) k = gm_get k8sResourceSingular k"
proof -
  have r: "map_of (rev m) = map_of m" if "gm_ok m" for m :: "(string, string) gomap"
    using that map_of_same_set [of "rev m" m] by (simp add: gm_ok_def rev_map [symmetric])
  have k8s: "gm_build k8sResourceSingular = k8sResourceSingular"
    by (rule gm_build_id) (simp add: k8sResourceSingular_def)
  show ?thesis
    using assms by (simp add: mergedSingularMap_def DefaultResourceSingular_def gm_get_write r k8s
        map_add_def split: option.split)
qed

theorem mergedSingularMap_layers_witness:
  "gm_get (mergedSingularMap (Some [(''pods'', ''p''), (''nodes'', ''n'')]) (Some [(''pods'', ''q'')])) ''pods'' =
     Some ''q''"
  using mergedSingularMap_layers [of "[(''pods'', ''p''), (''nodes'', ''n'')]" "[(''pods'', ''q'')]" "''pods''"]
  by (simp add: gm_ok_def)

text \<open>
  A word that starts with a letter outside ASCII is damaged: its first byte alone goes
  through \<open>strings.ToUpper\<close> and comes back as the replacement character. The name
  \<open>a_\<close> followed by the UTF-8 encoding of U+00E9 (bytes C3 A9) keeps only the byte A9 of
  that letter.\<close>

theorem snakeToCamel_damages_utf8:
  "snakeToCamel (''a_'' @ [CHR 0xC3, CHR 0xA9]) = ''a'' @ [CHR 0xEF, CHR 0xBF, CHR 0xBD, CHR 0xA9]"
  by code_simp

end
