(* ===== verification/Config.thy ===== *)
theory Config
  imports Core Transform
begin

text \<open>
  Configuration, \<open>config.go\<close>: server settings, the defaults of a kind and the checks on
  a single server. A transport type is the string of the configuration file; \<open>Auth\<close> is
  an optional map because the code distinguishes nil.
\<close>

section \<open>Definitions\<close>

record KindSettings =
  ks_ArgsTransformers :: ArgsTransformers
  ks_FieldMap :: "(string, string) gomap option"

type_synonym TransportType = string

abbreviation TransportStdio :: TransportType where "TransportStdio \<equiv> ''stdio''"
abbreviation TransportHTTP :: TransportType where "TransportHTTP \<equiv> ''http''"
abbreviation TransportSSE :: TransportType where "TransportSSE \<equiv> ''sse''"

record ServerConfig =
  sc_Name :: string
  sc_Kind :: string
  sc_Transport :: TransportType
  sc_Binary :: string
  sc_Args :: "string list"
  sc_Env :: "string list"
  sc_URL :: string
  sc_CallTimeout :: duration
  sc_Auth :: args
  sc_ArgsTransformers :: ArgsTransformers
  sc_FieldMap :: "(string, string) gomap option"
  sc_ResourceSingular :: "(string, string) gomap option"

definition zeroServerConfig :: ServerConfig where
  "zeroServerConfig = \<lparr>sc_Name = [], sc_Kind = [], sc_Transport = [], sc_Binary = [],
     sc_Args = [], sc_Env = [], sc_URL = [], sc_CallTimeout = 0, sc_Auth = None,
     sc_ArgsTransformers = [], sc_FieldMap = None, sc_ResourceSingular = None\<rparr>"

record MultiplexerConfig =
  mc_Servers :: "ServerConfig list"
  mc_KindSettings :: "(string, KindSettings) gomap"
  mc_KindHints :: "(string, string list) gomap option"

definition withKindDefaults :: "ServerConfig \<Rightarrow> KindSettings \<Rightarrow> ServerConfig" where
  "withKindDefaults c ks =
     (let c = (if sc_ArgsTransformers c = [] then c\<lparr>sc_ArgsTransformers := ks_ArgsTransformers ks\<rparr> else c);
          c = (if entries (sc_FieldMap c) = [] then c\<lparr>sc_FieldMap := ks_FieldMap ks\<rparr> else c)
      in c)"

definition validate :: "ServerConfig \<Rightarrow> err option" where
  "validate c =
     (if sc_Name c = [] then Some (ErrText ''mcpx: server name is required'')
      else if sc_Transport c = TransportStdio then
        (if sc_Binary c = [] then Some (ErrText ''mcpx: binary is required for stdio transport'') else None)
      else if sc_Transport c = TransportHTTP \<or> sc_Transport c = TransportSSE then
        (if sc_URL c = [] then Some (ErrText ''mcpx: url is required for http/sse transport'') else None)
      else Some (ErrText (''mcpx: unknown transport type: '' @ sc_Transport c)))"

section \<open>Lemmas\<close>

lemma withKindDefaults_fields [simp]:
  "sc_Name (withKindDefaults c ks) = sc_Name c"
  "sc_Kind (withKindDefaults c ks) = sc_Kind c"
  "sc_Transport (withKindDefaults c ks) = sc_Transport c"
  "sc_Binary (withKindDefaults c ks) = sc_Binary c"
  "sc_URL (withKindDefaults c ks) = sc_URL c"
  "sc_Auth (withKindDefaults c ks) = sc_Auth c"
  "sc_CallTimeout (withKindDefaults c ks) = sc_CallTimeout c"
  "sc_ResourceSingular (withKindDefaults c ks) = sc_ResourceSingular c"
  by (simp_all add: withKindDefaults_def Let_def)

lemma validate_None_iff:
  "validate c = None \<longleftrightarrow> sc_Name c \<noteq> [] \<and>
     (sc_Transport c = TransportStdio \<and> sc_Binary c \<noteq> [] \<or>
      (sc_Transport c = TransportHTTP \<or> sc_Transport c = TransportSSE) \<and> sc_URL c \<noteq> [])"
  by (auto simp: validate_def)

section \<open>Properties\<close>

text \<open>
  Per-server settings win over the defaults of the kind, the defaults fill what the
  server leaves empty, nothing else of the configuration changes, and a valid configuration
  stays valid. Applying the same defaults twice is applying them once.\<close>

theorem withKindDefaults_spec:
  "sc_ArgsTransformers (withKindDefaults c ks) =
     (if sc_ArgsTransformers c = [] then ks_ArgsTransformers ks else sc_ArgsTransformers c) \<and>
   sc_FieldMap (withKindDefaults c ks) =
     (if entries (sc_FieldMap c) = [] then ks_FieldMap ks else sc_FieldMap c) \<and>
   withKindDefaults c ks = c\<lparr>sc_ArgsTransformers := sc_ArgsTransformers (withKindDefaults c ks),
     sc_FieldMap := sc_FieldMap (withKindDefaults c ks)\<rparr> \<and>
   validate (withKindDefaults c ks) = validate c \<and>
   withKindDefaults (withKindDefaults c ks) ks = withKindDefaults c ks"
  by (auto simp: validate_def) (auto simp: withKindDefaults_def Let_def)

end
