(* ===== verification/Cache.thy ===== *)
theory Cache
  imports Core
begin

text \<open>
  The response cache, \<open>cache.go\<close>: context helpers, the built-in LRU cache, cacheability,
  per-tool lifetimes and the cache key. The LRU keeps the code's two structures, a linked
  list of elements and an index from keys to elements; elements are addressed by numbers.
  \<open>alru_get\<close> and \<open>alru_set\<close> specify what the pair of structures stands for, a list of
  entries with the most recently used one first.
\<close>

section \<open>Definitions\<close>

subsection \<open>Context helpers\<close>

definition WithCacheScope :: "ctx \<Rightarrow> string \<Rightarrow> ctx" where
  "WithCacheScope c scope = ctx_WithValue c CacheScopeKey (CtxString scope)"

definition CacheScope :: "ctx \<Rightarrow> string" where
  "CacheScope c = (case ctx_Value c CacheScopeKey of Some (CtxString s) \<Rightarrow> s | _ \<Rightarrow> [])"

definition IsCacheHit :: "ctx \<Rightarrow> bool" where
  "IsCacheHit c = (case ctx_Value c CacheHitKey of Some (CtxBool b) \<Rightarrow> b | _ \<Rightarrow> False)"

definition markCacheHit :: "ctx \<Rightarrow> ctx" where
  "markCacheHit c = ctx_WithValue c CacheHitKey (CtxBool True)"

subsection \<open>The LRU cache\<close>

record lruEntry =
  le_key :: string
  le_value :: "CallResult option"
  le_expiresAt :: gotime

record lruCache =
  lc_list :: "nat list"
  lc_elem :: "nat \<Rightarrow> lruEntry"
  lc_fresh :: nat
  lc_index :: "(string, nat) gomap"
  lc_size :: int

definition newLRUCache :: "int \<Rightarrow> lruCache" where
  "newLRUCache sz = \<lparr>lc_list = [],
     lc_elem = (\<lambda>_. \<lparr>le_key = [], le_value = None, le_expiresAt = 0\<rparr>),
     lc_fresh = 0, lc_index = [], lc_size = sz\<rparr>"

text \<open>\<open>container/list\<close>: removal, move to the front, insertion at the front.\<close>

definition list_Remove :: "nat \<Rightarrow> lruCache \<Rightarrow> lruCache" where
  "list_Remove el c = c\<lparr>lc_list := remove1 el (lc_list c)\<rparr>"

definition list_MoveToFront :: "nat \<Rightarrow> lruCache \<Rightarrow> lruCache" where
  "list_MoveToFront el c = c\<lparr>lc_list := el # remove1 el (lc_list c)\<rparr>"

definition list_PushFront :: "lruEntry \<Rightarrow> lruCache \<Rightarrow> nat \<times> lruCache" where
  "list_PushFront e c =
     (lc_fresh c, c\<lparr>lc_list := lc_fresh c # lc_list c,
        lc_elem := (lc_elem c)(lc_fresh c := e), lc_fresh := Suc (lc_fresh c)\<rparr>)"

definition lru_Get :: "gotime \<Rightarrow> string \<Rightarrow> lruCache \<Rightarrow> CallResult option \<times> lruCache" where
  "lru_Get now key c =
     (case gm_get (lc_index c) key of
        None \<Rightarrow> (None, c)
      | Some el \<Rightarrow>
          (let e = lc_elem c el in
           if le_expiresAt e < now then
             (let c = list_Remove el c in (None, c\<lparr>lc_index := gm_delete key (lc_index c)\<rparr>))
           else (let c = list_MoveToFront el c in (Clone (le_value e), c))))"

definition lru_Set :: "gotime \<Rightarrow> string \<Rightarrow> CallResult option \<Rightarrow> duration \<Rightarrow> lruCache \<Rightarrow> lruCache" where
  "lru_Set now key value ttl c =
     (if value = None \<or> ttl \<le> 0 then c
      else (case gm_get (lc_index c) key of
        Some el \<Rightarrow>
          (let c = list_MoveToFront el c;
               e = lc_elem c el
           in c\<lparr>lc_elem := (lc_elem c)(el := e\<lparr>le_value := Clone value, le_expiresAt := now + ttl\<rparr>)\<rparr>)
      | None \<Rightarrow>
          (let e = \<lparr>le_key = key, le_value = Clone value, le_expiresAt = now + ttl\<rparr>;
               (el, c) = list_PushFront e c;
               c = c\<lparr>lc_index := gm_set key el (lc_index c)\<rparr>
           in if lc_size c < int (length (lc_list c)) then
                (if lc_list c = [] then c
                 else (let back = last (lc_list c);
                           c = list_Remove back c
                       in c\<lparr>lc_index := gm_delete (le_key (lc_elem c back)) (lc_index c)\<rparr>))
              else c)))"

subsection \<open>Cacheability, lifetime and key\<close>

definition isCacheable :: "ToolInfo \<Rightarrow> bool" where
  "isCacheable info =
     (if ti_Destructive info then False
      else if ti_ReadOnly info \<and> ti_Idempotent info then True
      else gm_get (ti_Custom info) ''cacheable'' = Some ''true'')"

text \<open>
  \<open>toolTTL\<close> with \<open>time.ParseDuration\<close> as a parameter. The warn map is the list of the
  keys stored in it; the third component of the result says whether a warning is logged.
\<close>

definition toolTTL ::
  "(string \<Rightarrow> duration option) \<Rightarrow> ToolInfo \<Rightarrow> duration \<Rightarrow> string list \<Rightarrow>
   duration \<times> string list \<times> Field list option" where
  "toolTTL parse info defaultTTL warned =
     (case gm_get (ti_Custom info) ''cache_ttl'' of
        None \<Rightarrow> (defaultTTL, warned, None)
      | Some raw \<Rightarrow>
          (case parse raw of
             Some d \<Rightarrow> (d, warned, None)
           | None \<Rightarrow>
               (let warnKey = ti_Server info @ ''/'' @ ti_Name info in
                if warnKey \<in> set warned then (defaultTTL, warned, None)
                else (defaultTTL, warnKey # warned,
                      Some [(''server'', FStr (ti_Server info)), (''tool'', FStr (ti_Name info)),
                            (''value'', FStr raw)]))))"

definition canonicalJSON ::
  "(bytes \<Rightarrow> any option) \<Rightarrow> (any \<Rightarrow> bytes option) \<Rightarrow> bytes \<Rightarrow> string" where
  "canonicalJSON unmarshal marshal args =
     (if args = [] then ''{}''
      else (case unmarshal args of None \<Rightarrow> ''{}''
            | Some v \<Rightarrow> (case marshal v of None \<Rightarrow> ''{}'' | Some b \<Rightarrow> b)))"

definition defaultCacheKey ::
  "(bytes \<Rightarrow> any option) \<Rightarrow> (any \<Rightarrow> bytes option) \<Rightarrow>
   ctx \<Rightarrow> string \<Rightarrow> string \<Rightarrow> bytes \<Rightarrow> string" where
  "defaultCacheKey unmarshal marshal c server tool args =
     CacheScope c @ ''|'' @ server @ ''|'' @ tool @ ''|'' @ canonicalJSON unmarshal marshal args"

subsection \<open>Sequences of cache operations\<close>

text \<open>
  What callers do with a cache over time: each operation carries the clock reading of its
  call. The mutex of the cache makes the operations of concurrent callers one sequence.
\<close>

datatype cache_op =
    OpGet gotime string
  | OpSet gotime string "CallResult option" duration

fun cache_run ::
  "(gotime \<Rightarrow> string \<Rightarrow> 'c \<Rightarrow> CallResult option \<times> 'c) \<Rightarrow>
   (gotime \<Rightarrow> string \<Rightarrow> CallResult option \<Rightarrow> duration \<Rightarrow> 'c \<Rightarrow> 'c) \<Rightarrow>
   cache_op list \<Rightarrow> 'c \<Rightarrow> 'c" where
  "cache_run get put [] c = c"
| "cache_run get put (OpGet now k # ops) c = cache_run get put ops (snd (get now k c))"
| "cache_run get put (OpSet now k v ttl # ops) c = cache_run get put ops (put now k v ttl c)"

text \<open>An operation that stores something under the key.\<close>

fun stores :: "string \<Rightarrow> cache_op \<Rightarrow> bool" where
  "stores k (OpSet now k' v ttl) = (k' = k \<and> v \<noteq> None \<and> 0 < ttl)"
| "stores k (OpGet now k') = False"

section \<open>What the LRU stands for\<close>

type_synonym alru = "(string \<times> CallResult \<times> gotime) list"

definition alru_get :: "gotime \<Rightarrow> string \<Rightarrow> alru \<Rightarrow> CallResult option \<times> alru" where
  "alru_get now k xs =
     (case map_of xs k of
        None \<Rightarrow> (None, xs)
      | Some (v, t) \<Rightarrow>
          (if t < now then (None, AList.delete k xs)
           else (Some v, (k, v, t) # AList.delete k xs)))"

definition alru_set :: "int \<Rightarrow> gotime \<Rightarrow> string \<Rightarrow> CallResult \<Rightarrow> duration \<Rightarrow> alru \<Rightarrow> alru" where
  "alru_set sz now k v ttl xs =
     (if ttl \<le> 0 then xs
      else if map_of xs k \<noteq> None then (k, v, now + ttl) # AList.delete k xs
      else (let ys = (k, v, now + ttl) # xs in if sz < int (length ys) then butlast ys else ys))"

definition alru_put :: "int \<Rightarrow> gotime \<Rightarrow> string \<Rightarrow> CallResult option \<Rightarrow> duration \<Rightarrow> alru \<Rightarrow> alru" where
  "alru_put sz now k value ttl xs = (case value of None \<Rightarrow> xs | Some v \<Rightarrow> alru_set sz now k v ttl xs)"

definition lru_abs :: "lruCache \<Rightarrow> alru" where
  "lru_abs c = map (\<lambda>el. (le_key (lc_elem c el), the (le_value (lc_elem c el)), le_expiresAt (lc_elem c el)))
     (lc_list c)"

text \<open>
  The invariant: list and index hold the same elements, the index sends a key to the element
  that carries it, every element holds a result, and the bound is respected.
\<close>

definition lru_ok :: "lruCache \<Rightarrow> bool" where
  "lru_ok c \<longleftrightarrow>
     distinct (lc_list c) \<and>
     (\<forall>el\<in>set (lc_list c). el < lc_fresh c \<and> le_value (lc_elem c el) \<noteq> None) \<and>
     (\<forall>k el. gm_get (lc_index c) k = Some el \<longleftrightarrow> el \<in> set (lc_list c) \<and> le_key (lc_elem c el) = k) \<and>
     int (length (lc_list c)) \<le> lc_size c \<and> 0 < lc_size c"

section \<open>The two structures agree\<close>

definition abs_el :: "lruCache \<Rightarrow> nat \<Rightarrow> string \<times> CallResult \<times> gotime" where
  "abs_el c el = (le_key (lc_elem c el), the (le_value (lc_elem c el)), le_expiresAt (lc_elem c el))"

lemma lru_abs_alt: "lru_abs c = map (abs_el c) (lc_list c)"
  by (simp add: lru_abs_def abs_el_def)

lemma lru_index_iff:
  "lru_ok c \<Longrightarrow> gm_get (lc_index c) k = Some el \<longleftrightarrow> el \<in> set (lc_list c) \<and> le_key (lc_elem c el) = k"
  by (simp add: lru_ok_def)

lemma lru_ok_key_inj:
  "lru_ok c \<Longrightarrow> x \<in> set (lc_list c) \<Longrightarrow> y \<in> set (lc_list c) \<Longrightarrow>
   le_key (lc_elem c x) = le_key (lc_elem c y) \<Longrightarrow> x = y"
  unfolding lru_ok_def by (metis option.inject)

lemma lru_abs_distinct: "lru_ok c \<Longrightarrow> distinct (map fst (lru_abs c))"
  using lru_ok_key_inj [of c]
  by (auto simp: lru_abs_alt abs_el_def comp_def distinct_map lru_ok_def intro!: inj_onI)

lemma lru_index_lookup:
  assumes "lru_ok c"
  shows "map_of (lru_abs c) k = map_option (\<lambda>el. snd (abs_el c el)) (gm_get (lc_index c) k)"
proof (cases "gm_get (lc_index c) k")
  case None
  then have "\<forall>el\<in>set (lc_list c). le_key (lc_elem c el) \<noteq> k"
    using lru_index_iff [OF assms, of k] by (metis option.distinct(1))
  then have "k \<notin> fst ` set (lru_abs c)" by (auto simp: lru_abs_alt abs_el_def)
  then have "map_of (lru_abs c) k = None" by (simp add: map_of_eq_None_iff)
  then show ?thesis using None by simp
next
  case (Some el)
  then have "el \<in> set (lc_list c)" and "le_key (lc_elem c el) = k"
    using assms by (auto simp: lru_ok_def)
  then have "(k, snd (abs_el c el)) \<in> set (lru_abs c)"
    by (force simp: lru_abs_alt abs_el_def)
  then show ?thesis using Some lru_abs_distinct [OF assms] by simp
qed

lemma lru_abs_remove:
  assumes "lru_ok c" and "gm_get (lc_index c) k = Some el"
  shows "map (abs_el c) (remove1 el (lc_list c)) = AList.delete k (lru_abs c)"
proof -
  have el: "el \<in> set (lc_list c)" "le_key (lc_elem c el) = k" and d: "distinct (lc_list c)"
    using assms by (auto simp: lru_ok_def)
  have "remove1 el (lc_list c) = filter (\<lambda>x. le_key (lc_elem c x) \<noteq> k) (lc_list c)"
    using d el lru_ok_key_inj [OF assms(1)]
    by (auto simp: distinct_remove1_removeAll removeAll_filter_not_eq intro!: filter_cong)
  then show ?thesis
    by (simp add: lru_abs_alt AList.delete_eq filter_map comp_def abs_el_def case_prod_beta eq_commute)
qed

subsection \<open>Get\<close>

lemma lru_Get_miss:
  "gm_get (lc_index c) k = None \<Longrightarrow> lru_Get now k c = (None, c)"
  by (simp add: lru_Get_def)

lemma lru_Get_found:
  assumes "gm_get (lc_index c) k = Some el"
  shows "lru_Get now k c =
    (if le_expiresAt (lc_elem c el) < now
     then (None, c\<lparr>lc_list := remove1 el (lc_list c), lc_index := gm_delete k (lc_index c)\<rparr>)
     else (le_value (lc_elem c el), c\<lparr>lc_list := el # remove1 el (lc_list c)\<rparr>))"
  using assms by (simp add: lru_Get_def list_Remove_def list_MoveToFront_def Let_def)

lemma lru_Get_ok [mcpx_inv]:
  assumes "lru_ok c"
  shows "lru_ok (snd (lru_Get now k c))"
proof (cases "gm_get (lc_index c) k")
  case None
  then show ?thesis using assms by (simp add: lru_Get_miss)
next
  case (Some el)
  then have "el \<in> set (lc_list c)" using assms by (auto simp: lru_ok_def)
  then show ?thesis
    using assms lru_ok_key_inj [OF assms] Some
    by (auto simp: lru_Get_found lru_ok_def length_remove1 set_remove1_eq)
qed

lemma lru_Get_refines:
  assumes "lru_ok c"
  shows "fst (lru_Get now k c) = fst (alru_get now k (lru_abs c))"
    and "lru_abs (snd (lru_Get now k c)) = snd (alru_get now k (lru_abs c))"
proof -
  have "fst (lru_Get now k c) = fst (alru_get now k (lru_abs c)) \<and>
    lru_abs (snd (lru_Get now k c)) = snd (alru_get now k (lru_abs c))"
  proof (cases "gm_get (lc_index c) k")
    case None
    then show ?thesis
      using assms by (simp add: lru_Get_miss alru_get_def lru_index_lookup)
  next
    case (Some el)
    then have "el \<in> set (lc_list c)" "le_key (lc_elem c el) = k" "le_value (lc_elem c el) \<noteq> None"
      using assms by (auto simp: lru_ok_def)
    then show ?thesis
      using Some assms lru_abs_remove [OF assms Some]
      by (auto simp: lru_Get_found alru_get_def lru_index_lookup abs_el_def)
        (simp_all add: lru_abs_def abs_el_def [abs_def])
  qed
  then show "fst (lru_Get now k c) = fst (alru_get now k (lru_abs c))"
    and "lru_abs (snd (lru_Get now k c)) = snd (alru_get now k (lru_abs c))"
    by simp_all
qed

subsection \<open>Set\<close>

lemma lru_Set_noop: "value = None \<or> ttl \<le> 0 \<Longrightarrow> lru_Set now k value ttl c = c"
  by (simp add: lru_Set_def)

lemma lru_Set_found:
  assumes "gm_get (lc_index c) k = Some el" and "0 < ttl"
  shows "lru_Set now k (Some v) ttl c =
    c\<lparr>lc_list := el # remove1 el (lc_list c),
      lc_elem := (lc_elem c)(el := (lc_elem c el)\<lparr>le_value := Some v, le_expiresAt := now + ttl\<rparr>)\<rparr>"
  using assms by (simp add: lru_Set_def list_MoveToFront_def Let_def)

definition lru_insert :: "gotime \<Rightarrow> string \<Rightarrow> CallResult \<Rightarrow> duration \<Rightarrow> lruCache \<Rightarrow> lruCache" where
  "lru_insert now k v ttl c =
     c\<lparr>lc_list := lc_fresh c # lc_list c,
       lc_elem := (lc_elem c)(lc_fresh c := \<lparr>le_key = k, le_value = Some v, le_expiresAt = now + ttl\<rparr>),
       lc_fresh := Suc (lc_fresh c), lc_index := gm_set k (lc_fresh c) (lc_index c)\<rparr>"

definition lru_evict :: "lruCache \<Rightarrow> lruCache" where
  "lru_evict c = c\<lparr>lc_list := remove1 (last (lc_list c)) (lc_list c),
     lc_index := gm_delete (le_key (lc_elem c (last (lc_list c)))) (lc_index c)\<rparr>"

lemma lru_Set_fresh:
  assumes "gm_get (lc_index c) k = None" and "0 < ttl"
  shows "lru_Set now k (Some v) ttl c =
    (let c' = lru_insert now k v ttl c in
     if lc_size c < int (length (lc_list c')) then lru_evict c' else c')"
  using assms
  by (simp add: lru_Set_def lru_insert_def lru_evict_def list_PushFront_def list_Remove_def Let_def)

text \<open>Everything the invariant says but the bound, which insertion breaks for a moment.\<close>

definition lru_agree :: "lruCache \<Rightarrow> bool" where
  "lru_agree c \<longleftrightarrow>
     distinct (lc_list c) \<and>
     (\<forall>el\<in>set (lc_list c). el < lc_fresh c \<and> le_value (lc_elem c el) \<noteq> None) \<and>
     (\<forall>k el. gm_get (lc_index c) k = Some el \<longleftrightarrow> el \<in> set (lc_list c) \<and> le_key (lc_elem c el) = k)"

lemma lru_ok_agree: "lru_ok c \<longleftrightarrow> lru_agree c \<and> int (length (lc_list c)) \<le> lc_size c \<and> 0 < lc_size c"
  by (auto simp: lru_ok_def lru_agree_def)

lemma lru_insert_agree:
  assumes "lru_agree c" and "gm_get (lc_index c) k = None"
  shows "lru_agree (lru_insert now k v ttl c)"
proof -
  have old: "el < lc_fresh c" if "el \<in> set (lc_list c)" for el
    using assms(1) that by (simp add: lru_agree_def)
  have new: "le_key (lc_elem c el) \<noteq> k" if "el \<in> set (lc_list c)" for el
    using assms that unfolding lru_agree_def by (metis option.distinct(1))
  have ix: "gm_get (lc_index c) k' = Some el \<longleftrightarrow> el \<in> set (lc_list c) \<and> le_key (lc_elem c el) = k'" for k' el
    using assms(1) by (simp add: lru_agree_def)
  show ?thesis
    using assms(1) old new
    by (auto simp: lru_agree_def lru_insert_def ix less_Suc_eq dest: old)
qed

lemma lru_evict_agree:
  assumes "lru_agree c" and "lc_list c \<noteq> []"
  shows "lru_agree (lru_evict c)"
proof -
  have ix: "gm_get (lc_index c) k' = Some el \<longleftrightarrow> el \<in> set (lc_list c) \<and> le_key (lc_elem c el) = k'" for k' el
    using assms(1) by (simp add: lru_agree_def)
  have inj: "x = y" if "x \<in> set (lc_list c)" "y \<in> set (lc_list c)"
    "le_key (lc_elem c x) = le_key (lc_elem c y)" for x y
    using that ix by (metis option.inject)
  have "last (lc_list c) \<in> set (lc_list c)" using assms(2) by simp
  then show ?thesis
    using assms(1) inj by (auto simp: lru_agree_def lru_evict_def ix set_remove1_eq)
qed

lemma remove1_last: "distinct xs \<Longrightarrow> xs \<noteq> [] \<Longrightarrow> remove1 (last xs) xs = butlast xs"
  by (induction xs) auto

lemma lru_evict_list:
  "lru_agree c \<Longrightarrow> lc_list c \<noteq> [] \<Longrightarrow> lc_list (lru_evict c) = butlast (lc_list c)"
  by (simp add: lru_evict_def lru_agree_def remove1_last)

lemma lru_insert_list [simp]: "lc_list (lru_insert now k v ttl c) = lc_fresh c # lc_list c"
  by (simp add: lru_insert_def)

lemma lru_insert_evict_size [simp]:
  "lc_size (lru_insert now k v ttl c) = lc_size c" "lc_size (lru_evict c) = lc_size c"
  "lc_elem (lru_evict c) = lc_elem c"
  by (simp_all add: lru_insert_def lru_evict_def)

lemma lru_Set_ok [mcpx_inv]:
  assumes "lru_ok c"
  shows "lru_ok (lru_Set now k value ttl c)"
proof (cases "value = None \<or> ttl \<le> 0")
  case True
  then show ?thesis using assms by (simp add: lru_Set_noop)
next
  case False
  then obtain v where v: "value = Some v" "0 < ttl" by auto
  show ?thesis
  proof (cases "gm_get (lc_index c) k")
    case None
    have a: "lru_agree (lru_insert now k v ttl c)"
      using assms None by (intro lru_insert_agree) (simp_all add: lru_ok_agree)
    moreover have "lru_agree (lru_evict (lru_insert now k v ttl c))"
      using a by (rule lru_evict_agree) simp
    moreover have "length (lc_list (lru_evict (lru_insert now k v ttl c))) = length (lc_list c)"
      using a by (simp add: lru_evict_list)
    ultimately show ?thesis
      using assms v None by (auto simp: lru_Set_fresh lru_ok_agree Let_def)
  next
    case (Some el)
    then have "el \<in> set (lc_list c)" "le_key (lc_elem c el) = k"
      using lru_index_iff [OF assms] by auto
    then show ?thesis
      using assms v Some
      by (auto simp: lru_Set_found lru_ok_def length_remove1 set_remove1_eq)
  qed
qed

lemma lru_Set_refines:
  assumes "lru_ok c"
  shows "lru_abs (lru_Set now k (Some v) ttl c) = alru_set (lc_size c) now k v ttl (lru_abs c)"
proof (cases "0 < ttl")
  case False
  then show ?thesis by (simp add: lru_Set_noop alru_set_def)
next
  case ttl: True
  show ?thesis
  proof (cases "gm_get (lc_index c) k")
    case None
    let ?c = "lru_insert now k v ttl c"
    have "lc_fresh c \<notin> set (lc_list c)" using assms by (auto simp: lru_ok_def)
    then have ins: "lru_abs ?c = (k, v, now + ttl) # lru_abs c"
      by (auto simp: lru_abs_def lru_insert_def)
    have "lru_agree ?c"
      using assms None by (intro lru_insert_agree) (simp_all add: lru_ok_agree)
    then have "lru_abs (lru_evict ?c) = butlast (lru_abs ?c)"
      by (simp only: lru_abs_def lru_insert_evict_size lru_evict_list lru_insert_list
          map_butlast list.distinct not_False_eq_True)
    moreover have "length (lc_list ?c) = length (lru_abs ?c)" by (simp add: lru_abs_def)
    ultimately show ?thesis
      using None ttl assms ins
      by (simp add: lru_Set_fresh alru_set_def Let_def lru_index_lookup)
  next
    case (Some el)
    then have el: "el \<in> set (lc_list c)" "le_key (lc_elem c el) = k" and d: "distinct (lc_list c)"
      using lru_index_iff [OF assms] assms by (auto simp: lru_ok_def)
    then have "lru_abs (lru_Set now k (Some v) ttl c) =
        (k, v, now + ttl) # map (abs_el c) (remove1 el (lc_list c))"
      using Some ttl by (auto simp: lru_Set_found lru_abs_def abs_el_def)
    then show ?thesis
      using Some ttl assms lru_abs_remove [OF assms Some]
      by (simp add: alru_set_def lru_index_lookup)
  qed
qed

lemma lru_Set_size [simp]: "lc_size (lru_Set now k v ttl c) = lc_size c"
  by (auto simp: lru_Set_def list_MoveToFront_def list_PushFront_def list_Remove_def Let_def
      split: option.split)

lemma lru_Get_size [simp]: "lc_size (snd (lru_Get now k c)) = lc_size c"
  by (auto simp: lru_Get_def list_MoveToFront_def list_Remove_def Let_def split: option.split)

section \<open>The cache interface\<close>

text \<open>
  The contract of the \<open>Cache\<close> interface as \<open>CallTool\<close> relies on it, over an abstract
  content \<open>lookup\<close>: what \<open>Get\<close> returns, that it invents nothing, that \<open>Set\<close> stores
  under its key only and ignores nil values and non-positive lifetimes. An implementation
  may forget entries at any time.
\<close>

locale response_cache =
  fixes get :: "gotime \<Rightarrow> string \<Rightarrow> 'c \<Rightarrow> CallResult option \<times> 'c"
    and put :: "gotime \<Rightarrow> string \<Rightarrow> CallResult option \<Rightarrow> duration \<Rightarrow> 'c \<Rightarrow> 'c"
    and lookup :: "'c \<Rightarrow> string \<Rightarrow> (CallResult \<times> gotime) option"
    and inv :: "'c \<Rightarrow> bool"
  assumes inv_get: "inv c \<Longrightarrow> inv (snd (get now k c))"
    and inv_put: "inv c \<Longrightarrow> inv (put now k value ttl c)"
    and get_result: "inv c \<Longrightarrow> fst (get now k c) =
      (case lookup c k of None \<Rightarrow> None | Some (v, t) \<Rightarrow> if t < now then None else Some v)"
    and get_contents: "inv c \<Longrightarrow> lookup (snd (get now k c)) k' = Some x \<Longrightarrow> lookup c k' = Some x"
    and put_noop: "value = None \<or> ttl \<le> 0 \<Longrightarrow> put now k value ttl c = c"
    and put_self: "inv c \<Longrightarrow> 0 < ttl \<Longrightarrow> lookup (put now k (Some v) ttl c) k = Some (v, now + ttl)"
    and put_other: "inv c \<Longrightarrow> k' \<noteq> k \<Longrightarrow> lookup (put now k value ttl c) k' = Some x \<Longrightarrow> lookup c k' = Some x"
begin

lemma inv_run: "inv c \<Longrightarrow> inv (cache_run get put ops c)"
proof (induction ops arbitrary: c)
  case (Cons op ops)
  then show ?case by (cases op) (simp_all add: inv_get inv_put)
qed simp

text \<open>Every entry comes from the last operation that stored under its key.\<close>

lemma lookup_origin:
  assumes "inv c" and "lookup c k = None" and "lookup (cache_run get put ops c) k = Some (v, t)"
  shows "\<exists>pre t0 ttl post. ops = pre @ OpSet t0 k (Some v) ttl # post \<and> 0 < ttl \<and> t = t0 + ttl \<and>
    (\<forall>op\<in>set post. \<not> stores k op)"
  using assms(3)
proof (induction ops arbitrary: v t rule: rev_induct)
  case Nil
  then show ?case using assms(2) by simp
next
  case (snoc op ops)
  let ?c = "cache_run get put ops c"
  have app: "cache_run get put (xs @ ys) d = cache_run get put ys (cache_run get put xs d)" for xs ys d
    by (induction get put xs d rule: cache_run.induct) auto
  have inv: "inv ?c" using assms(1) by (rule inv_run)
  have keep: ?case if kept: "lookup ?c k = Some (v, t)" "\<not> stores k op"
  proof -
    obtain pre t0 ttl post where "ops = pre @ OpSet t0 k (Some v) ttl # post" "0 < ttl" "t = t0 + ttl"
      "\<forall>op\<in>set post. \<not> stores k op"
      using snoc.IH [OF kept(1)] by blast
    then have "ops @ [op] = pre @ OpSet t0 k (Some v) ttl # (post @ [op])"
      and "\<forall>op\<in>set (post @ [op]). \<not> stores k op"
      using kept(2) by auto
    then show ?thesis using \<open>0 < ttl\<close> \<open>t = t0 + ttl\<close> by blast
  qed
  show ?case
  proof (cases op)
    case (OpGet now k')
    then show ?thesis using keep snoc.prems inv get_contents by (simp add: app)
  next
    case (OpSet now k' val ttl)
    then have after: "lookup (put now k' val ttl ?c) k = Some (v, t)"
      using snoc.prems by (simp add: app)
    show ?thesis
    proof (cases "stores k op")
      case True
      then obtain w where w: "k' = k" "val = Some w" "0 < ttl" using OpSet by auto
      then have "v = w" and "t = now + ttl" using after put_self [OF inv, of ttl now k w] by simp_all
      then have "ops @ [op] = ops @ OpSet now k (Some v) ttl # []" using OpSet w by simp
      then show ?thesis using w(3) \<open>t = now + ttl\<close> by (metis empty_iff list.set(1))
    next
      case False
      have "lookup ?c k = Some (v, t)"
      proof (cases "k' = k")
        case True
        then have "val = None \<or> ttl \<le> 0" using False OpSet by auto
        then show ?thesis using after put_noop [of val ttl] by simp
      next
        case False
        then show ?thesis using put_other [OF inv _ after] by simp
      qed
      then show ?thesis using keep False by blast
    qed
  qed
qed

lemma hit_origin:
  assumes "inv c" and "lookup c k = None" and "fst (get now k (cache_run get put ops c)) = Some v"
  shows "\<exists>pre t0 ttl post. ops = pre @ OpSet t0 k (Some v) ttl # post \<and> 0 < ttl \<and> now \<le> t0 + ttl \<and>
    (\<forall>op\<in>set post. \<not> stores k op)"
proof -
  let ?c = "cache_run get put ops c"
  have r: "fst (get now k ?c) = (case lookup ?c k of None \<Rightarrow> None
      | Some (v, t) \<Rightarrow> if t < now then None else Some v)"
    using get_result [OF inv_run [OF assms(1)]] .
  then obtain t where "lookup ?c k = Some (v, t)" and "now \<le> t"
    using assms(3) by (auto split: option.splits if_splits)
  then show ?thesis using lookup_origin [OF assms(1,2)] by blast
qed

end

definition lru_lookup :: "lruCache \<Rightarrow> string \<Rightarrow> (CallResult \<times> gotime) option" where
  "lru_lookup c = map_of (lru_abs c)"

lemma map_of_butlast: "map_of (butlast xs) k = Some x \<Longrightarrow> map_of xs k = Some x"
  by (induction xs) (auto split: if_splits)

interpretation lru: response_cache lru_Get lru_Set lru_lookup lru_ok
proof unfold_locales
  fix c :: lruCache and now k k' val ttl v x
  assume ok: "lru_ok c"
  show "lru_ok (snd (lru_Get now k c))" "lru_ok (lru_Set now k val ttl c)"
    using ok by (simp_all add: mcpx_inv)
  show "fst (lru_Get now k c) = (case lru_lookup c k of None \<Rightarrow> None
      | Some (v, t) \<Rightarrow> if t < now then None else Some v)"
    using ok by (simp add: lru_Get_refines lru_lookup_def alru_get_def split: option.split)
  show "lru_lookup c k' = Some x" if "lru_lookup (snd (lru_Get now k c)) k' = Some x"
    using that ok
    by (auto simp: lru_Get_refines lru_lookup_def alru_get_def delete_conv' split: option.splits if_splits)
  show "lru_lookup (lru_Set now k (Some v) ttl c) k = Some (v, now + ttl)" if "0 < ttl"
    using that ok
    by (cases "lru_abs c") (auto simp: lru_Set_refines lru_lookup_def alru_set_def Let_def lru_ok_def)
  show "lru_lookup c k' = Some x" if "k' \<noteq> k" "lru_lookup (lru_Set now k val ttl c) k' = Some x"
    using that ok
    by (cases val) (auto simp: lru_Set_refines lru_Set_noop lru_lookup_def alru_set_def Let_def
        split: if_splits dest!: map_of_butlast)
qed (simp add: lru_Set_noop)

section \<open>Which entry is evicted\<close>

text \<open>
  An entry \<open>(k, v, t)\<close> of the recency list with only keys of \<open>K\<close> in front of it.
\<close>

definition recent :: "string set \<Rightarrow> string \<Rightarrow> CallResult \<Rightarrow> gotime \<Rightarrow> alru \<Rightarrow> bool" where
  "recent K k v t xs \<longleftrightarrow> distinct (map fst xs) \<and>
     (\<exists>bs as. xs = bs @ (k, v, t) # as \<and> fst ` set bs \<subseteq> K)"

lemma delete_append: "AList.delete k (xs @ ys) = AList.delete k xs @ AList.delete k ys"
  by (simp add: AList.delete_eq)

lemma recent_lookup: "recent K k v t xs \<Longrightarrow> map_of xs k = Some (v, t)"
  by (auto simp: recent_def)

lemma recent_front: "distinct (map fst ((k, v, t) # xs)) \<Longrightarrow> recent K k v t ((k, v, t) # xs)"
  unfolding recent_def by (intro conjI exI [of _ "[]"] exI [of _ xs]) simp_all

lemma recent_delete:
  assumes "recent K k v t xs" and "k' \<noteq> k"
  shows "recent K k v t (AList.delete k' xs)"
proof -
  obtain bs as where xs: "xs = bs @ (k, v, t) # as" "fst ` set bs \<subseteq> K"
    using assms(1) by (auto simp: recent_def)
  then have "AList.delete k' xs = AList.delete k' bs @ (k, v, t) # AList.delete k' as"
    using assms(2) by (simp add: delete_append)
  moreover have "fst ` set (AList.delete k' bs) \<subseteq> K" using xs by (auto simp: AList.delete_eq)
  ultimately show ?thesis
    using assms(1) unfolding recent_def by (blast intro: distinct_delete)
qed

lemma recent_Cons:
  assumes "recent K k v t xs" and "k' \<in> K" and "k' \<notin> fst ` set xs"
  shows "recent K k v t ((k', w) # xs)"
proof -
  obtain bs as where "xs = bs @ (k, v, t) # as" "fst ` set bs \<subseteq> K" and d: "distinct (map fst xs)"
    using assms(1) by (auto simp: recent_def)
  then have "(k', w) # xs = ((k', w) # bs) @ (k, v, t) # as" "fst ` set ((k', w) # bs) \<subseteq> K"
    using assms(2) by auto
  then show ?thesis using d assms(3) unfolding recent_def by (metis distinct.simps(2) image_set list.simps(9) fst_conv)
qed

lemma recent_move:
  "recent K k v t (AList.delete k' xs) \<Longrightarrow> k' \<in> K \<Longrightarrow> recent K k v t ((k', w) # AList.delete k' xs)"
  by (rule recent_Cons [OF _ _ delete_notin_dom])

lemma recent_butlast:
  assumes "recent K k v t xs" and "finite K" and "k \<notin> K" and "card K + 1 < length xs"
  shows "recent K k v t (butlast xs)"
proof -
  obtain bs as where xs: "xs = bs @ (k, v, t) # as" "fst ` set bs \<subseteq> K" and d: "distinct (map fst xs)"
    using assms(1) by (auto simp: recent_def)
  have "length bs = card (fst ` set bs)"
    using d xs distinct_card [of "map fst bs"] by simp
  also have "\<dots> \<le> card K" using xs assms(2) by (simp add: card_mono)
  finally have "as \<noteq> []" using assms(4) xs by auto
  then have "butlast xs = bs @ (k, v, t) # butlast as" using xs by (simp add: butlast_append)
  moreover have "distinct (map fst (butlast xs))" using d by (simp add: map_butlast distinct_butlast)
  ultimately show ?thesis using xs unfolding recent_def by blast
qed

lemma recent_get:
  assumes "recent K k v t xs" and "k' = k \<and> now \<le> t \<or> k' \<in> K" and "k \<notin> K"
  shows "recent K k v t (snd (alru_get now k' xs))"
proof (cases "map_of xs k'")
  case None
  then show ?thesis using assms(1) by (simp add: alru_get_def)
next
  case (Some e)
  obtain v' t' where e: "e = (v', t')" by (cases e)
  show ?thesis
  proof (cases "k' = k")
    case True
    then have "v' = v" "t' = t" "now \<le> t" using recent_lookup [OF assms(1)] Some e assms(2,3) by auto
    moreover have "recent K k v t ((k, v, t) # AList.delete k xs)"
      using assms(1) by (force simp: recent_def distinct_delete delete_notin_dom)
    ultimately show ?thesis using Some e True by (simp add: alru_get_def)
  next
    case False
    then have "recent K k v t (AList.delete k' xs)" using assms(1) by (rule recent_delete [rotated])
    then show ?thesis
      using Some e False assms(2)
      by (auto simp: alru_get_def intro!: recent_move)
  qed
qed

lemma recent_set:
  assumes "recent K k v t xs" and "k' \<in> K" and "k \<notin> K" and "finite K" and "int (card K) < sz"
  shows "recent K k v t (alru_set sz now k' w ttl xs)"
proof (cases "ttl \<le> 0")
  case True
  then show ?thesis using assms(1) by (simp add: alru_set_def)
next
  case pos: False
  have "k' \<noteq> k" using assms(2,3) by blast
  show ?thesis
  proof (cases "map_of xs k'")
    case None
    then have "recent K k v t ((k', w, now + ttl) # xs)"
      using assms(1,2) by (intro recent_Cons) (auto simp: map_of_eq_None_iff)
    then show ?thesis
      using None pos assms(3-5) recent_butlast [of K k v t "(k', w, now + ttl) # xs"]
      by (auto simp: alru_set_def Let_def simp del: butlast.simps)
  next
    case (Some e)
    have "recent K k v t (AList.delete k' xs)" using assms(1) \<open>k' \<noteq> k\<close> by (rule recent_delete)
    then show ?thesis
      using Some pos assms(2) by (auto simp: alru_set_def intro!: recent_move)
  qed
qed

section \<open>Properties\<close>

definition demo_result :: CallResult where
  "demo_result = \<lparr>cr_Text = ''ok'', cr_Parts = [], cr_IsError = False\<rparr>"

lemma cache_run_append:
  "cache_run get put (xs @ ys) c = cache_run get put ys (cache_run get put xs c)"
  by (induction get put xs c rule: cache_run.induct) simp_all

lemma lru_run_size [simp]: "lc_size (cache_run lru_Get lru_Set ops c) = lc_size c"
proof (induction ops arbitrary: c)
  case (Cons op ops)
  then show ?case by (cases op) simp_all
qed simp

lemma newLRUCache_ok [simp]: "0 < sz \<Longrightarrow> lru_ok (newLRUCache sz)"
  by (simp add: lru_ok_def newLRUCache_def)

lemma newLRUCache_simps [simp]: "lru_abs (newLRUCache sz) = []" "lc_size (newLRUCache sz) = sz"
  "lru_lookup (newLRUCache sz) k = None"
  by (simp_all add: lru_abs_def lru_lookup_def newLRUCache_def)

lemma lru_run_abs:
  "lru_ok c \<Longrightarrow> lru_abs (cache_run lru_Get lru_Set ops c) =
     cache_run alru_get (alru_put (lc_size c)) ops (lru_abs c)"
proof (induction ops arbitrary: c)
  case (Cons op ops)
  show ?case
  proof (cases op)
    case (OpGet now k)
    then show ?thesis using Cons.IH [of "snd (lru_Get now k c)"] Cons.prems
      by (simp add: lru_Get_ok lru_Get_refines)
  next
    case (OpSet now k val ttl)
    then show ?thesis using Cons.IH [of "lru_Set now k val ttl c"] Cons.prems
      by (cases val) (simp_all add: alru_put_def lru_Set_ok lru_Set_refines lru_Set_noop)
  qed
qed simp

fun op_within :: "string set \<Rightarrow> string \<Rightarrow> gotime \<Rightarrow> cache_op \<Rightarrow> bool" where
  "op_within K k t (OpGet now k') = (k' = k \<and> now \<le> t \<or> k' \<in> K)"
| "op_within K k t (OpSet now k' val ttl) = (k' \<in> K)"

lemma recent_run:
  assumes "recent K k v t xs" and "list_all (op_within K k t) ops"
    and "k \<notin> K" and "finite K" and "int (card K) < sz"
  shows "recent K k v t (cache_run alru_get (alru_put sz) ops xs)"
  using assms(1,2)
proof (induction ops arbitrary: xs)
  case (Cons op ops)
  then show ?case
    using recent_get [OF Cons.prems(1) _ assms(3)] recent_set [OF Cons.prems(1) _ assms(3-5)]
    by (cases op) (auto simp: alru_put_def split: option.split)
qed simp

text \<open>
  C10. The linked list and the index of the LRU cache implement one recency list: for every
  sequence of operations on a well-formed cache the two structures stay consistent, the
  number of entries never exceeds the configured size, and the content is that of the
  specification run on the abstract content.\<close>

theorem lru_refines_recency_list:
  assumes "lru_ok c"
  shows "lru_ok (cache_run lru_Get lru_Set ops c) \<and>
    int (length (lc_list (cache_run lru_Get lru_Set ops c))) \<le> lc_size c \<and>
    lru_abs (cache_run lru_Get lru_Set ops c) =
      cache_run alru_get (alru_put (lc_size c)) ops (lru_abs c)"
  using lru.inv_run [OF assms, of ops] lru_run_abs [OF assms, of ops]
  by (simp add: lru_ok_def)

theorem lru_refines_recency_list_witness:
  "lru_ok (newLRUCache 2) \<and>
   lru_ok (cache_run lru_Get lru_Set [OpSet 0 ''a'' (Some demo_result) 5, OpGet 1 ''a''] (newLRUCache 2))"
  using lru_refines_recency_list [of "newLRUCache 2"
      "[OpSet 0 ''a'' (Some demo_result) 5, OpGet 1 ''a'']"] by simp

text \<open>
  C11. A hit is never stale and never foreign: if \<open>Get\<close> returns a value for a key, then
  that value was stored under this very key, no later operation stored anything else under
  it, and its lifetime has not passed at the time of the \<open>Get\<close>.\<close>

theorem lru_hit_is_last_stored:
  assumes "0 < sz" and "fst (lru_Get now k (cache_run lru_Get lru_Set ops (newLRUCache sz))) = Some v"
  shows "\<exists>pre t0 ttl post. ops = pre @ OpSet t0 k (Some v) ttl # post \<and> 0 < ttl \<and> now \<le> t0 + ttl \<and>
    (\<forall>op\<in>set post. \<not> stores k op)"
  using lru.hit_origin [of "newLRUCache sz" k now ops v] assms by simp

theorem lru_hit_is_last_stored_witness:
  "fst (lru_Get 3 ''a'' (cache_run lru_Get lru_Set [OpSet 0 ''a'' (Some demo_result) 5] (newLRUCache 2))) = Some demo_result \<and>
   (\<exists>pre t0 ttl post. [OpSet 0 ''a'' (Some demo_result) 5] = pre @ OpSet t0 ''a'' (Some demo_result) ttl # post \<and>
      0 < ttl \<and> 3 \<le> t0 + ttl \<and> (\<forall>op\<in>set post. \<not> stores ''a'' op))"
proof -
  have hit: "fst (lru_Get 3 ''a'' (cache_run lru_Get lru_Set [OpSet 0 ''a'' (Some demo_result) 5] (newLRUCache 2))) = Some demo_result"
    by (simp add: lru_Get_def lru_Set_def newLRUCache_def list_PushFront_def list_MoveToFront_def gm_set_def Let_def)
  show ?thesis using hit lru_hit_is_last_stored [OF _ hit] by simp
qed

text \<open>
  C12. The cache evicts by recency: a stored result is found until its lifetime ends, as long
  as the operations since then touched fewer other keys than the cache has room for,
  whatever was stored before.\<close>

theorem lru_retains_recent:
  assumes "0 < ttl" and "now \<le> t0 + ttl" and "finite K" and "k \<notin> K" and "int (card K) < sz"
    and "list_all (op_within K k (t0 + ttl)) post"
  shows "fst (lru_Get now k (cache_run lru_Get lru_Set (pre @ OpSet t0 k (Some v) ttl # post) (newLRUCache sz))) = Some v"
proof -
  have sz: "0 < sz" using assms(5) by linarith
  let ?c0 = "cache_run lru_Get lru_Set pre (newLRUCache sz)"
  let ?c1 = "lru_Set t0 k (Some v) ttl ?c0"
  have ok0: "lru_ok ?c0" using sz by (simp add: lru.inv_run)
  have ok1: "lru_ok ?c1" using ok0 by (rule lru_Set_ok)
  have "lru_lookup ?c1 k = Some (v, t0 + ttl)" using ok0 assms(1) by (rule lru.put_self)
  moreover have "distinct (map fst (lru_abs ?c1))" using ok1 by (rule lru_abs_distinct)
  moreover have "fst (hd (lru_abs ?c1)) = k"
    using ok0 assms(1) sz
    by (cases "lru_abs ?c0") (auto simp: lru_Set_refines alru_set_def Let_def)
  ultimately have "recent K k v (t0 + ttl) (lru_abs ?c1)"
    by (cases "lru_abs ?c1") (auto simp: lru_lookup_def split: if_splits intro!: recent_front)
  then have "recent K k v (t0 + ttl) (lru_abs (cache_run lru_Get lru_Set post ?c1))"
    using recent_run [OF _ assms(6,4,3,5)] by (simp add: lru_run_abs [OF ok1])
  then have "lru_lookup (cache_run lru_Get lru_Set post ?c1) k = Some (v, t0 + ttl)"
    unfolding lru_lookup_def by (rule recent_lookup)
  then show ?thesis
    using lru.get_result [OF lru.inv_run [OF ok1], of now k post] assms(2)
    by (simp add: cache_run_append)
qed

theorem lru_retains_recent_witness:
  "fst (lru_Get 4 ''a'' (cache_run lru_Get lru_Set
     ([OpSet 0 ''c'' (Some demo_result) 9] @ OpSet 0 ''a'' (Some demo_result) 5 # [OpSet 1 ''b'' (Some demo_result) 5, OpGet 2 ''b''])
     (newLRUCache 2))) = Some demo_result"
  by (rule lru_retains_recent [where K = "{''b''}"]) simp_all

text \<open>
  C38. The default cache key separates tenants: two contexts whose scopes differ and contain
  no bar never share a key, whatever servers, tools and arguments are called.\<close>

theorem defaultCacheKey_isolates_scopes:
  assumes "CHR ''|'' \<notin> set (CacheScope c)" and "CHR ''|'' \<notin> set (CacheScope c')"
    and "CacheScope c \<noteq> CacheScope c'"
  shows "defaultCacheKey u m c server tool args \<noteq> defaultCacheKey u m c' server' tool' args'"
  using assms by (simp add: defaultCacheKey_def sep_append_eq)

theorem defaultCacheKey_isolates_scopes_witness:
  "defaultCacheKey (\<lambda>_. Some ANil) (\<lambda>_. Some ''null'') (WithCacheScope ctx_Background ''alice'') ''s|x'' ''t'' [] \<noteq>
   defaultCacheKey (\<lambda>_. Some ANil) (\<lambda>_. Some ''null'') (WithCacheScope ctx_Background ''bob'') ''s'' ''x|t'' []"
  by (rule defaultCacheKey_isolates_scopes) (simp_all add: CacheScope_def WithCacheScope_def)

text \<open>
  Within names that contain no bar the key determines the call: equal keys mean the same
  scope, server, tool and canonical arguments, so a hit answers the call that was made.\<close>

theorem defaultCacheKey_inject:
  assumes "CHR ''|'' \<notin> set (CacheScope c) \<union> set server \<union> set tool"
    and "CHR ''|'' \<notin> set (CacheScope c') \<union> set server' \<union> set tool'"
  shows "defaultCacheKey u m c server tool args = defaultCacheKey u m c' server' tool' args' \<longleftrightarrow>
    CacheScope c = CacheScope c' \<and> server = server' \<and> tool = tool' \<and>
    canonicalJSON u m args = canonicalJSON u m args'"
  using assms by (simp add: defaultCacheKey_def sep_append_eq)

theorem defaultCacheKey_inject_witness:
  "(defaultCacheKey (\<lambda>_. Some ANil) (\<lambda>_. Some ''null'') ctx_Background ''s'' ''t'' [] =
     defaultCacheKey (\<lambda>_. Some ANil) (\<lambda>_. Some ''null'') ctx_Background ''s'' ''t'' ''null'') \<longleftrightarrow>
   CacheScope ctx_Background = CacheScope ctx_Background \<and> ''s'' = ''s'' \<and> ''t'' = ''t'' \<and>
   canonicalJSON (\<lambda>_. Some ANil) (\<lambda>_. Some ''null'') [] = canonicalJSON (\<lambda>_. Some ANil) (\<lambda>_. Some ''null'') ''null''"
  by (rule defaultCacheKey_inject) (simp_all add: CacheScope_def ctx_Background_def ctx_Value_def)

text \<open>
  A bar inside a scope breaks that separation: the scope \<open>acme|prod\<close> on server
  \<open>k8s\<close> and the scope \<open>acme\<close> on a server named \<open>prod|k8s\<close> have the same key for
  every tool and all arguments, so one tenant is answered with the other's result.\<close>

theorem defaultCacheKey_scope_collision:
  "CacheScope (WithCacheScope c ''acme|prod'') \<noteq> CacheScope (WithCacheScope c ''acme'') \<and>
   defaultCacheKey u m (WithCacheScope c ''acme|prod'') ''k8s'' tool args =
   defaultCacheKey u m (WithCacheScope c ''acme'') ''prod|k8s'' tool args"
  by (simp add: defaultCacheKey_def CacheScope_def WithCacheScope_def)

end
