(* ===== verification/Auth.thy ===== *)
theory Auth
  imports Core
begin

text \<open>
  Authentication helpers, \<open>auth/auth.go\<close>, over the part of \<open>net/http\<close> they use: a
  request with its header map. \<open>Header.Set\<close> and \<open>Header.Get\<close> go through the canonical
  form of the header name.
\<close>

section \<open>Definitions\<close>

subsection \<open>Requests and headers\<close>

definition ascii_alnum :: "char \<Rightarrow> bool" where
  "ascii_alnum c \<longleftrightarrow> of_char c \<in> {48..57 :: nat} \<union> {65..90} \<union> {97..122}"

definition header_byte :: "char \<Rightarrow> bool" where
  "header_byte c \<longleftrightarrow> ascii_alnum c \<or> c \<in> set ''!#$%&*+-.^_`|~'' \<or> c = CHR 0x27"

fun canonical_from :: "bool \<Rightarrow> string \<Rightarrow> string" where
  "canonical_from upper [] = []"
| "canonical_from upper (c # cs) =
     (if upper then ascii_upper c else ascii_lower c) # canonical_from (c = CHR ''-'') cs"

definition CanonicalHeaderKey :: "string \<Rightarrow> string" where
  "CanonicalHeaderKey s = (if list_all header_byte s then canonical_from True s else s)"

record request =
  rq_Header :: "(string, string list) gomap"
  rq_Body :: bytes

definition Header_Set :: "string \<Rightarrow> string \<Rightarrow> request \<Rightarrow> request" where
  "Header_Set k v r = r\<lparr>rq_Header := gm_set (CanonicalHeaderKey k) [v] (rq_Header r)\<rparr>"

definition Header_Get :: "string \<Rightarrow> request \<Rightarrow> string" where
  "Header_Get k r = (case gm_get (rq_Header r) (CanonicalHeaderKey k) of Some (v # _) \<Rightarrow> v | _ \<Rightarrow> [])"

subsection \<open>The two schemes\<close>

text \<open>
  The helpers mutate the request they are given; the model returns it next to the error.
\<close>

definition Bearer :: "ctx \<Rightarrow> string \<Rightarrow> request \<Rightarrow> args \<Rightarrow> err option \<times> request" where
  "Bearer c server r data =
     (case gm_get (entries data) ''token'' of
        Some (AStr tok) \<Rightarrow>
          (if tok = [] then (Some (ErrText ''auth.Bearer: empty data[\"token\"]''), r)
           else (None, Header_Set ''Authorization'' (''Bearer '' @ tok) r))
      | Some _ \<Rightarrow> (Some (ErrText ''auth.Bearer: data[\"token\"] is not a string''), r)
      | None \<Rightarrow> (Some (ErrText ''auth.Bearer: missing data[\"token\"]''), r))"

definition HeaderToken :: "ctx \<Rightarrow> string \<Rightarrow> request \<Rightarrow> args \<Rightarrow> err option \<times> request" where
  "HeaderToken c server r data =
     (case gm_get (entries data) ''tokenName'' of
        Some (AStr name) \<Rightarrow>
          (if name = [] then (Some (ErrText ''auth.HeaderToken: empty data[\"tokenName\"]''), r)
           else (case gm_get (entries data) ''value'' of
              Some (AStr val) \<Rightarrow>
                (if val = [] then (Some (ErrText ''auth.HeaderToken: empty data[\"value\"]''), r)
                 else (None, Header_Set name val r))
            | Some _ \<Rightarrow> (Some (ErrText ''auth.HeaderToken: data[\"value\"] is not a string''), r)
            | None \<Rightarrow> (Some (ErrText ''auth.HeaderToken: missing data[\"value\"]''), r)))
      | Some _ \<Rightarrow> (Some (ErrText ''auth.HeaderToken: data[\"tokenName\"] is not a string''), r)
      | None \<Rightarrow> (Some (ErrText ''auth.HeaderToken: missing data[\"tokenName\"]''), r))"

section \<open>The contract of an authentication scheme\<close>

text \<open>
  A scheme reads its credential from the configuration block; without one it fails and
  leaves the request alone, with one it sets exactly that header.
\<close>

locale auth_scheme =
  fixes scheme :: "ctx \<Rightarrow> string \<Rightarrow> request \<Rightarrow> args \<Rightarrow> err option \<times> request"
    and credential :: "args \<Rightarrow> (string \<times> string) option"
  assumes no_credential: "credential data = None \<Longrightarrow>
      fst (scheme c server r data) \<noteq> None \<and> snd (scheme c server r data) = r"
    and with_credential: "credential data = Some (h, v) \<Longrightarrow>
      scheme c server r data = (None, Header_Set h v r)"
begin

lemma error_iff: "fst (scheme c server r data) \<noteq> None \<longleftrightarrow> credential data = None"
  using no_credential [of data c server r] with_credential [of data]
  by (cases "credential data") force+

lemma error_keeps_request: "fst (scheme c server r data) \<noteq> None \<Longrightarrow> snd (scheme c server r data) = r"
  using error_iff no_credential by blast

lemma sets_header:
  "credential data = Some (h, v) \<Longrightarrow> Header_Get h (snd (scheme c server r data)) = v"
  by (simp add: with_credential Header_Set_def Header_Get_def)

lemma keeps_other_headers:
  "credential data = Some (h, v) \<Longrightarrow> CanonicalHeaderKey k \<noteq> CanonicalHeaderKey h \<Longrightarrow>
   Header_Get k (snd (scheme c server r data)) = Header_Get k r"
  by (simp add: with_credential Header_Set_def Header_Get_def)

lemma keeps_body: "rq_Body (snd (scheme c server r data)) = rq_Body r"
  using no_credential [of data c server r] with_credential [of data]
  by (cases "credential data") (auto simp: Header_Set_def)

end

definition nonempty_string :: "args \<Rightarrow> string \<Rightarrow> string option" where
  "nonempty_string data k =
     (case gm_get (entries data) k of Some (AStr s) \<Rightarrow> if s = [] then None else Some s | _ \<Rightarrow> None)"

lemma nonempty_string_Some:
  "nonempty_string data k = Some s \<longleftrightarrow> gm_get (entries data) k = Some (AStr s) \<and> s \<noteq> []"
  by (auto simp: nonempty_string_def split: option.splits any.splits if_splits)

lemma nonempty_string_ex: "nonempty_string data k \<noteq> None \<longleftrightarrow> (\<exists>s. gm_get (entries data) k = Some (AStr s) \<and> s \<noteq> [])"
  using nonempty_string_Some [of data k] by auto

lemma CanonicalHeaderKey_Authorization [simp]: "CanonicalHeaderKey ''Authorization'' = ''Authorization''"
  by (simp add: CanonicalHeaderKey_def header_byte_def ascii_alnum_def ascii_upper_def ascii_lower_def)

interpretation bearer: auth_scheme Bearer
  "\<lambda>data. map_option (\<lambda>tok. (''Authorization'', ''Bearer '' @ tok)) (nonempty_string data ''token'')"
  by unfold_locales
    (auto simp: Bearer_def nonempty_string_def split: option.splits any.splits if_splits)

interpretation header_token: auth_scheme HeaderToken
  "\<lambda>data. case (nonempty_string data ''tokenName'', nonempty_string data ''value'') of
     (Some name, Some val) \<Rightarrow> Some (name, val) | _ \<Rightarrow> None"
  by unfold_locales
    (auto simp: HeaderToken_def nonempty_string_def split: option.splits any.splits if_splits)

section \<open>Properties\<close>

text \<open>
  \<open>Bearer\<close> succeeds exactly when the block has a non-empty string under \<open>token\<close>; then
  the request carries \<open>Authorization: Bearer <token>\<close>, every other header and the body
  are untouched. On failure the request is untouched altogether.\<close>

theorem Bearer_spec:
  "(fst (Bearer c server r data) = None \<longleftrightarrow> (\<exists>tok. gm_get (entries data) ''token'' = Some (AStr tok) \<and> tok \<noteq> [])) \<and>
   (gm_get (entries data) ''token'' = Some (AStr tok) \<and> tok \<noteq> [] \<longrightarrow>
      Header_Get ''Authorization'' (snd (Bearer c server r data)) = ''Bearer '' @ tok \<and>
      rq_Body (snd (Bearer c server r data)) = rq_Body r \<and>
      (\<forall>k. CanonicalHeaderKey k \<noteq> ''Authorization'' \<longrightarrow>
         Header_Get k (snd (Bearer c server r data)) = Header_Get k r)) \<and>
   (fst (Bearer c server r data) \<noteq> None \<longrightarrow> snd (Bearer c server r data) = r)"
proof (intro conjI impI allI)
  show "fst (Bearer c server r data) = None \<longleftrightarrow> (\<exists>tok. gm_get (entries data) ''token'' = Some (AStr tok) \<and> tok \<noteq> [])"
    using bearer.error_iff [of c server r data] nonempty_string_ex [of data "''token''"]
    by (simp only: option.map_disc_iff) blast
  show "snd (Bearer c server r data) = r" if "fst (Bearer c server r data) \<noteq> None"
    using that by (rule bearer.error_keeps_request)
  show "rq_Body (snd (Bearer c server r data)) = rq_Body r" by (rule bearer.keeps_body)
  assume "gm_get (entries data) ''token'' = Some (AStr tok) \<and> tok \<noteq> []"
  then have cred: "map_option (\<lambda>tok. (''Authorization'', ''Bearer '' @ tok)) (nonempty_string data ''token'') =
      Some (''Authorization'', ''Bearer '' @ tok)"
    using nonempty_string_Some [of data "''token''" tok] by simp
  show "Header_Get ''Authorization'' (snd (Bearer c server r data)) = ''Bearer '' @ tok"
    using cred by (rule bearer.sets_header)
  show "Header_Get k (snd (Bearer c server r data)) = Header_Get k r"
    if "CanonicalHeaderKey k \<noteq> ''Authorization''" for k
    using bearer.keeps_other_headers [OF cred] that by simp
qed

theorem Bearer_spec_witness:
  "Header_Get ''Authorization'' (snd (Bearer ctx_Background ''s'' \<lparr>rq_Header = [], rq_Body = []\<rparr>
     (Some [(''token'', AStr ''abc'')]))) = ''Bearer '' @ ''abc''"
  using Bearer_spec [of ctx_Background "''s''" "\<lparr>rq_Header = [], rq_Body = []\<rparr>"
      "Some [(''token'', AStr ''abc'')]" "''abc''"] by simp

text \<open>
  \<open>HeaderToken\<close> succeeds exactly when both \<open>tokenName\<close> and \<open>value\<close> are non-empty
  strings; then the named header holds the value verbatim and no other header changes (in
  particular not \<open>Authorization\<close>, unless it is the one named). On failure the request is
  untouched.\<close>

theorem HeaderToken_spec:
  "(fst (HeaderToken c server r data) = None \<longleftrightarrow>
      nonempty_string data ''tokenName'' \<noteq> None \<and> nonempty_string data ''value'' \<noteq> None) \<and>
   (nonempty_string data ''tokenName'' = Some name \<and> nonempty_string data ''value'' = Some val \<longrightarrow>
      Header_Get name (snd (HeaderToken c server r data)) = val \<and>
      rq_Body (snd (HeaderToken c server r data)) = rq_Body r \<and>
      (\<forall>k. CanonicalHeaderKey k \<noteq> CanonicalHeaderKey name \<longrightarrow>
         Header_Get k (snd (HeaderToken c server r data)) = Header_Get k r)) \<and>
   (fst (HeaderToken c server r data) \<noteq> None \<longrightarrow> snd (HeaderToken c server r data) = r)"
  using header_token.error_iff [of c server r data] header_token.error_keeps_request [of c server r data]
    header_token.sets_header [of data name val c server r]
    header_token.keeps_other_headers [of data name val _ c server r]
    header_token.keeps_body [of c server r data]
  by (auto split: option.splits)

theorem HeaderToken_spec_witness:
  "Header_Get ''x-mcp-auth'' (snd (HeaderToken ctx_Background ''s'' \<lparr>rq_Header = [], rq_Body = []\<rparr>
     (Some [(''tokenName'', AStr ''x-mcp-auth''), (''value'', AStr ''raw'')]))) = ''raw''"
  using HeaderToken_spec [of ctx_Background "''s''" "\<lparr>rq_Header = [], rq_Body = []\<rparr>"
      "Some [(''tokenName'', AStr ''x-mcp-auth''), (''value'', AStr ''raw'')]" "''x-mcp-auth''" "''raw''"]
  by (simp add: nonempty_string_def)

end
