(* ===== verification/Options.thy ===== *)
theory Options
  imports Config Cache Auth
begin

text \<open>
  Hooks, metrics and options: \<open>hooks.go\<close>, \<open>metrics.go\<close>, \<open>logger.go\<close> and
  \<open>options.go\<close>. The type \<open>'w\<close> is everything outside the library that user code and
  the servers read and change; a callback is a function that takes and returns it. A hook
  may panic, \<^const>\<open>Panic\<close>. A hook that receives a result receives the pointer, so it can
  change what the pointer points to; the model returns the result as the hook left it.
\<close>

section \<open>Definitions\<close>

subsection \<open>Callbacks\<close>

type_synonym 'w BeforeCallHook =
  "ctx \<Rightarrow> string \<Rightarrow> string \<Rightarrow> ToolInfo \<Rightarrow> bytes \<Rightarrow> 'w \<Rightarrow>
   (ctx option \<times> CallResult option \<times> err option) outcome \<times> 'w"

type_synonym 'w AfterCallHook =
  "ctx \<Rightarrow> string \<Rightarrow> string \<Rightarrow> ToolInfo \<Rightarrow> bytes \<Rightarrow> CallResult option \<Rightarrow> err option \<Rightarrow> duration \<Rightarrow> 'w \<Rightarrow>
   CallResult option outcome \<times> 'w"

type_synonym 'w ResultTransformHook =
  "ctx \<Rightarrow> string \<Rightarrow> string \<Rightarrow> ToolInfo \<Rightarrow> CallResult \<Rightarrow> 'w \<Rightarrow> (CallResult \<times> err option) outcome \<times> 'w"

type_synonym 'w MetaEnricher = "ctx \<Rightarrow> string \<Rightarrow> ToolInfo \<Rightarrow> 'w \<Rightarrow> ToolInfo \<times> 'w"

type_synonym 'w OnRejectedCallFunc =
  "ctx \<Rightarrow> string \<Rightarrow> string \<Rightarrow> RejectReason \<Rightarrow> err \<Rightarrow> 'w \<Rightarrow> unit outcome \<times> 'w"

type_synonym 'w OnConnectFunc = "string \<Rightarrow> ToolInfo list \<Rightarrow> 'w \<Rightarrow> unit outcome \<times> 'w"
type_synonym 'w OnReconnectFunc = "string \<Rightarrow> err option \<Rightarrow> 'w \<Rightarrow> 'w"
type_synonym 'w OnToolsChangedFunc =
  "string \<Rightarrow> ToolInfo list \<Rightarrow> ToolInfo list \<Rightarrow> 'w \<Rightarrow> unit outcome \<times> 'w"

type_synonym 'w AuthFunc =
  "ctx \<Rightarrow> string \<Rightarrow> request \<Rightarrow> args \<Rightarrow> 'w \<Rightarrow> (err option \<times> request) \<times> 'w"

type_synonym 'w Logger = "level \<Rightarrow> string \<Rightarrow> Field list \<Rightarrow> 'w \<Rightarrow> 'w"

definition NopLogger :: "'w Logger" where
  "NopLogger l msg fs w = w"

definition F :: "string \<Rightarrow> fieldval \<Rightarrow> Field" where
  "F key val = (key, val)"

record 'w Metrics =
  m_RecordCall :: "string \<Rightarrow> string \<Rightarrow> duration \<Rightarrow> err option \<Rightarrow> 'w \<Rightarrow> unit outcome \<times> 'w"
  m_RecordToolList :: "string \<Rightarrow> nat \<Rightarrow> 'w \<Rightarrow> unit outcome \<times> 'w"

definition nopMetrics :: "'w Metrics" where
  "nopMetrics = \<lparr>m_RecordCall = (\<lambda>server tool dur err w. (Ret (), w)),
     m_RecordToolList = (\<lambda>server count w. (Ret (), w))\<rparr>"

text \<open>A user-supplied cache keeps its state outside the library.\<close>

record 'w Cache =
  c_Get :: "ctx \<Rightarrow> string \<Rightarrow> 'w \<Rightarrow> CallResult option \<times> 'w"
  c_Set :: "ctx \<Rightarrow> string \<Rightarrow> CallResult option \<Rightarrow> duration \<Rightarrow> 'w \<Rightarrow> 'w"

type_synonym KeyFunc = "ctx \<Rightarrow> string \<Rightarrow> string \<Rightarrow> bytes \<Rightarrow> string"

subsection \<open>The options record\<close>

record 'w options =
  o_logger :: "'w Logger"
  o_beforeCall :: "'w BeforeCallHook list"
  o_afterCall :: "'w AfterCallHook list"
  o_resultTransform :: "'w ResultTransformHook list"
  o_metaEnrichers :: "'w MetaEnricher list"
  o_customTransformers :: "(string, CustomTransformer option) gomap"
  o_resourceSingular :: "(string, string) gomap option"
  o_authFunc :: "'w AuthFunc option"
  o_metrics :: "'w Metrics"
  o_callTimeout :: duration
  o_httpRetryMax :: int
  o_clientName :: string
  o_clientVersion :: string
  o_healthCheckInterval :: duration
  o_healthCheckSet :: bool
  o_onReconnect :: "'w OnReconnectFunc option"
  o_onToolsChanged :: "'w OnToolsChangedFunc option"
  o_schemaValidation :: bool
  o_cache :: "'w Cache option"
  o_cacheDisabled :: bool
  o_cacheTTL :: duration
  o_cacheSize :: int
  o_cacheKey :: "KeyFunc option"
  o_onRejectedCall :: "'w OnRejectedCallFunc option"
  o_onConnect :: "'w OnConnectFunc option"

definition defaultCacheTTL :: duration where
  "defaultCacheTTL = 30 * second"

definition defaultCacheSize :: int where
  "defaultCacheSize = 256"

text \<open>The main module's version from the build info, \<open>None\<close> when there is none.\<close>

definition defaultClientVersion :: "string option \<Rightarrow> string" where
  "defaultClientVersion bi =
     (case bi of Some v \<Rightarrow> if v \<noteq> [] \<and> v \<noteq> ''(devel)'' then v else ''dev'' | None \<Rightarrow> ''dev'')"

definition defaultOptions :: "string option \<Rightarrow> 'w options" where
  "defaultOptions bi = \<lparr>o_logger = NopLogger, o_beforeCall = [], o_afterCall = [],
     o_resultTransform = [], o_metaEnrichers = [], o_customTransformers = [],
     o_resourceSingular = None, o_authFunc = None, o_metrics = nopMetrics,
     o_callTimeout = 30 * second, o_httpRetryMax = 5, o_clientName = ''mcpx'',
     o_clientVersion = defaultClientVersion bi, o_healthCheckInterval = 0,
     o_healthCheckSet = False, o_onReconnect = None, o_onToolsChanged = None,
     o_schemaValidation = False, o_cache = None, o_cacheDisabled = False,
     o_cacheTTL = defaultCacheTTL, o_cacheSize = defaultCacheSize, o_cacheKey = None,
     o_onRejectedCall = None, o_onConnect = None\<rparr>"

type_synonym 'w Option = "'w options \<Rightarrow> 'w options"

subsection \<open>Option constructors\<close>

definition WithLogger :: "'w Logger option \<Rightarrow> 'w Option" where
  "WithLogger l opts = (case l of None \<Rightarrow> opts | Some l \<Rightarrow> opts\<lparr>o_logger := l\<rparr>)"

definition WithBeforeCall :: "'w BeforeCallHook \<Rightarrow> 'w Option" where
  "WithBeforeCall h opts = opts\<lparr>o_beforeCall := o_beforeCall opts @ [h]\<rparr>"

definition WithAfterCall :: "'w AfterCallHook \<Rightarrow> 'w Option" where
  "WithAfterCall h opts = opts\<lparr>o_afterCall := o_afterCall opts @ [h]\<rparr>"

definition WithResultTransform :: "'w ResultTransformHook \<Rightarrow> 'w Option" where
  "WithResultTransform h opts = opts\<lparr>o_resultTransform := o_resultTransform opts @ [h]\<rparr>"

definition WithMetaEnricher :: "'w MetaEnricher \<Rightarrow> 'w Option" where
  "WithMetaEnricher h opts = opts\<lparr>o_metaEnrichers := o_metaEnrichers opts @ [h]\<rparr>"

definition WithArgsTransformer :: "string \<Rightarrow> CustomTransformer option \<Rightarrow> 'w Option" where
  "WithArgsTransformer name fn opts =
     opts\<lparr>o_customTransformers := gm_set name fn (o_customTransformers opts)\<rparr>"

definition WithCallTimeout :: "duration \<Rightarrow> 'w Option" where
  "WithCallTimeout d opts = (if 0 < d then opts\<lparr>o_callTimeout := d\<rparr> else opts)"

definition WithHTTPRetryMax :: "int \<Rightarrow> 'w Option" where
  "WithHTTPRetryMax n opts = (if 0 \<le> n then opts\<lparr>o_httpRetryMax := n\<rparr> else opts)"

definition WithAuthFunc :: "'w AuthFunc option \<Rightarrow> 'w Option" where
  "WithAuthFunc fn opts = opts\<lparr>o_authFunc := fn\<rparr>"

definition WithHealthCheck :: "duration \<Rightarrow> 'w Option" where
  "WithHealthCheck interval opts =
     opts\<lparr>o_healthCheckInterval := interval, o_healthCheckSet := True\<rparr>"

definition WithOnReconnect :: "'w OnReconnectFunc option \<Rightarrow> 'w Option" where
  "WithOnReconnect fn opts = opts\<lparr>o_onReconnect := fn\<rparr>"

definition WithOnToolsChanged :: "'w OnToolsChangedFunc option \<Rightarrow> 'w Option" where
  "WithOnToolsChanged fn opts = opts\<lparr>o_onToolsChanged := fn\<rparr>"

definition WithMetrics :: "'w Metrics option \<Rightarrow> 'w Option" where
  "WithMetrics m opts = (case m of None \<Rightarrow> opts | Some m \<Rightarrow> opts\<lparr>o_metrics := m\<rparr>)"

definition WithResourceSingular :: "(string, string) gomap option \<Rightarrow> 'w Option" where
  "WithResourceSingular m opts =
     (if entries m = [] then opts
      else opts\<lparr>o_resourceSingular := Some (gm_write (entries (o_resourceSingular opts)) (entries m))\<rparr>)"

definition WithClientIdentity :: "string \<Rightarrow> string \<Rightarrow> 'w Option" where
  "WithClientIdentity name version opts =
     (let opts = (if name \<noteq> [] then opts\<lparr>o_clientName := name\<rparr> else opts)
      in if version \<noteq> [] then opts\<lparr>o_clientVersion := version\<rparr> else opts)"

definition WithSchemaValidation :: "'w Option" where
  "WithSchemaValidation opts = opts\<lparr>o_schemaValidation := True\<rparr>"

definition WithCache :: "'w Cache option \<Rightarrow> 'w Option" where
  "WithCache c opts =
     (case c of None \<Rightarrow> opts | Some c \<Rightarrow> opts\<lparr>o_cache := Some c, o_cacheDisabled := False\<rparr>)"

definition WithCacheTTL :: "duration \<Rightarrow> 'w Option" where
  "WithCacheTTL d opts = (if 0 < d then opts\<lparr>o_cacheTTL := d\<rparr> else opts)"

definition WithCacheSize :: "int \<Rightarrow> 'w Option" where
  "WithCacheSize n opts = (if 0 < n then opts\<lparr>o_cacheSize := n\<rparr> else opts)"

definition WithoutCache :: "'w Option" where
  "WithoutCache opts = opts\<lparr>o_cacheDisabled := True, o_cache := None\<rparr>"

definition WithCacheKey :: "KeyFunc option \<Rightarrow> 'w Option" where
  "WithCacheKey fn opts = opts\<lparr>o_cacheKey := fn\<rparr>"

definition WithOnRejectedCall :: "'w OnRejectedCallFunc option \<Rightarrow> 'w Option" where
  "WithOnRejectedCall fn opts = opts\<lparr>o_onRejectedCall := fn\<rparr>"

definition WithOnConnect :: "'w OnConnectFunc option \<Rightarrow> 'w Option" where
  "WithOnConnect fn opts = opts\<lparr>o_onConnect := fn\<rparr>"

text \<open>\<open>for _, opt := range opts { opt(o) }\<close>\<close>

definition applyOptions :: "string option \<Rightarrow> 'w Option list \<Rightarrow> 'w options" where
  "applyOptions bi opts = foldl (\<lambda>opts opt. opt opts) (defaultOptions bi) opts"

subsection \<open>What the constructors can produce\<close>

text \<open>The options the library itself can build, in any number and order.\<close>

inductive library_option :: "'w Option \<Rightarrow> bool" where
  lo_Logger: "library_option (WithLogger x)"
| lo_BeforeCall: "library_option (WithBeforeCall x)"
| lo_AfterCall: "library_option (WithAfterCall x)"
| lo_ResultTransform: "library_option (WithResultTransform x)"
| lo_MetaEnricher: "library_option (WithMetaEnricher x)"
| lo_ArgsTransformer: "library_option (WithArgsTransformer x y)"
| lo_CallTimeout: "library_option (WithCallTimeout x)"
| lo_HTTPRetryMax: "library_option (WithHTTPRetryMax x)"
| lo_AuthFunc: "library_option (WithAuthFunc x)"
| lo_HealthCheck: "library_option (WithHealthCheck x)"
| lo_OnReconnect: "library_option (WithOnReconnect x)"
| lo_OnToolsChanged: "library_option (WithOnToolsChanged x)"
| lo_Metrics: "library_option (WithMetrics x)"
| lo_ResourceSingular: "library_option (WithResourceSingular x)"
| lo_ClientIdentity: "library_option (WithClientIdentity x y)"
| lo_SchemaValidation: "library_option WithSchemaValidation"
| lo_Cache: "library_option (WithCache x)"
| lo_CacheTTL: "library_option (WithCacheTTL x)"
| lo_CacheSize: "library_option (WithCacheSize x)"
| lo_NoCache: "library_option WithoutCache"
| lo_CacheKey: "library_option (WithCacheKey x)"
| lo_OnRejectedCall: "library_option (WithOnRejectedCall x)"
| lo_OnConnect: "library_option (WithOnConnect x)"

definition opts_ok :: "'w options \<Rightarrow> bool" where
  "opts_ok opts \<longleftrightarrow> 0 < o_callTimeout opts \<and> 0 \<le> o_httpRetryMax opts \<and>
     o_clientName opts \<noteq> [] \<and> o_clientVersion opts \<noteq> [] \<and>
     0 < o_cacheTTL opts \<and> 0 < o_cacheSize opts \<and>
     (o_cacheDisabled opts \<longrightarrow> o_cache opts = None) \<and>
     (o_healthCheckSet opts \<or> o_healthCheckInterval opts = 0) \<and>
     gm_ok (o_customTransformers opts) \<and> gm_ok (entries (o_resourceSingular opts))"

section \<open>Lemmas\<close>

lemmas option_defs =
  WithLogger_def WithBeforeCall_def WithAfterCall_def WithResultTransform_def
      WithMetaEnricher_def WithArgsTransformer_def WithCallTimeout_def WithHTTPRetryMax_def
      WithAuthFunc_def WithHealthCheck_def WithOnReconnect_def WithOnToolsChanged_def
      WithMetrics_def WithResourceSingular_def WithClientIdentity_def WithSchemaValidation_def
      WithCache_def WithCacheTTL_def WithCacheSize_def WithoutCache_def WithCacheKey_def
      WithOnRejectedCall_def WithOnConnect_def

lemma defaultOptions_ok: "opts_ok (defaultOptions bi)"
  by (simp add: opts_ok_def defaultOptions_def defaultClientVersion_def defaultCacheTTL_def
      defaultCacheSize_def second_def split: option.split)

lemma library_option_ok [mcpx_inv]: "library_option opt \<Longrightarrow> opts_ok o' \<Longrightarrow> opts_ok (opt o')"
  by (cases rule: library_option.cases, assumption)
    (auto simp: opts_ok_def option_defs Let_def split: option.split)

lemma applyOptions_snoc: "applyOptions bi (opts @ [opt]) = opt (applyOptions bi opts)"
  by (simp add: applyOptions_def)

lemma applyOptions_ok: "list_all library_option opts \<Longrightarrow> opts_ok (applyOptions bi opts)"
proof (induction opts rule: rev_induct)
  case Nil
  then show ?case using defaultOptions_ok by (simp add: applyOptions_def)
next
  case (snoc opt opts)
  then show ?case by (simp add: applyOptions_snoc library_option_ok)
qed

section \<open>Properties\<close>

text \<open>
  Whatever options a caller passes, the settings are usable: the call timeout, the cache
  lifetime and the cache size are positive, the retry limit is not negative, the client
  identity is not empty, a disabled cache leaves no custom cache behind, and without
  \<open>WithHealthCheck\<close> the probe interval is zero.\<close>

theorem options_are_valid:
  assumes "list_all library_option opts"
  shows "opts_ok (applyOptions bi opts)"
  using assms by (rule applyOptions_ok)

theorem options_are_valid_witness:
  "opts_ok (applyOptions (Some ''(devel)'')
     [WithCallTimeout (- 5), WithCacheSize 0, WithClientIdentity [] [], WithoutCache :: unit Option])"
  by (rule options_are_valid) (simp add: library_option.intros)

text \<open>
  Of \<open>WithCache\<close> and \<open>WithoutCache\<close> the one registered last wins, hooks of each
  kind run in registration order, and \<open>WithResourceSingular\<close> accumulates: the entries of
  a later call win over those of an earlier one.\<close>

theorem options_last_wins:
  "o_cacheDisabled (applyOptions bi (opts @ [WithoutCache])) \<and>
   o_cache (applyOptions bi (opts @ [WithoutCache])) = None \<and>
   o_cache (applyOptions bi (opts @ [WithCache (Some c)])) = Some c \<and>
   \<not> o_cacheDisabled (applyOptions bi (opts @ [WithCache (Some c)])) \<and>
   applyOptions bi (opts @ [WithCache None]) = applyOptions bi opts \<and>
   o_beforeCall (applyOptions bi (opts @ [WithBeforeCall h])) = o_beforeCall (applyOptions bi opts) @ [h] \<and>
   o_afterCall (applyOptions bi (opts @ [WithAfterCall h'])) = o_afterCall (applyOptions bi opts) @ [h'] \<and>
   gm_get (entries (o_resourceSingular (applyOptions bi (opts @ [WithResourceSingular (Some m)])))) =
     gm_get (entries (o_resourceSingular (applyOptions bi opts))) ++ map_of (rev m)"
  by (auto simp: applyOptions_snoc option_defs gm_get_write)

end
