(* ===== verification/Transport.thy ===== *)
theory Transport
  imports Options
begin

text \<open>
  Transports, \<open>transport.go\<close>: what \<open>New\<close> hands to the MCP client for each transport
  type, the round trippers that add credentials to outgoing requests, and the adapter for
  the retry client's logger. The retrying client itself (\<open>go-retryablehttp\<close>) is the
  parameter \<open>send\<close>: given its settings and a request it makes all attempts.
\<close>

section \<open>Definitions\<close>

record retryClient =
  rc_RetryMax :: int
  rc_RetryWaitMin :: duration
  rc_RetryWaitMax :: duration

text \<open>
  \<open>http.RoundTripper\<close> values: the retry client's own, and the two wrappers of this file.
  An \<open>AuthFunc\<close> variable may be nil.
\<close>

datatype 'w roundTripper =
    RetryRoundTripper retryClient
  | authFuncRoundTripper string args "'w AuthFunc option" "'w roundTripper"
  | bearerRoundTripper string "'w roundTripper"

datatype 'w transport =
    CommandTransport string "string list" "string list option"
  | StreamableClientTransport string "'w roundTripper"
  | SSEClientTransport string "'w roundTripper"

definition retryableHTTPClient :: "ServerConfig \<Rightarrow> 'w options \<Rightarrow> 'w roundTripper" where
  "retryableHTTPClient cfg opts =
     (let rc = \<lparr>rc_RetryMax = o_httpRetryMax opts, rc_RetryWaitMin = 1 * second,
                rc_RetryWaitMax = 8 * second\<rparr>;
          base = RetryRoundTripper rc
      in if sc_Auth cfg = None then base
         else authFuncRoundTripper (sc_Name cfg) (sc_Auth cfg) (o_authFunc opts) base)"

definition newStdioTransport :: "string list \<Rightarrow> ServerConfig \<Rightarrow> 'w transport" where
  "newStdioTransport environ cfg =
     CommandTransport (sc_Binary cfg) (sc_Args cfg)
       (if sc_Env cfg \<noteq> [] then Some (environ @ sc_Env cfg) else None)"

definition newHTTPTransport :: "ServerConfig \<Rightarrow> 'w options \<Rightarrow> 'w transport" where
  "newHTTPTransport cfg opts = StreamableClientTransport (sc_URL cfg) (retryableHTTPClient cfg opts)"

definition newSSETransport :: "ServerConfig \<Rightarrow> 'w options \<Rightarrow> 'w transport" where
  "newSSETransport cfg opts = SSEClientTransport (sc_URL cfg) (retryableHTTPClient cfg opts)"

definition newTransport ::
  "string list \<Rightarrow> ServerConfig \<Rightarrow> 'w options \<Rightarrow> err + 'w transport" where
  "newTransport environ cfg opts =
     (if sc_Transport cfg = TransportStdio then Inr (newStdioTransport environ cfg)
      else if sc_Transport cfg = TransportHTTP then Inr (newHTTPTransport cfg opts)
      else if sc_Transport cfg = TransportSSE then Inr (newSSETransport cfg opts)
      else Inl (ErrText (''mcpx: unknown transport: '' @ sc_Transport cfg)))"

text \<open>
  \<open>RoundTrip\<close> of each kind. Requests are values, so the clone is the request itself; a nil
  \<open>AuthFunc\<close> panics when it is called.
\<close>

fun RoundTrip ::
  "(retryClient \<Rightarrow> request \<Rightarrow> 'w \<Rightarrow> (err + 'r) \<times> 'w) \<Rightarrow> 'w roundTripper \<Rightarrow> ctx \<Rightarrow> request \<Rightarrow> 'w \<Rightarrow>
   (err + 'r) outcome \<times> 'w" where
  "RoundTrip send (RetryRoundTripper rc) c r w = (let (res, w) = send rc r w in (Ret res, w))"
| "RoundTrip send (authFuncRoundTripper server data fn base) c r w =
     (let cloned = r in
      case fn of
        None \<Rightarrow> (Panic, w)
      | Some fn \<Rightarrow>
          (let ((e, cloned), w) = fn c server cloned data w in
           case e of
             Some e \<Rightarrow> (Ret (Inl (AuthErr server e)), w)
           | None \<Rightarrow> RoundTrip send base c cloned w))"
| "RoundTrip send (bearerRoundTripper token base) c r w =
     (let r = (if token \<noteq> [] then Header_Set ''Authorization'' (''Bearer '' @ token) r else r)
      in RoundTrip send base c r w)"

definition BearerRoundTripper :: "string \<Rightarrow> 'w roundTripper \<Rightarrow> 'w roundTripper" where
  "BearerRoundTripper token base = bearerRoundTripper token base"

fun kvToFields :: "any list \<Rightarrow> Field list" where
  "kvToFields (k # v # kv) =
     (case k of AStr key \<Rightarrow> (key, FAny v) # kvToFields kv | _ \<Rightarrow> kvToFields kv)"
| "kvToFields _ = []"

definition leveledLoggerAdapter :: "'w Logger \<Rightarrow> level \<Rightarrow> string \<Rightarrow> any list \<Rightarrow> 'w \<Rightarrow> 'w" where
  "leveledLoggerAdapter log lvl msg kv w = log lvl msg (kvToFields kv) w"

section \<open>Properties\<close>

text \<open>
  After validation \<open>newTransport\<close> cannot fail, and it builds the transport the
  configuration names: a subprocess that inherits the environment unless extra variables are
  given (then they come after it), or an HTTP client to the configured URL.\<close>

theorem newTransport_after_validate:
  assumes "validate cfg = None"
  shows "(\<exists>t. newTransport environ cfg opts = Inr t) \<and>
    (sc_Transport cfg = TransportStdio \<longrightarrow> newTransport environ cfg opts =
       Inr (CommandTransport (sc_Binary cfg) (sc_Args cfg)
         (if sc_Env cfg = [] then None else Some (environ @ sc_Env cfg)))) \<and>
    (sc_Transport cfg = TransportHTTP \<longrightarrow> newTransport environ cfg opts =
       Inr (StreamableClientTransport (sc_URL cfg) (retryableHTTPClient cfg opts))) \<and>
    (sc_Transport cfg = TransportSSE \<longrightarrow> newTransport environ cfg opts =
       Inr (SSEClientTransport (sc_URL cfg) (retryableHTTPClient cfg opts)))"
  using assms by (auto simp: validate_None_iff newTransport_def newStdioTransport_def
      newHTTPTransport_def newSSETransport_def)

theorem newTransport_after_validate_witness:
  "newTransport [''PATH=/bin''] (zeroServerConfig\<lparr>sc_Name := ''fs'', sc_Transport := ''stdio'',
       sc_Binary := ''srv'', sc_Env := [''X=1'']\<rparr>) (defaultOptions None :: unit options) =
     Inr (CommandTransport ''srv'' [] (Some [''PATH=/bin'', ''X=1'']))"
  using newTransport_after_validate [of "zeroServerConfig\<lparr>sc_Name := ''fs'', sc_Transport := ''stdio'',
       sc_Binary := ''srv'', sc_Env := [''X=1'']\<rparr>" "[''PATH=/bin'']" "defaultOptions None :: unit options"]
  by (simp add: validate_def zeroServerConfig_def)

text \<open>
  Credentials are applied before the retrying client sees the request, and fail closed.
  With an \<open>auth\<close> block the registered \<open>AuthFunc\<close> runs exactly once for a request: if it
  reports an error the retrying client is not called and the error comes back wrapped, and
  otherwise all attempts of the retrying client use the request it produced. Without an
  \<open>auth\<close> block the request goes out unchanged.\<close>

theorem retryableHTTPClient_auth:
  assumes "o_authFunc opts = Some fn"
  shows "RoundTrip send (retryableHTTPClient cfg opts) c r w =
    (let rc = \<lparr>rc_RetryMax = o_httpRetryMax opts, rc_RetryWaitMin = second, rc_RetryWaitMax = 8 * second\<rparr> in
     if sc_Auth cfg = None then (let (res, w') = send rc r w in (Ret res, w'))
     else (case fn c (sc_Name cfg) r (sc_Auth cfg) w of
         ((Some e, _), w') \<Rightarrow> (Ret (Inl (AuthErr (sc_Name cfg) e)), w')
       | ((None, r'), w') \<Rightarrow> (let (res, w'') = send rc r' w' in (Ret res, w''))))"
  using assms by (auto simp: retryableHTTPClient_def Let_def split: prod.splits option.splits)

theorem retryableHTTPClient_auth_witness:
  "RoundTrip (\<lambda>rc r w. (Inr (Header_Get ''Authorization'' r), w + 1)) (retryableHTTPClient
       (zeroServerConfig\<lparr>sc_Auth := Some [(''token'', AStr ''abc'')]\<rparr>)
       ((defaultOptions None)\<lparr>o_authFunc := Some (\<lambda>c s r d w. (Bearer c s r d, w))\<rparr>))
       ctx_Background \<lparr>rq_Header = [], rq_Body = []\<rparr> (0 :: nat) = (Ret (Inr ''Bearer abc''), 1)"
  using retryableHTTPClient_auth [of "(defaultOptions None)\<lparr>o_authFunc := Some (\<lambda>c s r d w. (Bearer c s r d, w))\<rparr>"
      "\<lambda>c s r d w. (Bearer c s r d, w)" "\<lambda>rc r w. (Inr (Header_Get ''Authorization'' r), w + 1)"
      "zeroServerConfig\<lparr>sc_Auth := Some [(''token'', AStr ''abc'')]\<rparr>" ctx_Background
      "\<lparr>rq_Header = [], rq_Body = []\<rparr>" "0 :: nat"]
  by (simp add: Bearer_def Header_Set_def Header_Get_def)

text \<open>
  \<open>kvToFields\<close> keeps exactly the pairs with a string key, in order: it undoes the
  flattening of a list of fields, drops a pair whose key is no string and ignores a trailing
  key without a value.\<close>

theorem kvToFields_roundtrip:
  "kvToFields (concat (map (\<lambda>(k, v). [AStr k, v]) fs)) = map (\<lambda>(k, v). (k, FAny v)) fs \<and>
   kvToFields (concat (map (\<lambda>(k, v). [AStr k, v]) fs) @ [x]) = map (\<lambda>(k, v). (k, FAny v)) fs \<and>
   kvToFields (ANum n # v # kv) = kvToFields kv"
  by (induction fs) auto

end
