(* ===== verification/Validate.thy ===== *)
theory Validate
  imports Prelude
begin

text \<open>
  Argument validation, \<open>validate.go\<close>: the walk that finds placeholder values and the
  wrapper around the JSON-Schema package. The schema package itself is the parameter
  \<open>validate\<close>: it yields an error text when it cannot load one of the documents, and
  otherwise whether the document is valid together with the violation texts.
\<close>

section \<open>Definitions\<close>

definition invalidArgValues :: "string list" where
  "invalidArgValues =
     [''undefined'', ''null'', ''none'', ''unknown'', ''<unknown>'', ''<none>'']"

definition placeholder :: "unicode \<Rightarrow> string \<Rightarrow> bool" where
  "placeholder u val =
     (let norm = TrimSpace u (ToLower u val) in norm = [] \<or> norm \<in> set invalidArgValues)"

text \<open>
  \<open>walkArgs\<close> appends to \<open>*bad\<close>; the model returns what it appends. Only objects and
  strings are looked at: an array is not entered.
\<close>

fun walkArgs :: "unicode \<Rightarrow> any \<Rightarrow> string \<Rightarrow> string list" where
  "walkArgs u (AObj m) path =
     concat (map (\<lambda>(k, child). walkArgs u child (if path \<noteq> [] then path @ ''.'' @ k else k)) m)"
| "walkArgs u (AStr val) path = (if placeholder u val then [path] else [])"
| "walkArgs u _ path = []"

definition findInvalidArgs :: "unicode \<Rightarrow> args \<Rightarrow> string list" where
  "findInvalidArgs u args = walkArgs u (AObj (entries args)) []"

definition validateSchema ::
  "(bytes \<Rightarrow> bytes \<Rightarrow> string + (bool \<times> string list)) \<Rightarrow> bytes \<Rightarrow> bytes \<Rightarrow> string list" where
  "validateSchema validate schema args =
     (if schema = [] then []
      else (let args = (if args = [] then ''{}'' else args) in
        case validate schema args of
          Inl err \<Rightarrow> [err]
        | Inr (valid, errs) \<Rightarrow> (if valid then [] else errs)))"

section \<open>What the walk finds\<close>

text \<open>
  The specification: the strings inside nested objects, each with its dotted path. Array
  items are not among them.
\<close>

inductive string_at :: "any \<Rightarrow> string \<Rightarrow> string \<Rightarrow> string \<Rightarrow> bool" where
  here: "string_at (AStr val) path path val"
| inside: "(k, child) \<in> set m \<Longrightarrow>
    string_at child (if path \<noteq> [] then path @ ''.'' @ k else k) p val \<Longrightarrow>
    string_at (AObj m) path p val"

inductive_cases string_at_StrE [elim!]: "string_at (AStr s) path p val"
inductive_cases string_at_ObjE [elim]: "string_at (AObj m) path p val"
inductive_simps string_at_other [simp]:
  "string_at ANil path p val" "string_at (ABool b) path p val" "string_at (ANum n) path p val"
  "string_at (AArr xs) path p val" "string_at (AOther i) path p val"

lemma walkArgs_sound: "p \<in> set (walkArgs u v path) \<Longrightarrow> \<exists>val. string_at v path p val \<and> placeholder u val"
proof (induction u v path rule: walkArgs.induct)
  case (1 u m path)
  then show ?case by (fastforce intro: string_at.inside)
qed (auto intro: string_at.here split: if_splits)

lemma walkArgs_complete: "string_at v path p val \<Longrightarrow> placeholder u val \<Longrightarrow> p \<in> set (walkArgs u v path)"
proof (induction rule: string_at.induct)
  case (inside k child m path p val)
  then show ?case by force
qed simp

fun array_free :: "any \<Rightarrow> bool" where
  "array_free (AObj m) = list_all (\<lambda>(k, child). array_free child) m"
| "array_free (AArr xs) = False"
| "array_free _ = True"

lemma placeholder_iff:
  "placeholder u val \<longleftrightarrow> TrimSpace u (ToLower u val) \<in>
     {[], ''undefined'', ''null'', ''none'', ''unknown'', ''<unknown>'', ''<none>''}"
  by (auto simp: placeholder_def invalidArgValues_def Let_def)

text \<open>
  C39. On arguments made of nested objects without arrays, \<open>findInvalidArgs\<close> reports
  exactly the dotted paths of the placeholder strings: a path is reported iff a string
  stands there that, lowered and with the white space at its ends removed, is empty or one
  of \<open>undefined\<close>, \<open>null\<close>, \<open>none\<close>, \<open>unknown\<close>, \<open><unknown>\<close> and
  \<open><none>\<close>.\<close>

theorem findInvalidArgs_exact:
  assumes "array_free (AObj (entries a))"
  shows "p \<in> set (findInvalidArgs u a) \<longleftrightarrow>
     (\<exists>val. string_at (AObj (entries a)) [] p val \<and> TrimSpace u (ToLower u val) \<in>
        {[], ''undefined'', ''null'', ''none'', ''unknown'', ''<unknown>'', ''<none>''})"
  using walkArgs_sound walkArgs_complete unfolding findInvalidArgs_def placeholder_iff [symmetric]
  by blast

theorem findInvalidArgs_exact_witness:
  "''meta.ns'' \<in> set (findInvalidArgs \<lparr>uniLower = id, uniTrimSpace = id\<rparr>
     (Some [(''meta'', AObj [(''ns'', AStr '' NULL '')]), (''name'', AStr ''web'')])) \<and>
   ''name'' \<notin> set (findInvalidArgs \<lparr>uniLower = id, uniTrimSpace = id\<rparr>
     (Some [(''meta'', AObj [(''ns'', AStr '' NULL '')]), (''name'', AStr ''web'')]))"
proof -
  let ?u = "\<lparr>uniLower = id, uniTrimSpace = id\<rparr>"
  let ?a = "Some [(''meta'', AObj [(''ns'', AStr '' NULL '')]), (''name'', AStr ''web'')]"
  have free: "array_free (AObj (entries ?a))" by simp
  have null: "TrimSpace ?u (ToLower ?u '' NULL '') = ''null''"
    and web: "TrimSpace ?u (ToLower ?u ''web'') = ''web''" by code_simp+
  have "string_at (AObj (entries ?a)) [] ''meta.ns'' '' NULL ''"
    by (rule string_at.inside [of "''meta''" "AObj [(''ns'', AStr '' NULL '')]"], simp,
        rule string_at.inside [of "''ns''" "AStr '' NULL ''"]) (simp_all add: string_at.here)
  then have "\<exists>val. string_at (AObj (entries ?a)) [] ''meta.ns'' val \<and> TrimSpace ?u (ToLower ?u val) \<in>
      {[], ''undefined'', ''null'', ''none'', ''unknown'', ''<unknown>'', ''<none>''}"
    using null by (intro exI [of _ "'' NULL ''"]) simp
  moreover have "TrimSpace ?u (ToLower ?u val) = ''web''"
    if "string_at (AObj (entries ?a)) [] ''name'' val" for val
    using that web by (auto elim!: string_at_ObjE split: if_splits)
  moreover have "''web'' \<notin>
      {[], ''undefined'', ''null'', ''none'', ''unknown'', ''<unknown>'', ''<none>''}" by simp
  ultimately show ?thesis
    unfolding findInvalidArgs_exact [OF free] by metis
qed

text \<open>
  The verdict of the walk does not depend on the order in which the runtime ranges over
  the argument map: the same paths are reported, each as often.\<close>

theorem findInvalidArgs_order:
  assumes "mset m' = mset m"
  shows "mset (findInvalidArgs u (Some m')) = mset (findInvalidArgs u (Some m))"
proof -
  have "mset (concat (map f xs)) = (\<Sum>x\<in>#mset xs. mset (f x))" for f :: "string \<times> any \<Rightarrow> string list" and xs
    by (induction xs) auto
  then show ?thesis using assms by (simp add: findInvalidArgs_def)
qed

theorem findInvalidArgs_order_witness:
  "mset (findInvalidArgs \<lparr>uniLower = id, uniTrimSpace = id\<rparr> (Some [(''b'', AStr ''''), (''a'', AStr ''x'')])) =
   mset (findInvalidArgs \<lparr>uniLower = id, uniTrimSpace = id\<rparr> (Some [(''a'', AStr ''x''), (''b'', AStr '''')]))"
  by (rule findInvalidArgs_order) simp

text \<open>
  A placeholder inside an array is not found, at any depth: whatever the items of an
  array are, the walk reports nothing for it.\<close>

theorem findInvalidArgs_skips_arrays:
  "findInvalidArgs u (Some [(k, AArr xs)]) = []"
  by (simp add: findInvalidArgs_def)

text \<open>
  \<open>validateSchema\<close> accepts exactly the calls the schema package accepts: it reports
  nothing iff the tool declares no schema or the package validates the arguments, where
  missing arguments count as the empty object; an unreadable schema is a violation. This
  needs of the package that an invalid document comes with at least one violation.\<close>

theorem validateSchema_accepts:
  assumes "\<And>s a valid errs. validate s a = Inr (valid, errs) \<Longrightarrow> \<not> valid \<Longrightarrow> errs \<noteq> []"
  shows "validateSchema validate schema args = [] \<longleftrightarrow>
    schema = [] \<or> (\<exists>errs. validate schema (if args = [] then ''{}'' else args) = Inr (True, errs))"
  using assms by (auto simp: validateSchema_def Let_def split: sum.splits if_splits prod.splits)

theorem validateSchema_accepts_witness:
  "(validateSchema (\<lambda>s a. if a = ''{}'' then Inr (False, [''x is required'']) else Inr (True, []))
      ''{required: x}'' [] = []) =
   (''{required: x}'' = [] \<or>
    (\<exists>errs. (if ''{}'' = ''{}'' then Inr (False, [''x is required'']) else Inr (True, [])) =
      (Inr (True, errs) :: string + bool \<times> string list)))"
proof -
  let ?v = "\<lambda>(s :: bytes) a. if a = ''{}'' then Inr (False, [''x is required''])
      else (Inr (True, []) :: string + bool \<times> string list)"
  have "(validateSchema ?v ''{required: x}'' [] = []) \<longleftrightarrow> ''{required: x}'' = [] \<or>
      (\<exists>errs. ?v ''{required: x}'' (if ([] :: bytes) = [] then ''{}'' else []) = Inr (True, errs))"
    by (rule validateSchema_accepts [of ?v]) (auto split: if_splits)
  then show ?thesis by simp
qed

end
