(* ===== verification/Runtime.thy ===== *)
theory Runtime
  imports Transport Validate
begin

text \<open>
  The surroundings of a call. \<open>'w rt\<close> collects what the library does not implement: the
  clock, JSON encoding, the schema package, the Unicode tables, the duration parser and the
  MCP client. \<open>'w st\<close> is the state that calls change: the outside world, the contents of
  the built-in cache, the two warn-once memories of the multiplexer, and a trace of every
  call that leaves the library, in order. \<open>'w mx\<close> is the multiplexer itself
  (\<open>multiplexer.go\<close>).
\<close>

section \<open>The MCP client library\<close>

type_synonym session = nat

record mcp_annotations =
  ma_ReadOnlyHint :: bool
  ma_DestructiveHint :: "bool option"
  ma_IdempotentHint :: bool
  ma_OpenWorldHint :: "bool option"

record mcp_tool =
  mt_Name :: string
  mt_Description :: string
  mt_InputSchema :: "any option"
  mt_Annotations :: "mcp_annotations option"

datatype mcp_content =
    TextContent string
  | ImageContent string "bytes option"
  | OtherContent nat

record mcp_result =
  mr_Content :: "mcp_content list"
  mr_IsError :: bool

datatype ctx_err = DeadlineExceeded | Canceled

record 'w rt =
  rt_now :: "'w \<Rightarrow> gotime"
  rt_unicode :: unicode
  rt_environ :: "string list"
  rt_unmarshal :: "bytes \<Rightarrow> err + any"
  rt_marshal :: "any \<Rightarrow> bytes option"
  rt_marshalContent :: "mcp_content \<Rightarrow> bytes option"
  rt_ParseDuration :: "string \<Rightarrow> duration option"
  rt_validateSchema :: "bytes \<Rightarrow> bytes \<Rightarrow> string + (bool \<times> string list)"
  rt_ctxErr :: "ctx \<Rightarrow> 'w \<Rightarrow> ctx_err option"
  rt_CallTool :: "session \<Rightarrow> ctx \<Rightarrow> string \<Rightarrow> args option \<Rightarrow> 'w \<Rightarrow> (mcp_result option \<times> err option) \<times> 'w"
  rt_ListTools :: "session \<Rightarrow> ctx \<Rightarrow> 'w \<Rightarrow> (err + mcp_tool list) \<times> 'w"
  rt_Connect :: "ctx \<Rightarrow> 'w transport \<Rightarrow> string \<Rightarrow> string \<Rightarrow> 'w \<Rightarrow> (err + session) \<times> 'w"
  rt_Close :: "session \<Rightarrow> 'w \<Rightarrow> err option \<times> 'w"

text \<open>
  \<open>json.Unmarshal\<close> into a \<open>map[string]any\<close>: the document \<open>null\<close> leaves the map nil,
  any other document that is no object is a type error.
\<close>

definition json_kind :: "any \<Rightarrow> string" where
  "json_kind v = (case v of AArr _ \<Rightarrow> ''array'' | AStr _ \<Rightarrow> ''string'' | ABool _ \<Rightarrow> ''bool'' | _ \<Rightarrow> ''number'')"

definition unmarshalMap :: "'w rt \<Rightarrow> bytes \<Rightarrow> err + args" where
  "unmarshalMap rt b =
     (case rt_unmarshal rt b of
        Inl e \<Rightarrow> Inl e
      | Inr ANil \<Rightarrow> Inr None
      | Inr (AObj m) \<Rightarrow> Inr (Some m)
      | Inr v \<Rightarrow> Inl (ErrText (''json: cannot unmarshal '' @ json_kind v @
                             '' into Go value of type map[string]interface {}'')))"

definition marshalMap :: "'w rt \<Rightarrow> args \<Rightarrow> bytes option" where
  "marshalMap rt a = rt_marshal rt (case a of None \<Rightarrow> ANil | Some m \<Rightarrow> AObj m)"

section \<open>The multiplexer\<close>

datatype ServerState = ServerStateConnected | ServerStateDown

record serverEntry =
  se_config :: ServerConfig
  se_session :: "session option"
  se_tools :: "ToolInfo list"
  se_state :: ServerState
  se_reconnecting :: bool
  se_refreshCh :: "bool option"

text \<open>
  \<open>se_refreshCh\<close> is the channel of capacity one: \<open>None\<close> for a nil channel, otherwise
  whether a signal is queued. \<open>mx_builtinCache\<close> tells whether the built-in cache was
  created; its contents are part of the state.
\<close>

record 'w mx =
  mx_servers :: "(string, serverEntry) gomap"
  mx_kindHints :: "(string, string list) gomap option"
  mx_opts :: "'w options"
  mx_builtinCache :: bool

section \<open>State and trace\<close>

datatype event =
    EvBefore ctx string string ToolInfo bytes
  | EvAfter ctx string string ToolInfo bytes "CallResult option" "err option" duration
  | EvReject ctx string string RejectReason err
  | EvTransform ctx string string ToolInfo CallResult
  | EvRecordCall string string duration "err option"
  | EvRecordToolList string nat
  | EvUpstream session ctx string "args option"
  | EvCacheGet string
  | EvCacheSet string CallResult duration
  | EvLog level string "Field list"
  | EvConnect string
  | EvListTools session
  | EvClose session
  | EvOnConnect string "ToolInfo list"
  | EvOnReconnect string "err option"
  | EvOnToolsChanged string "ToolInfo list" "ToolInfo list"

record 'w st =
  st_env :: 'w
  st_cache :: lruCache
  st_scopeWarned :: bool
  st_ttlWarned :: "string list"
  st_trace :: "event list"

definition emit :: "event \<Rightarrow> 'w st \<Rightarrow> 'w st" where
  "emit e s = s\<lparr>st_trace := st_trace s @ [e]\<rparr>"

definition log_at :: "'w options \<Rightarrow> level \<Rightarrow> string \<Rightarrow> Field list \<Rightarrow> 'w st \<Rightarrow> 'w st" where
  "log_at opts lvl msg fs s =
     (let s = emit (EvLog lvl msg fs) s in s\<lparr>st_env := o_logger opts lvl msg fs (st_env s)\<rparr>)"

text \<open>Metrics calls run under \<open>recover\<close>: a panic ends there.\<close>

definition safeRecordCall ::
  "'w Metrics \<Rightarrow> string \<Rightarrow> string \<Rightarrow> duration \<Rightarrow> err option \<Rightarrow> 'w st \<Rightarrow> 'w st" where
  "safeRecordCall m server tool dur e s =
     (let s = emit (EvRecordCall server tool dur e) s;
          (panicked, w) = m_RecordCall m server tool dur e (st_env s)
      in s\<lparr>st_env := w\<rparr>)"

definition safeRecordToolList :: "'w Metrics \<Rightarrow> string \<Rightarrow> nat \<Rightarrow> 'w st \<Rightarrow> 'w st" where
  "safeRecordToolList m server n s =
     (let s = emit (EvRecordToolList server n) s;
          (panicked, w) = m_RecordToolList m server n (st_env s)
      in s\<lparr>st_env := w\<rparr>)"

text \<open>Which of the recorded calls an event is, and the events of some kinds so far.\<close>

datatype ev_kind =
    KBefore | KAfter | KReject | KTransform | KRecordCall | KRecordToolList | KUpstream
  | KCacheGet | KCacheSet | KLog | KConnect | KListTools | KClose | KOnConnect | KOnReconnect
  | KOnToolsChanged

fun kind_of :: "event \<Rightarrow> ev_kind" where
  "kind_of (EvBefore _ _ _ _ _) = KBefore"
| "kind_of (EvAfter _ _ _ _ _ _ _ _) = KAfter"
| "kind_of (EvReject _ _ _ _ _) = KReject"
| "kind_of (EvTransform _ _ _ _ _) = KTransform"
| "kind_of (EvRecordCall _ _ _ _) = KRecordCall"
| "kind_of (EvRecordToolList _ _) = KRecordToolList"
| "kind_of (EvUpstream _ _ _ _) = KUpstream"
| "kind_of (EvCacheGet _) = KCacheGet"
| "kind_of (EvCacheSet _ _ _) = KCacheSet"
| "kind_of (EvLog _ _ _) = KLog"
| "kind_of (EvConnect _) = KConnect"
| "kind_of (EvListTools _) = KListTools"
| "kind_of (EvClose _) = KClose"
| "kind_of (EvOnConnect _ _) = KOnConnect"
| "kind_of (EvOnReconnect _ _) = KOnReconnect"
| "kind_of (EvOnToolsChanged _ _ _) = KOnToolsChanged"

definition traced :: "ev_kind set \<Rightarrow> 'w st \<Rightarrow> event list" where
  "traced K s = filter (\<lambda>e. kind_of e \<in> K) (st_trace s)"

fun after_err :: "event \<Rightarrow> err option" where
  "after_err (EvAfter _ _ _ _ _ _ e _) = e"
| "after_err _ = None"

section \<open>What an operation changes\<close>

lemma emit_simps [simp]:
  "st_env (emit e s) = st_env s" "st_cache (emit e s) = st_cache s"
  "st_scopeWarned (emit e s) = st_scopeWarned s" "st_ttlWarned (emit e s) = st_ttlWarned s"
  "st_trace (emit e s) = st_trace s @ [e]"
  by (simp_all add: emit_def)

lemma log_at_simps [simp]:
  "st_cache (log_at opts lvl msg fs s) = st_cache s"
  "st_scopeWarned (log_at opts lvl msg fs s) = st_scopeWarned s"
  "st_ttlWarned (log_at opts lvl msg fs s) = st_ttlWarned s"
  "st_trace (log_at opts lvl msg fs s) = st_trace s @ [EvLog lvl msg fs]"
  by (simp_all add: log_at_def Let_def)

lemma safeRecordCall_simps [simp]:
  "st_cache (safeRecordCall m server tool dur e s) = st_cache s"
  "st_scopeWarned (safeRecordCall m server tool dur e s) = st_scopeWarned s"
  "st_ttlWarned (safeRecordCall m server tool dur e s) = st_ttlWarned s"
  "st_trace (safeRecordCall m server tool dur e s) = st_trace s @ [EvRecordCall server tool dur e]"
  by (simp_all add: safeRecordCall_def Let_def case_prod_beta)

lemma safeRecordToolList_simps [simp]:
  "st_cache (safeRecordToolList m server n s) = st_cache s"
  "st_trace (safeRecordToolList m server n s) = st_trace s @ [EvRecordToolList server n]"
  by (simp_all add: safeRecordToolList_def Let_def case_prod_beta)

lemma traced_cong: "st_trace s' = st_trace s \<Longrightarrow> traced K s' = traced K s"
  by (simp add: traced_def)

lemma traced_update [simp]:
  "traced K (s\<lparr>st_env := w\<rparr>) = traced K s" "traced K (s\<lparr>st_cache := lc\<rparr>) = traced K s"
  "traced K (s\<lparr>st_scopeWarned := b\<rparr>) = traced K s" "traced K (s\<lparr>st_ttlWarned := ws\<rparr>) = traced K s"
  by (simp_all add: traced_def)

lemma traced_emit [simp]:
  "traced K (emit e s) = traced K s @ (if kind_of e \<in> K then [e] else [])"
  by (simp add: traced_def)

lemma traced_log_at [simp]:
  "traced K (log_at opts lvl msg fs s) = traced K s @ (if KLog \<in> K then [EvLog lvl msg fs] else [])"
  by (simp add: traced_def)

lemma traced_safeRecordCall [simp]:
  "traced K (safeRecordCall m server tool dur e s) =
     traced K s @ (if KRecordCall \<in> K then [EvRecordCall server tool dur e] else [])"
  by (simp add: traced_def)

lemma traced_safeRecordToolList [simp]:
  "traced K (safeRecordToolList m server n s) =
     traced K s @ (if KRecordToolList \<in> K then [EvRecordToolList server n] else [])"
  by (simp add: traced_def)

end
