(* ===== verification/Registry.thy ===== *)
theory Registry
  imports Runtime
begin

text \<open>
  The read side of the multiplexer, \<open>multiplexer.go\<close>: server names, kinds, tool lists and
  states. \<open>mx_servers\<close> lists the entries in one order the runtime may visit them in.
\<close>

section \<open>Definitions\<close>

definition ConfigHints :: "'w mx \<Rightarrow> (string, string list) gomap option" where
  "ConfigHints mx = mx_kindHints mx"

definition ServerNames :: "'w mx \<Rightarrow> string list" where
  "ServerNames mx =
     sort (map fst (filter (\<lambda>(n, e). se_state e \<noteq> ServerStateDown) (mx_servers mx)))"

definition kindOf :: "string \<Rightarrow> serverEntry \<Rightarrow> string" where
  "kindOf name entry = (if sc_Kind (se_config entry) = [] then name else sc_Kind (se_config entry))"

text \<open>The loop with its \<open>seen\<close> set and the result so far.\<close>

fun KindsForServers_loop :: "'w mx \<Rightarrow> string list \<Rightarrow> string list \<Rightarrow> string list \<Rightarrow> string list" where
  "KindsForServers_loop mx [] seen kinds = kinds"
| "KindsForServers_loop mx (name # names) seen kinds =
     (case gm_get (mx_servers mx) name of
        None \<Rightarrow> KindsForServers_loop mx names seen kinds
      | Some entry \<Rightarrow>
          (let kind = kindOf name entry in
           if kind \<in> set seen then KindsForServers_loop mx names seen kinds
           else KindsForServers_loop mx names (kind # seen) (kinds @ [kind])))"

definition KindsForServers :: "'w mx \<Rightarrow> string list \<Rightarrow> string list" where
  "KindsForServers mx names = KindsForServers_loop mx names [] []"

record KindGroup =
  kg_Kind :: string
  kg_Servers :: "string list"
  kg_Tools :: "string list"
  kg_Hints :: "string list"

text \<open>
  \<open>serversByKind\<close> and \<open>toolSets\<close> as the loop over the servers builds them; a set of
  tool names is a map to the empty struct, here the list of its keys.
\<close>

definition addServer ::
  "(string, string list) gomap \<times> (string, string list) gomap \<Rightarrow> string \<times> serverEntry \<Rightarrow>
   (string, string list) gomap \<times> (string, string list) gomap" where
  "addServer acc p =
     (let (serversByKind, toolSets) = acc; (name, entry) = p;
          kind = kindOf name entry;
          serversByKind = gm_set kind (entries (gm_get serversByKind kind) @ [name]) serversByKind;
          toolSets = (if gm_get toolSets kind = None then gm_set kind [] toolSets else toolSets);
          toolSets = foldl (\<lambda>ts t. gm_set kind (List.insert (ti_Name t) (entries (gm_get ts kind))) ts)
                       toolSets (se_tools entry)
      in (serversByKind, toolSets))"

definition KindGroups :: "'w mx \<Rightarrow> KindGroup list" where
  "KindGroups mx =
     (let (serversByKind, toolSets) = foldl addServer ([], []) (mx_servers mx);
          kinds = sort (map fst serversByKind)
      in map (\<lambda>kind. \<lparr>kg_Kind = kind,
                      kg_Servers = sort (entries (gm_get serversByKind kind)),
                      kg_Tools = sort (entries (gm_get toolSets kind)),
                      kg_Hints = entries (gm_get (entries (mx_kindHints mx)) kind)\<rparr>) kinds)"

fun addTools :: "string \<Rightarrow> ToolInfo list \<Rightarrow> string list \<times> ToolInfo list \<Rightarrow> string list \<times> ToolInfo list" where
  "addTools name [] acc = acc"
| "addTools name (t # ts) (seen, result) =
     (let key = name @ ''/'' @ ti_Name t in
      if key \<in> set seen then addTools name ts (seen, result)
      else addTools name ts (key # seen, result @ [t]))"

fun ToolsForServers_loop ::
  "'w mx \<Rightarrow> string list \<Rightarrow> string list \<times> ToolInfo list \<Rightarrow> string list \<times> ToolInfo list" where
  "ToolsForServers_loop mx [] acc = acc"
| "ToolsForServers_loop mx (name # names) acc =
     (case gm_get (mx_servers mx) name of
        None \<Rightarrow> ToolsForServers_loop mx names acc
      | Some entry \<Rightarrow> ToolsForServers_loop mx names (addTools name (se_tools entry) acc))"

definition ToolsForServers :: "'w mx \<Rightarrow> string list \<Rightarrow> ToolInfo list" where
  "ToolsForServers mx names = snd (ToolsForServers_loop mx names ([], []))"

definition AllTools :: "'w mx \<Rightarrow> ToolInfo list" where
  "AllTools mx = concat (map (\<lambda>(n, e). se_tools e) (mx_servers mx))"

definition ServerStatus :: "'w mx \<Rightarrow> (string, ServerState) gomap" where
  "ServerStatus mx = gm_build (map (\<lambda>(n, e). (n, se_state e)) (mx_servers mx))"

section \<open>Names and kinds\<close>

text \<open>
  \<open>ServerNames\<close> is exactly the set of registered servers that are not down, each once,
  in ascending order, whatever order the map is visited in.\<close>

theorem ServerNames_spec:
  assumes "gm_ok (mx_servers mx)"
  shows "ServerNames mx = sorted_list_of_set
    {n. \<exists>e. gm_get (mx_servers mx) n = Some e \<and> se_state e \<noteq> ServerStateDown}"
proof -
  let ?ps = "filter (\<lambda>(n, e). se_state e \<noteq> ServerStateDown) (mx_servers mx)"
  have "distinct (map fst ?ps)"
    using assms by (simp add: gm_ok_def distinct_map_filter)
  moreover have "fst ` set ?ps = {n. \<exists>e. gm_get (mx_servers mx) n = Some e \<and> se_state e \<noteq> ServerStateDown}"
    using assms by (force simp: gm_ok_def)
  ultimately show ?thesis
    by (simp add: ServerNames_def sort_distinct_set)
qed

definition kind_in :: "'w mx \<Rightarrow> string \<Rightarrow> string list" where
  "kind_in mx name = (case gm_get (mx_servers mx) name of None \<Rightarrow> [] | Some e \<Rightarrow> [kindOf name e])"

lemma KindsForServers_loop_spec:
  "KindsForServers_loop mx names sn kinds =
     kinds @ filter (\<lambda>k. k \<notin> set sn) (first_by id (concat (map (kind_in mx) names)))"
  by (induction names arbitrary: sn kinds)
     (auto simp: kind_in_def first_by_append Let_def split: option.split intro: filter_cong)

text \<open>
  \<open>KindsForServers\<close> drops unknown servers and keeps of every kind its first occurrence,
  in the order of the names given.\<close>

theorem KindsForServers_spec:
  "KindsForServers mx names = first_by id (concat (map (kind_in mx) names))"
  by (simp add: KindsForServers_def KindsForServers_loop_spec)

section \<open>Groups\<close>

definition group_servers :: "(string, serverEntry) gomap \<Rightarrow> string \<Rightarrow> string list" where
  "group_servers ps kind = map fst (filter (\<lambda>(n, e). kindOf n e = kind) ps)"

definition group_tools :: "(string, serverEntry) gomap \<Rightarrow> string \<Rightarrow> string set" where
  "group_tools ps kind = (\<Union>(n, e) \<in> set ps. if kindOf n e = kind then ti_Name ` set (se_tools e) else {})"

lemma tool_set_fold:
  "gm_get ts kind = Some l \<Longrightarrow> distinct l \<Longrightarrow>
   \<exists>l'. gm_get (foldl (\<lambda>ts t. gm_set kind (List.insert (ti_Name t) (entries (gm_get ts kind))) ts) ts tools)
        = (gm_get ts)(kind \<mapsto> l') \<and> distinct l' \<and> set l' = set l \<union> ti_Name ` set tools"
proof (induction tools arbitrary: ts l)
  case Nil
  then show ?case by (intro exI [of _ l]) (simp add: map_upd_triv)
next
  case (Cons t tools)
  let ?ts = "gm_set kind (List.insert (ti_Name t) l) ts"
  have "gm_get ?ts kind = Some (List.insert (ti_Name t) l)" "distinct (List.insert (ti_Name t) l)"
    using Cons.prems by simp_all
  from Cons.IH [OF this] Cons.prems show ?case by (simp add: fun_upd_upd del: fun_upd_apply)
qed

text \<open>What the two maps hold after some of the servers were visited.\<close>

definition grouped :: "(string, serverEntry) gomap \<Rightarrow>
  (string, string list) gomap \<times> (string, string list) gomap \<Rightarrow> bool" where
  "grouped ps acc \<longleftrightarrow> gm_ok (fst acc) \<and>
     (\<forall>k. gm_get (fst acc) k = (if group_servers ps k = [] then None else Some (group_servers ps k))) \<and>
     (\<forall>k. case gm_get (snd acc) k of
            None \<Rightarrow> group_servers ps k = []
          | Some l \<Rightarrow> group_servers ps k \<noteq> [] \<and> distinct l \<and> set l = group_tools ps k)"

lemma group_snoc:
  "group_servers (ps @ [(n, e)]) k = group_servers ps k @ (if kindOf n e = k then [n] else [])"
  "group_tools (ps @ [(n, e)]) k = group_tools ps k \<union> (if kindOf n e = k then ti_Name ` set (se_tools e) else {})"
  by (auto simp: group_servers_def group_tools_def)

lemma group_tools_none: "group_servers ps k = [] \<Longrightarrow> group_tools ps k = {}"
  by (auto simp: group_servers_def group_tools_def filter_empty_conv split: if_splits)

lemma grouped_tools:
  assumes "grouped ps (sbk, ts)"
  shows "distinct (entries (gm_get ts k))" "set (entries (gm_get ts k)) = group_tools ps k"
proof -
  have "case gm_get ts k of None \<Rightarrow> group_servers ps k = []
      | Some l \<Rightarrow> group_servers ps k \<noteq> [] \<and> distinct l \<and> set l = group_tools ps k"
    using assms by (simp add: grouped_def)
  then show "distinct (entries (gm_get ts k))" "set (entries (gm_get ts k)) = group_tools ps k"
    by (auto simp: group_tools_none split: option.splits)
qed

lemma grouped_step:
  assumes "grouped ps acc"
  shows "grouped (ps @ [(n, e)]) (addServer acc (n, e))"
proof -
  obtain sbk ts where acc: "acc = (sbk, ts)" by fastforce
  let ?k = "kindOf n e"
  let ?ts = "if gm_get ts ?k = None then gm_set ?k [] ts else ts"
  let ?l = "entries (gm_get ts ?k)"
  have get: "gm_get ?ts = (gm_get ts)(?k \<mapsto> ?l)"
    by (auto simp: fun_eq_iff)
  note l = grouped_tools [OF assms [unfolded acc], of ?k]
  from tool_set_fold [of ?ts ?k ?l "se_tools e"] get l obtain l' where
    l': "gm_get (snd (addServer acc (n, e))) = (gm_get ts)(?k \<mapsto> l')" "distinct l'"
      "set l' = group_tools ps ?k \<union> ti_Name ` set (se_tools e)"
    by (auto simp: addServer_def acc Let_def)
  have sbk: "fst (addServer acc (n, e)) = gm_set ?k (entries (gm_get sbk ?k) @ [n]) sbk"
    by (simp add: addServer_def acc Let_def)
  have old: "entries (gm_get sbk k) = group_servers ps k" for k
    using assms by (simp add: grouped_def acc)
  have "gm_ok (gm_set ?k (entries (gm_get sbk ?k) @ [n]) sbk)"
    using assms by (simp add: grouped_def acc)
  moreover have "gm_get (gm_set ?k (entries (gm_get sbk ?k) @ [n]) sbk) k =
      (if group_servers (ps @ [(n, e)]) k = [] then None else Some (group_servers (ps @ [(n, e)]) k))" for k
    using assms by (simp add: grouped_def acc old group_snoc)
  moreover have "case ((gm_get ts)(?k \<mapsto> l')) k of
        None \<Rightarrow> group_servers (ps @ [(n, e)]) k = []
      | Some l \<Rightarrow> group_servers (ps @ [(n, e)]) k \<noteq> [] \<and> distinct l \<and> set l = group_tools (ps @ [(n, e)]) k" for k
  proof (cases "k = ?k")
    case False
    moreover from assms have "case gm_get ts k of None \<Rightarrow> group_servers ps k = []
        | Some l \<Rightarrow> group_servers ps k \<noteq> [] \<and> distinct l \<and> set l = group_tools ps k"
      by (simp add: grouped_def acc)
    ultimately show ?thesis by (auto simp: group_snoc split: option.splits)
  qed (use l'(2,3) in \<open>simp add: group_snoc\<close>)
  ultimately show ?thesis
    unfolding grouped_def sbk l'(1) by simp
qed

lemma grouped_fold: "grouped ps acc \<Longrightarrow> grouped (ps @ qs) (foldl addServer acc qs)"
proof (induction qs arbitrary: ps acc)
  case (Cons q qs)
  from Cons.IH [of "ps @ [q]" "addServer acc q"] grouped_step [OF Cons.prems, of "fst q" "snd q"]
  show ?case by simp
qed simp

lemma grouped_Nil: "grouped [] ([], [])"
  by (simp add: grouped_def group_servers_def)

text \<open>
  \<open>KindGroups\<close> partitions the registered servers by kind: one group per kind, in
  ascending order of kind, with the servers of that kind in ascending order, every tool name
  of the group once in ascending order, and the hints configured for the kind. The result
  does not depend on the order the maps are visited in.\<close>

theorem KindGroups_spec:
  assumes "gm_ok (mx_servers mx)"
  shows "KindGroups mx =
    map (\<lambda>kind. \<lparr>kg_Kind = kind,
       kg_Servers = sorted_list_of_set {n. \<exists>e. gm_get (mx_servers mx) n = Some e \<and> kindOf n e = kind},
       kg_Tools = sorted_list_of_set {t. \<exists>n e. gm_get (mx_servers mx) n = Some e \<and> kindOf n e = kind \<and>
                                          t \<in> ti_Name ` set (se_tools e)},
       kg_Hints = entries (gm_get (entries (mx_kindHints mx)) kind)\<rparr>)
     (sorted_list_of_set {kind. \<exists>n e. gm_get (mx_servers mx) n = Some e \<and> kindOf n e = kind})"
proof -
  let ?ps = "mx_servers mx"
  obtain sbk ts where f: "foldl addServer ([], []) ?ps = (sbk, ts)" by fastforce
  with grouped_fold [OF grouped_Nil, of ?ps] have g: "grouped ?ps (sbk, ts)" by simp
  have in_map: "gm_get ?ps n = Some e \<longleftrightarrow> (n, e) \<in> set ?ps" for n e
    using assms by (simp add: gm_ok_def)
  have servers: "entries (gm_get sbk k) = group_servers ?ps k" for k
    using g by (simp add: grouped_def)
  note tools = grouped_tools [OF g]
  have "distinct (group_servers ?ps k)" for k
    using assms by (simp add: group_servers_def gm_ok_def distinct_map_filter)
  moreover have "set (group_servers ?ps k) = {n. \<exists>e. gm_get ?ps n = Some e \<and> kindOf n e = k}" for k
    by (force simp: group_servers_def in_map)
  moreover have "group_tools ?ps k = {t. \<exists>n e. gm_get ?ps n = Some e \<and> kindOf n e = k \<and> t \<in> ti_Name ` set (se_tools e)}" for k
    by (fastforce simp: group_tools_def in_map split: if_splits)
  moreover have "set (map fst sbk) = {kind. \<exists>n e. gm_get ?ps n = Some e \<and> kindOf n e = kind}"
  proof -
    have "k \<in> set (map fst sbk) \<longleftrightarrow> group_servers ?ps k \<noteq> []" for k
    proof -
      have "k \<in> set (map fst sbk) \<longleftrightarrow> gm_get sbk k \<noteq> None"
        by (simp add: map_of_eq_None_iff)
      with g show ?thesis by (simp add: grouped_def)
    qed
    moreover have "group_servers ?ps k \<noteq> [] \<longleftrightarrow> (\<exists>n e. (n, e) \<in> set ?ps \<and> kindOf n e = k)" for k
      by (auto simp: group_servers_def filter_empty_conv)
    ultimately show ?thesis by (simp add: set_eq_iff in_map del: set_map)
  qed
  moreover have "distinct (map fst sbk)"
    using g by (simp add: grouped_def gm_ok_def)
  ultimately show ?thesis
    using tools by (simp add: KindGroups_def f servers sort_distinct_set del: set_map)
qed

section \<open>Tool lists\<close>

definition listed :: "'w mx \<Rightarrow> string \<Rightarrow> (string \<times> ToolInfo) list" where
  "listed mx name = (case gm_get (mx_servers mx) name of None \<Rightarrow> [] | Some e \<Rightarrow> map (Pair name) (se_tools e))"

definition pair_key :: "string \<times> ToolInfo \<Rightarrow> string" where
  "pair_key p = fst p @ ''/'' @ ti_Name (snd p)"

lemma addTools_spec:
  "addTools name ts (sn, result) =
     (rev (map pair_key (filter (\<lambda>p. pair_key p \<notin> set sn) (first_by pair_key (map (Pair name) ts)))) @ sn,
      result @ map snd (filter (\<lambda>p. pair_key p \<notin> set sn) (first_by pair_key (map (Pair name) ts))))"
proof (induction ts arbitrary: sn result)
  case (Cons t ts)
  let ?P = "\<lambda>p. pair_key p \<noteq> pair_key (name, t)"
  have "pair_key (name, t) \<in> set sn \<Longrightarrow>
      filter (\<lambda>p. ?P p \<and> pair_key p \<notin> set sn) xs = filter (\<lambda>p. pair_key p \<notin> set sn) xs" for xs
    by (auto intro: filter_cong)
  with Cons show ?case
    by (auto simp: Let_def pair_key_def [of "(name, t)"])
qed simp

lemma ToolsForServers_loop_spec:
  "snd (ToolsForServers_loop mx names (sn, result)) =
     result @ map snd (filter (\<lambda>p. pair_key p \<notin> set sn) (first_by pair_key (concat (map (listed mx) names))))"
proof (induction names arbitrary: sn result)
  case (Cons name names)
  show ?case
  proof (cases "gm_get (mx_servers mx) name")
    case (Some entry)
    let ?new = "filter (\<lambda>p. pair_key p \<notin> set sn) (first_by pair_key (listed mx name))"
    have "pair_key ` set ?new = pair_key ` set (first_by pair_key (listed mx name)) - set sn"
      by auto
    then have "pair_key ` set ?new = pair_key ` set (listed mx name) - set sn"
      by (simp add: image_first_by)
    then have "filter (\<lambda>p. pair_key p \<notin> pair_key ` set (listed mx name) \<and> pair_key p \<notin> set sn) xs =
        filter (\<lambda>p. pair_key p \<notin> pair_key ` set ?new \<and> pair_key p \<notin> set sn) xs" for xs
      by (intro filter_cong) auto
    with Some Cons.IH show ?thesis
      by (simp add: addTools_spec first_by_append listed_def)
  qed (simp add: Cons.IH listed_def)
qed simp

text \<open>
  C36. \<open>ToolsForServers\<close> lists the tools of the named servers in the order of the names and
  of each server's list, every pair of server and tool name once; unknown names count for
  nothing. This needs server names without a slash, because the pairs are told apart by the
  text of name, slash and tool.\<close>

theorem ToolsForServers_spec:
  assumes "\<And>n. n \<in> set names \<Longrightarrow> CHR ''/'' \<notin> set n"
  shows "ToolsForServers mx names =
    map snd (first_by (\<lambda>(n, t). (n, ti_Name t)) (concat (map (listed mx) names)))"
proof -
  have "p \<in> set (concat (map (listed mx) names)) \<Longrightarrow> CHR ''/'' \<notin> set (fst p)" for p
    using assms by (auto simp: listed_def split: option.splits)
  then have "p \<in> set (concat (map (listed mx) names)) \<Longrightarrow> q \<in> set (concat (map (listed mx) names)) \<Longrightarrow>
      pair_key p = pair_key q \<longleftrightarrow> fst p = fst q \<and> ti_Name (snd p) = ti_Name (snd q)" for p q
    by (simp add: pair_key_def sep_append_eq del: set_concat)
  then have "first_by pair_key (concat (map (listed mx) names)) =
      first_by (\<lambda>(n, t). (n, ti_Name t)) (concat (map (listed mx) names))"
    by (intro first_by_cong) (simp add: case_prod_beta del: set_concat)
  then show ?thesis
    using ToolsForServers_loop_spec [of mx names "[]" "[]"] by (simp add: ToolsForServers_def)
qed

section \<open>A concrete registry\<close>

definition reg_tool :: "string \<Rightarrow> string \<Rightarrow> ToolInfo" where
  "reg_tool server name = zeroToolInfo\<lparr>ti_Server := server, ti_Name := name\<rparr>"

definition reg_entry :: "string \<Rightarrow> string \<Rightarrow> ServerState \<Rightarrow> string list \<Rightarrow> serverEntry" where
  "reg_entry name kind state tools =
     \<lparr>se_config = zeroServerConfig\<lparr>sc_Name := name, sc_Kind := kind\<rparr>, se_session = Some 1,
      se_tools = map (reg_tool name) tools, se_state = state, se_reconnecting = False, se_refreshCh = None\<rparr>"

definition reg_demo :: "unit mx" where
  "reg_demo = \<lparr>mx_servers = [(''k2'', reg_entry ''k2'' ''k8s'' ServerStateConnected [''get'', ''list'']),
       (''git'', reg_entry ''git'' [] ServerStateDown [''log'']),
       (''k1'', reg_entry ''k1'' ''k8s'' ServerStateConnected [''get''])],
     mx_kindHints = None, mx_opts = defaultOptions None, mx_builtinCache = False\<rparr>"

lemma reg_demo_ok: "gm_ok (mx_servers reg_demo)"
  by (simp add: reg_demo_def gm_ok_def)

theorem ServerNames_spec_witness:
  "gm_ok (mx_servers reg_demo) \<and> [''k1'', ''k2''] = sorted_list_of_set
    {n. \<exists>e. gm_get (mx_servers reg_demo) n = Some e \<and> se_state e \<noteq> ServerStateDown}"
proof -
  have "ServerNames reg_demo = [''k1'', ''k2'']" by code_simp
  then show ?thesis using ServerNames_spec [OF reg_demo_ok] reg_demo_ok by simp
qed

theorem KindGroups_spec_witness:
  "[''git'', ''k8s''] = sorted_list_of_set {kind. \<exists>n e. gm_get (mx_servers reg_demo) n = Some e \<and> kindOf n e = kind}"
proof -
  have "map kg_Kind (KindGroups reg_demo) = [''git'', ''k8s'']" by code_simp
  then show ?thesis
    unfolding KindGroups_spec [OF reg_demo_ok] by (simp add: comp_def)
qed

theorem ToolsForServers_spec_witness:
  "map snd (first_by (\<lambda>(n, t). (n, ti_Name t)) (concat (map (listed reg_demo) [''k1'', ''no'', ''k1'']))) =
     [reg_tool ''k1'' ''get'']"
proof -
  have "ToolsForServers reg_demo [''k1'', ''no'', ''k1''] = [reg_tool ''k1'' ''get'']" by code_simp
  moreover have "n \<in> set [''k1'', ''no'', ''k1''] \<Longrightarrow> CHR ''/'' \<notin> set n" for n
    by auto
  ultimately show ?thesis using ToolsForServers_spec [of "[''k1'', ''no'', ''k1'']" reg_demo] by simp
qed

text \<open>
  Two pairs of server and tool with the same text lose one of the two: a server called
  \<open>a/b\<close> with a tool \<open>c\<close> after a server \<open>a\<close> with a tool \<open>b/c\<close>.\<close>

theorem ToolsForServers_slash_collision:
  "ToolsForServers (reg_demo\<lparr>mx_servers := [(''a'', reg_entry ''a'' [] ServerStateConnected [''b/c'']),
       (''a/b'', reg_entry ''a/b'' [] ServerStateConnected [''c''])]\<rparr>) [''a'', ''a/b''] = [reg_tool ''a'' ''b/c'']"
  by code_simp

end
