(* ===== verification/Caller.thy ===== *)
theory Caller
  imports Registry
begin

text \<open>
  \<open>CallTool\<close>, \<open>caller.go\<close>, in the stages of the source: lookup, arguments, BeforeCall
  chain, cache lookup, upstream call, ResultTransform chain, cache store. Every stage passes
  the state on and either returns from \<open>CallTool\<close> or goes on to the next. The entry is
  read once under its lock at the start, as in the source, so the rest of the call works on
  that snapshot whatever the background goroutines do meanwhile.
\<close>

section \<open>Definitions\<close>

text \<open>What \<open>CallTool\<close> returns: \<open>(*CallResult, error)\<close>, or a panic of a hook.\<close>

type_synonym 'w call_outcome = "(CallResult option \<times> err option) outcome \<times> 'w st"

subsection \<open>Helpers\<close>

datatype 'w cacheRef = NoCache | CustomCache "'w Cache" | BuiltinCache

definition activeCache :: "'w mx \<Rightarrow> 'w cacheRef" where
  "activeCache mx =
     (if o_cacheDisabled (mx_opts mx) then NoCache
      else (case o_cache (mx_opts mx) of
              Some c \<Rightarrow> CustomCache c
            | None \<Rightarrow> (if mx_builtinCache mx then BuiltinCache else NoCache)))"

text \<open>A hook handed a nil result has nothing to change.\<close>

fun runAfterHooks ::
  "'w AfterCallHook list \<Rightarrow> ctx \<Rightarrow> string \<Rightarrow> string \<Rightarrow> ToolInfo \<Rightarrow> bytes \<Rightarrow> CallResult option \<Rightarrow>
   err option \<Rightarrow> duration \<Rightarrow> 'w st \<Rightarrow> CallResult option outcome \<times> 'w st" where
  "runAfterHooks [] c server tool info args result callErr dur s = (Ret result, s)"
| "runAfterHooks (hook # hooks) c server tool info args result callErr dur s =
     (let s = emit (EvAfter c server tool info args result callErr dur) s;
          (res, w) = hook c server tool info args result callErr dur (st_env s);
          s = s\<lparr>st_env := w\<rparr>
      in case res of
           Panic \<Rightarrow> (Panic, s)
         | Ret result' \<Rightarrow>
             runAfterHooks hooks c server tool info args
               (case (result, result') of (Some _, Some r) \<Rightarrow> Some r | _ \<Rightarrow> result) callErr dur s)"

definition runAfterCall ::
  "'w mx \<Rightarrow> ctx \<Rightarrow> string \<Rightarrow> string \<Rightarrow> ToolInfo \<Rightarrow> bytes \<Rightarrow> CallResult option \<Rightarrow>
   err option \<Rightarrow> duration \<Rightarrow> 'w st \<Rightarrow> CallResult option outcome \<times> 'w st" where
  "runAfterCall mx = runAfterHooks (o_afterCall (mx_opts mx))"

definition fireRejected ::
  "'w mx \<Rightarrow> ctx \<Rightarrow> string \<Rightarrow> string \<Rightarrow> RejectReason \<Rightarrow> err \<Rightarrow> 'w st \<Rightarrow> 'w st" where
  "fireRejected mx c server tool reason e s =
     (case o_onRejectedCall (mx_opts mx) of
        None \<Rightarrow> s
      | Some f \<Rightarrow>
          (let s = emit (EvReject c server tool reason e) s;
               (panicked, w) = f c server tool reason e (st_env s)
           in s\<lparr>st_env := w\<rparr>))"

definition effectiveTimeout :: "duration \<Rightarrow> duration \<Rightarrow> duration" where
  "effectiveTimeout perServer global = (if 0 < perServer then perServer else global)"

fun build_parts ::
  "'w rt \<Rightarrow> mcp_content list \<Rightarrow> ContentPart list \<Rightarrow> string list \<Rightarrow> ContentPart list \<times> string list" where
  "build_parts rt [] parts textParts = (parts, textParts)"
| "build_parts rt (c # cs) parts textParts =
     (case c of
        TextContent t \<Rightarrow>
          build_parts rt cs
            (parts @ [\<lparr>cp_Kind = ContentText, cp_Text = t, cp_MIMEType = [], cp_Data = None, cp_Raw = None\<rparr>])
            (textParts @ [t])
      | ImageContent mime data \<Rightarrow>
          build_parts rt cs
            (parts @ [\<lparr>cp_Kind = ContentImage, cp_Text = [], cp_MIMEType = mime, cp_Data = data, cp_Raw = None\<rparr>])
            (textParts @ [''[image: '' @ mime @ '']''])
      | OtherContent i \<Rightarrow>
          (case rt_marshalContent rt c of
             Some b \<Rightarrow>
               build_parts rt cs
                 (parts @ [\<lparr>cp_Kind = ContentOther, cp_Text = [], cp_MIMEType = [], cp_Data = None, cp_Raw = Some b\<rparr>])
                 (textParts @ [b])
           | None \<Rightarrow> build_parts rt cs parts textParts))"

definition buildResult :: "'w rt \<Rightarrow> mcp_result option \<Rightarrow> CallResult" where
  "buildResult rt r =
     (case r of
        None \<Rightarrow> \<lparr>cr_Text = [], cr_Parts = [], cr_IsError = False\<rparr>
      | Some r \<Rightarrow>
          (let (parts, textParts) = build_parts rt (mr_Content r) [] []
           in \<lparr>cr_Text = str_join [CHR 0x0A] textParts, cr_Parts = parts, cr_IsError = mr_IsError r\<rparr>))"

subsection \<open>Returning from CallTool\<close>

definition since :: "'w rt \<Rightarrow> gotime \<Rightarrow> 'w st \<Rightarrow> duration" where
  "since rt start s = rt_now rt (st_env s) - start"

text \<open>The AfterCall hooks, then \<open>return\<close>; \<open>RecordCall\<close> in between on most paths.\<close>

definition finish ::
  "'w mx \<Rightarrow> ctx \<Rightarrow> string \<Rightarrow> string \<Rightarrow> ToolInfo \<Rightarrow> bytes \<Rightarrow> CallResult option \<Rightarrow> err option \<Rightarrow>
   duration \<Rightarrow> 'w st \<Rightarrow> 'w call_outcome" where
  "finish mx c server tool info args result callErr dur s =
     (case runAfterCall mx c server tool info args result callErr dur s of
        (Panic, s) \<Rightarrow> (Panic, s)
      | (Ret result, s) \<Rightarrow> (Ret (if callErr = None then result else None, callErr), s))"

definition finishRecorded ::
  "'w rt \<Rightarrow> 'w mx \<Rightarrow> ctx \<Rightarrow> string \<Rightarrow> string \<Rightarrow> ToolInfo \<Rightarrow> bytes \<Rightarrow> CallResult option \<Rightarrow> err option \<Rightarrow>
   duration \<Rightarrow> ('w st \<Rightarrow> duration) \<Rightarrow> 'w st \<Rightarrow> 'w call_outcome" where
  "finishRecorded rt mx c server tool info args result callErr dur recDur s =
     (case runAfterCall mx c server tool info args result callErr dur s of
        (Panic, s) \<Rightarrow> (Panic, s)
      | (Ret result, s) \<Rightarrow>
          (let s = safeRecordCall (o_metrics (mx_opts mx)) server tool (recDur s) callErr s
           in (Ret (if callErr = None then result else None, callErr), s)))"

text \<open>\<open>fireRejected\<close>, \<open>runAfterCall\<close>, \<open>safeRecordCall\<close>, \<open>return nil, err\<close>\<close>

definition rejectCall ::
  "'w rt \<Rightarrow> 'w mx \<Rightarrow> ctx \<Rightarrow> string \<Rightarrow> string \<Rightarrow> ToolInfo \<Rightarrow> bytes \<Rightarrow> RejectReason \<Rightarrow> err \<Rightarrow>
   gotime \<Rightarrow> 'w st \<Rightarrow> 'w call_outcome" where
  "rejectCall rt mx c server tool info args reason e start s =
     (let s = fireRejected mx c server tool reason e s
      in finishRecorded rt mx c server tool info args None (Some e) (since rt start s) (since rt start) s)"

subsection \<open>Arguments\<close>

text \<open>
  The arguments to send (\<open>None\<close> when the caller gave none) and their final JSON form, or
  the error that rejects the call.
\<close>

definition prepareArgs ::
  "'w rt \<Rightarrow> 'w mx \<Rightarrow> serverEntry \<Rightarrow> bytes \<Rightarrow> err + (args option \<times> bytes)" where
  "prepareArgs rt mx entry argsJSON =
     (if argsJSON = [] then Inr (None, argsJSON)
      else (case unmarshalMap rt argsJSON of
         Inl e \<Rightarrow> Inl (InvalidArgsJSON e)
       | Inr rawArgs \<Rightarrow>
           (let bad = findInvalidArgs (rt_unicode rt) rawArgs in
            if bad \<noteq> [] then Inl (ErrInvalidArgs bad [])
            else (let singularMap = mergedSingularMap (o_resourceSingular (mx_opts mx))
                                      (sc_ResourceSingular (se_config entry));
                      transformed = applyAll (rt_unicode rt) (sc_ArgsTransformers (se_config entry))
                                      rawArgs (o_customTransformers (mx_opts mx)) singularMap;
                      transformed = applyFieldMap transformed (sc_FieldMap (se_config entry));
                      finalArgs = (case marshalMap rt transformed of
                                     Some reSerialised \<Rightarrow> reSerialised | None \<Rightarrow> argsJSON)
                  in Inr (Some transformed, finalArgs)))))"

definition logCall ::
  "'w mx \<Rightarrow> string \<Rightarrow> string \<Rightarrow> args option \<Rightarrow> 'w st \<Rightarrow> 'w st" where
  "logCall mx server tool arguments s =
     (case arguments of
        None \<Rightarrow> s
      | Some transformed \<Rightarrow>
          log_at (mx_opts mx) Debug ''mcpx: call''
            [F ''server'' (FStr server), F ''tool'' (FStr tool), F ''args'' (FArgs transformed)] s)"

definition schemaErrors :: "'w rt \<Rightarrow> 'w mx \<Rightarrow> ToolInfo \<Rightarrow> bytes \<Rightarrow> string list" where
  "schemaErrors rt mx info finalArgs =
     (if o_schemaValidation (mx_opts mx)
      then validateSchema (rt_validateSchema rt) (ti_InputSchema info) finalArgs else [])"

subsection \<open>The BeforeCall chain\<close>

datatype before_result = BAbort ctx err | BShort ctx CallResult | BContinue ctx

fun runBefore ::
  "'w BeforeCallHook list \<Rightarrow> ctx \<Rightarrow> string \<Rightarrow> string \<Rightarrow> ToolInfo \<Rightarrow> bytes \<Rightarrow> 'w st \<Rightarrow>
   before_result outcome \<times> 'w st" where
  "runBefore [] c server tool info args s = (Ret (BContinue c), s)"
| "runBefore (hook # hooks) c server tool info args s =
     (let s = emit (EvBefore c server tool info args) s;
          (res, w) = hook c server tool info args (st_env s);
          s = s\<lparr>st_env := w\<rparr>
      in case res of
           Panic \<Rightarrow> (Panic, s)
         | Ret (newCtx, shortResult, err) \<Rightarrow>
             (case err of
                Some e \<Rightarrow> (Ret (BAbort c e), s)
              | None \<Rightarrow>
                  (case shortResult of
                     Some r \<Rightarrow> (Ret (BShort c r), s)
                   | None \<Rightarrow>
                       runBefore hooks (case newCtx of Some c' \<Rightarrow> c' | None \<Rightarrow> c)
                         server tool info args s)))"

subsection \<open>Cache lookup and store\<close>

definition cacheKeyOf :: "'w rt \<Rightarrow> 'w mx \<Rightarrow> ctx \<Rightarrow> string \<Rightarrow> string \<Rightarrow> bytes \<Rightarrow> string" where
  "cacheKeyOf rt mx =
     (case o_cacheKey (mx_opts mx) of
        Some keyFn \<Rightarrow> keyFn
      | None \<Rightarrow> defaultCacheKey (\<lambda>b. case rt_unmarshal rt b of Inl e \<Rightarrow> None | Inr v \<Rightarrow> Some v) (rt_marshal rt))"

definition cacheGet ::
  "'w rt \<Rightarrow> 'w cacheRef \<Rightarrow> ctx \<Rightarrow> string \<Rightarrow> 'w st \<Rightarrow> CallResult option \<times> 'w st" where
  "cacheGet rt cr c key s =
     (case cr of
        NoCache \<Rightarrow> (None, s)
      | CustomCache cc \<Rightarrow>
          (let s = emit (EvCacheGet key) s; (r, w) = c_Get cc c key (st_env s) in (r, s\<lparr>st_env := w\<rparr>))
      | BuiltinCache \<Rightarrow>
          (let s = emit (EvCacheGet key) s; (r, lc) = lru_Get (rt_now rt (st_env s)) key (st_cache s)
           in (r, s\<lparr>st_cache := lc\<rparr>)))"

definition cacheSet ::
  "'w rt \<Rightarrow> 'w cacheRef \<Rightarrow> ctx \<Rightarrow> string \<Rightarrow> CallResult \<Rightarrow> duration \<Rightarrow> 'w st \<Rightarrow> 'w st" where
  "cacheSet rt cr c key result ttl s =
     (case cr of
        NoCache \<Rightarrow> s
      | CustomCache cc \<Rightarrow>
          (let s = emit (EvCacheSet key result ttl) s
           in s\<lparr>st_env := c_Set cc c key (Some result) ttl (st_env s)\<rparr>)
      | BuiltinCache \<Rightarrow>
          (let s = emit (EvCacheSet key result ttl) s
           in s\<lparr>st_cache := lru_Set (rt_now rt (st_env s)) key (Some result) ttl (st_cache s)\<rparr>))"

definition cacheActive :: "'w mx \<Rightarrow> ToolInfo \<Rightarrow> bool" where
  "cacheActive mx info \<longleftrightarrow> (case activeCache mx of NoCache \<Rightarrow> False | _ \<Rightarrow> isCacheable info)"

definition warnScope :: "'w mx \<Rightarrow> ctx \<Rightarrow> 'w st \<Rightarrow> 'w st" where
  "warnScope mx c s =
     (if CacheScope c = [] \<and> \<not> st_scopeWarned s
      then log_at (mx_opts mx) Warn
             (''mcpx: cache enabled but no scope set; results may leak across tenants ''
                @ [CHR 0xE2, CHR 0x80, CHR 0x94] @ '' use WithCacheScope(ctx, id)'')
             [] (s\<lparr>st_scopeWarned := True\<rparr>)
      else s)"

definition cacheLookup ::
  "'w rt \<Rightarrow> 'w mx \<Rightarrow> ctx \<Rightarrow> string \<Rightarrow> string \<Rightarrow> ToolInfo \<Rightarrow> bytes \<Rightarrow> 'w st \<Rightarrow> CallResult option \<times> 'w st" where
  "cacheLookup rt mx c server tool info finalArgs s =
     (if cacheActive mx info then
        (let s = warnScope mx c s
         in cacheGet rt (activeCache mx) c (cacheKeyOf rt mx c server tool finalArgs) s)
      else (None, s))"

definition cacheStore ::
  "'w rt \<Rightarrow> 'w mx \<Rightarrow> ctx \<Rightarrow> string \<Rightarrow> string \<Rightarrow> ToolInfo \<Rightarrow> bytes \<Rightarrow> CallResult \<Rightarrow> 'w st \<Rightarrow> 'w st" where
  "cacheStore rt mx c server tool info finalArgs result s =
     (if cacheActive mx info \<and> \<not> cr_IsError result then
        (let (ttl, warned, warning) = toolTTL (rt_ParseDuration rt) info (o_cacheTTL (mx_opts mx)) (st_ttlWarned s);
             s = s\<lparr>st_ttlWarned := warned\<rparr>;
             s = (case warning of None \<Rightarrow> s
                  | Some fs \<Rightarrow> log_at (mx_opts mx) Warn ''mcpx: invalid cache_ttl, using default'' fs s)
         in cacheSet rt (activeCache mx) c (cacheKeyOf rt mx c server tool finalArgs) result ttl s)
      else s)"

subsection \<open>Upstream call and ResultTransform chain\<close>

fun runTransforms ::
  "'w ResultTransformHook list \<Rightarrow> ctx \<Rightarrow> string \<Rightarrow> string \<Rightarrow> ToolInfo \<Rightarrow> CallResult \<Rightarrow> 'w st \<Rightarrow>
   (CallResult \<times> err option) outcome \<times> 'w st" where
  "runTransforms [] c server tool info result s = (Ret (result, None), s)"
| "runTransforms (hook # hooks) c server tool info result s =
     (let s = emit (EvTransform c server tool info result) s;
          (res, w) = hook c server tool info result (st_env s);
          s = s\<lparr>st_env := w\<rparr>
      in case res of
           Panic \<Rightarrow> (Panic, s)
         | Ret (result, Some e) \<Rightarrow> (Ret (result, Some e), s)
         | Ret (result, None) \<Rightarrow> runTransforms hooks c server tool info result s)"

definition afterUpstream ::
  "'w rt \<Rightarrow> 'w mx \<Rightarrow> ctx \<Rightarrow> string \<Rightarrow> string \<Rightarrow> ToolInfo \<Rightarrow> bytes \<Rightarrow> CallResult \<Rightarrow> duration \<Rightarrow>
   'w st \<Rightarrow> 'w call_outcome" where
  "afterUpstream rt mx c server tool info finalArgs result dur s =
     (case runTransforms (o_resultTransform (mx_opts mx)) c server tool info result s of
        (Panic, s) \<Rightarrow> (Panic, s)
      | (Ret (result, Some e), s) \<Rightarrow>
          finishRecorded rt mx c server tool info finalArgs (Some result) (Some e) dur (\<lambda>_. dur) s
      | (Ret (result, None), s) \<Rightarrow>
          (let s = cacheStore rt mx c server tool info finalArgs result s
           in finishRecorded rt mx c server tool info finalArgs (Some result) None dur (\<lambda>_. dur) s))"

text \<open>A call through a nil session pointer panics.\<close>

definition upstream ::
  "'w rt \<Rightarrow> 'w mx \<Rightarrow> serverEntry \<Rightarrow> ctx \<Rightarrow> string \<Rightarrow> string \<Rightarrow> ToolInfo \<Rightarrow> args option \<Rightarrow> bytes \<Rightarrow>
   gotime \<Rightarrow> 'w st \<Rightarrow> 'w call_outcome" where
  "upstream rt mx entry c server tool info arguments finalArgs start s =
     (let timeout = effectiveTimeout (sc_CallTimeout (se_config entry)) (o_callTimeout (mx_opts mx));
          callCtx = ctx_WithTimeout c (rt_now rt (st_env s)) timeout
      in case se_session entry of
           None \<Rightarrow> (Panic, s)
         | Some sess \<Rightarrow>
             (let s = emit (EvUpstream sess callCtx tool arguments) s;
                  ((rawResult, callErr), w) = rt_CallTool rt sess callCtx tool arguments (st_env s);
                  s = s\<lparr>st_env := w\<rparr>;
                  dur = since rt start s
              in case callErr of
                   Some e \<Rightarrow>
                     (let wrapped = (if rt_ctxErr rt callCtx (st_env s) = Some DeadlineExceeded
                                     then CallTimeoutErr server tool timeout else ServerErr server e);
                          s = log_at (mx_opts mx) Error ''mcpx: call failed''
                                [F ''server'' (FStr server), F ''tool'' (FStr tool), F ''error'' (FErr wrapped)] s
                      in finishRecorded rt mx c server tool info finalArgs None (Some wrapped) dur (\<lambda>_. dur) s)
                 | None \<Rightarrow>
                     afterUpstream rt mx c server tool info finalArgs (buildResult rt rawResult) dur s))"

definition dispatch ::
  "'w rt \<Rightarrow> 'w mx \<Rightarrow> serverEntry \<Rightarrow> ctx \<Rightarrow> string \<Rightarrow> string \<Rightarrow> ToolInfo \<Rightarrow> args option \<Rightarrow> bytes \<Rightarrow>
   gotime \<Rightarrow> 'w st \<Rightarrow> 'w call_outcome" where
  "dispatch rt mx entry c server tool info arguments finalArgs start s =
     (case cacheLookup rt mx c server tool info finalArgs s of
        (Some cached, s) \<Rightarrow>
          finish mx (markCacheHit c) server tool info finalArgs (Some cached) None (since rt start s) s
      | (None, s) \<Rightarrow> upstream rt mx entry c server tool info arguments finalArgs start s)"

subsection \<open>CallTool\<close>

definition afterArgs ::
  "'w rt \<Rightarrow> 'w mx \<Rightarrow> serverEntry \<Rightarrow> ctx \<Rightarrow> string \<Rightarrow> string \<Rightarrow> ToolInfo \<Rightarrow> args option \<Rightarrow> bytes \<Rightarrow>
   gotime \<Rightarrow> 'w st \<Rightarrow> 'w call_outcome" where
  "afterArgs rt mx entry c server tool info arguments finalArgs start s =
     (case runBefore (o_beforeCall (mx_opts mx)) c server tool info finalArgs s of
        (Panic, s) \<Rightarrow> (Panic, s)
      | (Ret (BAbort c e), s) \<Rightarrow>
          (let s = fireRejected mx c server tool RejectBeforeHookAbort e s
           in finish mx c server tool info finalArgs None (Some e) (since rt start s) s)
      | (Ret (BShort c r), s) \<Rightarrow>
          finish mx c server tool info finalArgs (Some r) None (since rt start s) s
      | (Ret (BContinue c), s) \<Rightarrow>
          dispatch rt mx entry c server tool info arguments finalArgs start s)"

definition CallTool ::
  "'w rt \<Rightarrow> 'w mx \<Rightarrow> ctx \<Rightarrow> string \<Rightarrow> string \<Rightarrow> bytes \<Rightarrow> 'w st \<Rightarrow> 'w call_outcome" where
  "CallTool rt mx c server toolName argsJSON s =
     (let start = rt_now rt (st_env s) in
      case gm_get (mx_servers mx) server of
        None \<Rightarrow>
          rejectCall rt mx c server toolName zeroToolInfo argsJSON RejectUnknownServer
            (UnknownServer server (ServerNames mx)) start s
      | Some entry \<Rightarrow>
          (case find (\<lambda>ti. ti_Name ti = toolName) (se_tools entry) of
             None \<Rightarrow>
               rejectCall rt mx c server toolName zeroToolInfo argsJSON RejectUnknownTool
                 (UnknownTool toolName server) start s
           | Some toolMeta \<Rightarrow>
               (if se_state entry = ServerStateDown then
                  rejectCall rt mx c server toolName toolMeta argsJSON RejectServerDown
                    (DownServer server) start s
                else
                  (case prepareArgs rt mx entry argsJSON of
                     Inl e \<Rightarrow> rejectCall rt mx c server toolName toolMeta argsJSON RejectInvalidArgs e start s
                   | Inr (arguments, finalArgs) \<Rightarrow>
                       (let s = logCall mx server toolName arguments s;
                            errs = schemaErrors rt mx toolMeta finalArgs
                        in if errs \<noteq> [] then
                             rejectCall rt mx c server toolName toolMeta finalArgs RejectInvalidArgs
                               (ErrInvalidArgs [] errs) start s
                           else afterArgs rt mx entry c server toolName toolMeta arguments finalArgs start s)))))"

end
