(* ===== verification/CallLaws.thy ===== *)
theory CallLaws
  imports Caller
begin

text \<open>
  What \<open>CallTool\<close> guarantees. The first part says what each stage leaves of the trace;
  the locale \<open>call_spec\<close> then carries a specification of the trace through all stages
  of a call at once, and is interpreted for each guarantee.
\<close>

section \<open>Frame lemmas of the stages\<close>

lemma traced_fireRejected [simp]:
  "traced K (fireRejected mx c server tool reason e s) =
     traced K s @ (if KReject \<in> K \<and> o_onRejectedCall (mx_opts mx) \<noteq> None
                 then [EvReject c server tool reason e] else [])"
  by (simp add: fireRejected_def Let_def case_prod_beta split: option.split)

lemma runAfterHooks_frame:
  "runAfterHooks hooks c server tool info args result e d s = (res, s') \<Longrightarrow> KAfter \<notin> K \<Longrightarrow>
   traced K s' = traced K s"
  by (induction hooks arbitrary: result s)
     (fastforce simp: Let_def split: prod.splits outcome.splits)+

lemma runAfterHooks_state:
  "runAfterHooks hooks c server tool info args result e d s = (res, s') \<Longrightarrow>
   st_cache s' = st_cache s \<and> st_scopeWarned s' = st_scopeWarned s \<and> st_ttlWarned s' = st_ttlWarned s"
  by (induction hooks arbitrary: result s)
     (fastforce simp: Let_def split: prod.splits outcome.splits)+

lemma runAfterHooks_errs:
  "runAfterHooks hooks c server tool info args result e d s = (Ret r, s') \<Longrightarrow>
   map after_err (traced {KAfter} s') = map after_err (traced {KAfter} s) @ replicate (length hooks) e"
proof (induction hooks arbitrary: result s)
  case (Cons hook hooks)
  then show ?case
    by (fastforce simp: Let_def replicate_app_Cons_same split: prod.splits outcome.splits)
qed simp

lemma runBefore_frame:
  "runBefore hooks c server tool info args s = (res, s') \<Longrightarrow> KBefore \<notin> K \<Longrightarrow> traced K s' = traced K s"
  by (induction hooks arbitrary: c s)
     (fastforce simp: Let_def split: prod.splits outcome.splits option.splits)+

lemma runTransforms_frame:
  "runTransforms hooks c server tool info result s = (res, s') \<Longrightarrow> KTransform \<notin> K \<Longrightarrow>
   traced K s' = traced K s"
  by (induction hooks arbitrary: result s)
     (fastforce simp: Let_def split: prod.splits outcome.splits option.splits)+

section \<open>A specification carried through a call\<close>

text \<open>
  \<open>Pre s s'\<close> says what the stages before the return may do to the state, \<open>Post s r\<close>
  what a call from \<open>s\<close> with outcome \<open>r\<close> has done. The laws are about the single
  steps a stage can take and about the two ways to return; from them every stage, and
  \<open>CallTool\<close> itself, meets \<open>Post\<close>. A step that touches the cache is only taken for a
  tool of the server that the cache may serve, and a store only for a result that is no
  tool error.
\<close>

locale call_spec =
  fixes rt :: "'w rt" and mx :: "'w mx" and server :: string and tool :: string
    and Pre :: "'w st \<Rightarrow> 'w st \<Rightarrow> bool" and Post :: "'w st \<Rightarrow> 'w call_outcome \<Rightarrow> bool"
  assumes pre_refl: "Pre s s"
    and pre_trans: "Pre s s1 \<Longrightarrow> Pre s1 s2 \<Longrightarrow> Pre s s2"
    and pre_env: "Pre s (s\<lparr>st_env := w\<rparr>)"
    and pre_before: "Pre s (emit (EvBefore c server tool info args) s)"
    and pre_reject: "Pre s (emit (EvReject c server tool reason e) s)"
    and pre_transform: "Pre s (emit (EvTransform c server tool info r) s)"
    and pre_upstream: "Pre s (emit (EvUpstream sess c tool arguments) s)"
    and pre_log_call: "Pre s (emit (EvLog Debug msg fs) s)"
    and pre_log_failed: "Pre s (emit (EvLog Error msg [F ''server'' (FStr server), F ''tool'' (FStr tool), F ''error'' (FErr e)]) s)"
    and pre_warn_scope: "cacheActive mx info \<Longrightarrow> find (\<lambda>ti. ti_Name ti = tool) (se_tools entry) = Some info \<Longrightarrow>
          gm_get (mx_servers mx) server = Some entry \<Longrightarrow>
          Pre s (emit (EvLog Warn msg []) (s\<lparr>st_scopeWarned := True\<rparr>))"
    and pre_warn_ttl: "cacheActive mx info \<Longrightarrow> find (\<lambda>ti. ti_Name ti = tool) (se_tools entry) = Some info \<Longrightarrow>
          gm_get (mx_servers mx) server = Some entry \<Longrightarrow>
          toolTTL (rt_ParseDuration rt) info (o_cacheTTL (mx_opts mx)) (st_ttlWarned s) = (ttl, warned, Some fs) \<Longrightarrow>
          Pre s (emit (EvLog Warn msg fs) (s\<lparr>st_ttlWarned := warned\<rparr>))"
    and pre_ttl: "Pre s (s\<lparr>st_ttlWarned := warned\<rparr>)"
    and pre_cache_get: "cacheActive mx info \<Longrightarrow> find (\<lambda>ti. ti_Name ti = tool) (se_tools entry) = Some info \<Longrightarrow>
          gm_get (mx_servers mx) server = Some entry \<Longrightarrow> Pre s (emit (EvCacheGet key) s)"
    and pre_cache_set: "cacheActive mx info \<Longrightarrow> find (\<lambda>ti. ti_Name ti = tool) (se_tools entry) = Some info \<Longrightarrow>
          gm_get (mx_servers mx) server = Some entry \<Longrightarrow> \<not> cr_IsError r \<Longrightarrow>
          Pre s (emit (EvCacheSet key r ttl) s)"
    and pre_cache: "Pre s (s\<lparr>st_cache := lc\<rparr>)"
    and post_pre: "Pre s s1 \<Longrightarrow> Post s1 out \<Longrightarrow> Post s out"
    and post_panic: "Post s (Panic, s)"
    and post_finish: "callErr = None \<longrightarrow> result \<noteq> None \<Longrightarrow> Post s (finish mx c server tool info args result callErr d s)"
    and post_finishRecorded: "callErr = None \<longrightarrow> result \<noteq> None \<Longrightarrow> Post s (finishRecorded rt mx c server tool info args result callErr d rd s)"
begin

lemma pre_emit_env: "Pre s (emit ev s) \<Longrightarrow> Pre s ((emit ev s)\<lparr>st_env := w\<rparr>)"
  by (rule pre_trans [OF _ pre_env])

lemma pre_runBefore: "runBefore hooks c server tool info args s = (res, s') \<Longrightarrow> Pre s s'"
proof (induction hooks arbitrary: c s)
  case (Cons hook hooks)
  let ?s = "emit (EvBefore c server tool info args) s"
  have last: "Pre s (?s\<lparr>st_env := w\<rparr>)" for w
    by (rule pre_emit_env [OF pre_before])
  have more: "runBefore hooks c' server tool info args (?s\<lparr>st_env := w\<rparr>) = (res, s') \<Longrightarrow> Pre s s'" for c' w
    by (rule pre_trans [OF last Cons.IH])
  from Cons.prems show ?case
    by (auto simp: Let_def split: prod.splits outcome.splits option.splits intro: last more)
qed (simp add: pre_refl)

lemma pre_runTransforms: "runTransforms hooks c server tool info r s = (res, s') \<Longrightarrow> Pre s s'"
proof (induction hooks arbitrary: r s)
  case (Cons hook hooks)
  let ?s = "emit (EvTransform c server tool info r) s"
  have last: "Pre s (?s\<lparr>st_env := w\<rparr>)" for w
    by (rule pre_emit_env [OF pre_transform])
  have more: "runTransforms hooks c server tool info r' (?s\<lparr>st_env := w\<rparr>) = (res, s') \<Longrightarrow> Pre s s'" for r' w
    by (rule pre_trans [OF last Cons.IH])
  from Cons.prems show ?case
    by (auto simp: Let_def split: prod.splits outcome.splits option.splits intro: last more)
qed (simp add: pre_refl)

lemma pre_fireRejected: "Pre s (fireRejected mx c server tool reason e s)"
  by (auto simp: fireRejected_def Let_def pre_refl pre_emit_env [OF pre_reject] split: option.split prod.split)

lemma pre_logCall: "Pre s (logCall mx server tool arguments s)"
  by (simp add: logCall_def log_at_def Let_def pre_refl pre_emit_env [OF pre_log_call] split: option.split)

lemma pre_cacheLookup:
  assumes "cacheLookup rt mx c server tool info fa s = (res, s')"
    and "gm_get (mx_servers mx) server = Some entry" "find (\<lambda>ti. ti_Name ti = tool) (se_tools entry) = Some info"
  shows "Pre s s'"
proof (cases "cacheActive mx info")
  case True
  note steps = pre_warn_scope [OF True assms(3,2)] pre_cache_get [OF True assms(3,2)]
  have warn: "Pre s (warnScope mx c s)"
    by (auto simp: warnScope_def log_at_def Let_def pre_refl intro: pre_trans [OF steps(1) pre_env])
  have get: "Pre t (snd (cacheGet rt cr c key t))" for cr key t
    by (auto simp: cacheGet_def Let_def case_prod_beta pre_refl split: cacheRef.split
          intro: pre_trans [OF steps(2) pre_env] pre_trans [OF steps(2) pre_cache])
  show ?thesis
    using assms(1) True pre_trans [OF warn get]
    by (metis (no_types) cacheLookup_def snd_conv)
next
  case False
  with assms(1) show ?thesis by (simp add: cacheLookup_def pre_refl)
qed

lemma pre_cacheStore:
  assumes "gm_get (mx_servers mx) server = Some entry" "find (\<lambda>ti. ti_Name ti = tool) (se_tools entry) = Some info"
  shows "Pre s (cacheStore rt mx c server tool info fa r s)"
proof (cases "cacheActive mx info \<and> \<not> cr_IsError r")
  case True
  then have act: "cacheActive mx info" and ok: "\<not> cr_IsError r" by auto
  obtain ttl warned warning
    where ttl: "toolTTL (rt_ParseDuration rt) info (o_cacheTTL (mx_opts mx)) (st_ttlWarned s) = (ttl, warned, warning)"
    by (metis prod_cases3)
  have set: "Pre t (cacheSet rt cr c key r ttl t)" for cr key t
    by (auto simp: cacheSet_def Let_def pre_refl split: cacheRef.split
          intro: pre_trans [OF pre_cache_set [OF act assms(2,1) ok] pre_env]
                 pre_trans [OF pre_cache_set [OF act assms(2,1) ok] pre_cache])
  show ?thesis
  proof (cases warning)
    case None
    with ttl True show ?thesis
      by (simp add: cacheStore_def pre_trans [OF pre_ttl set])
  next
    case (Some fs)
    with ttl have "toolTTL (rt_ParseDuration rt) info (o_cacheTTL (mx_opts mx)) (st_ttlWarned s) = (ttl, warned, Some fs)"
      by simp
    note w = pre_trans [OF pre_warn_ttl [OF act assms(2,1) this] pre_env]
    from ttl True Some show ?thesis
      by (simp add: cacheStore_def log_at_def pre_trans [OF w set])
  qed
next
  case False
  then show ?thesis by (auto simp: cacheStore_def pre_refl)
qed

lemma post_panic_pre: "Pre s s' \<Longrightarrow> Post s (Panic, s')"
  by (rule post_pre [OF _ post_panic])

lemma post_finishRecorded_pre:
  "Pre s s' \<Longrightarrow> callErr = None \<longrightarrow> result \<noteq> None \<Longrightarrow>
   Post s (finishRecorded rt mx c server tool info args result callErr d rd s')"
  by (rule post_pre [OF _ post_finishRecorded])

lemma post_finish_pre:
  "Pre s s' \<Longrightarrow> callErr = None \<longrightarrow> result \<noteq> None \<Longrightarrow>
   Post s (finish mx c server tool info args result callErr d s')"
  by (rule post_pre [OF _ post_finish])

lemma post_rejectCall: "Post s (rejectCall rt mx c server tool info args reason e start s)"
  by (simp add: rejectCall_def Let_def post_finishRecorded_pre pre_fireRejected)

lemma post_afterUpstream:
  assumes "gm_get (mx_servers mx) server = Some entry" "find (\<lambda>ti. ti_Name ti = tool) (se_tools entry) = Some info"
  shows "Post s (afterUpstream rt mx c server tool info fa r d s)"
  unfolding afterUpstream_def
  by (auto simp: Let_def split: prod.split outcome.split option.split dest!: pre_runTransforms
        intro!: post_panic_pre post_finishRecorded_pre pre_trans [OF _ pre_cacheStore [OF assms]])

lemma post_upstream:
  assumes "gm_get (mx_servers mx) server = Some entry" "find (\<lambda>ti. ti_Name ti = tool) (se_tools entry) = Some info"
  shows "Post s (upstream rt mx entry c server tool info arguments fa start s)"
proof (cases "se_session entry")
  case (Some sess)
  have up: "Pre s ((emit (EvUpstream sess ctx tool arguments) s)\<lparr>st_env := w\<rparr>)" for ctx w
    by (rule pre_emit_env [OF pre_upstream])
  have lg: "Pre s t \<Longrightarrow> Pre s (log_at (mx_opts mx) Error msg [F ''server'' (FStr server), F ''tool'' (FStr tool), F ''error'' (FErr e)] t)"
    for t e msg
    by (rule pre_trans) (auto simp: log_at_def Let_def intro: pre_emit_env [OF pre_log_failed])
  show ?thesis
    unfolding upstream_def
    by (auto simp: Some Let_def split: prod.split option.split
          intro!: post_finishRecorded_pre post_pre [OF up post_afterUpstream [OF assms]] lg up)
qed (simp add: upstream_def post_panic)

lemma post_afterArgs:
  assumes "gm_get (mx_servers mx) server = Some entry" "find (\<lambda>ti. ti_Name ti = tool) (se_tools entry) = Some info"
  shows "Post s (afterArgs rt mx entry c server tool info arguments fa start s)"
proof -
  have "Post t (dispatch rt mx entry c' server tool info arguments fa start t)" for t c'
    unfolding dispatch_def
    by (auto split: prod.split option.split dest!: pre_cacheLookup [OF _ assms]
          intro: post_finish_pre post_pre [OF _ post_upstream [OF assms]])
  then show ?thesis
    unfolding afterArgs_def
    by (auto simp: Let_def split: prod.split outcome.split before_result.split dest!: pre_runBefore
          intro: post_panic_pre post_finish_pre pre_trans [OF _ pre_fireRejected] post_pre)
qed

lemma post_CallTool: "Post s (CallTool rt mx c server tool args s)"
proof (cases "gm_get (mx_servers mx) server")
  case (Some entry)
  show ?thesis
  proof (cases "find (\<lambda>ti. ti_Name ti = tool) (se_tools entry)")
    case (Some info)
    note here = \<open>gm_get (mx_servers mx) server = Some entry\<close> Some
    have bad: "prepareArgs rt mx entry args = Inl e \<Longrightarrow> ?thesis" for e
      by (simp add: CallTool_def Let_def here post_rejectCall)
    have good: "?thesis" if "prepareArgs rt mx entry args = Inr (arguments, fa)" for arguments fa
      using that post_pre [OF pre_logCall post_rejectCall] post_pre [OF pre_logCall post_afterArgs [OF here]]
      by (simp add: CallTool_def Let_def here post_rejectCall)
    from bad good show ?thesis
      by (cases "prepareArgs rt mx entry args") auto
  qed (simp add: CallTool_def Let_def Some post_rejectCall)
qed (simp add: CallTool_def Let_def post_rejectCall)

end

section \<open>Specifications carried through a call\<close>

subsection \<open>Every AfterCall hook sees the returned error\<close>

lemma finish_frame:
  "KAfter \<notin> K \<Longrightarrow> traced K (snd (finish mx c server tool info args result e d s)) = traced K s"
  by (auto simp: finish_def runAfterCall_def split: prod.split outcome.split dest: runAfterHooks_frame)

lemma finishRecorded_frame:
  "KAfter \<notin> K \<Longrightarrow> KRecordCall \<notin> K \<Longrightarrow>
   traced K (snd (finishRecorded rt mx c server tool info args result e d rd s)) = traced K s"
  by (auto simp: finishRecorded_def runAfterCall_def Let_def split: prod.split outcome.split
        dest: runAfterHooks_frame)

definition after_post :: "'w mx \<Rightarrow> 'w st \<Rightarrow> 'w call_outcome \<Rightarrow> bool" where
  "after_post mx s r = (case r of
      (Panic, s') \<Rightarrow> True
    | (Ret (res, e), s') \<Rightarrow> map after_err (traced {KAfter} s') =
        map after_err (traced {KAfter} s) @ replicate (length (o_afterCall (mx_opts mx))) e)"

lemma finish_after: "after_post mx s (finish mx c server tool info args result e d s)"
  by (auto simp: after_post_def finish_def runAfterCall_def split: prod.splits outcome.splits
        dest: runAfterHooks_errs)

lemma finishRecorded_after:
  "after_post mx s (finishRecorded rt mx c server tool info args result e d rd s)"
  by (auto simp: after_post_def finishRecorded_def runAfterCall_def Let_def
        split: prod.splits outcome.splits dest: runAfterHooks_errs)

interpretation afters: call_spec rt mx server tool
  "\<lambda>s s'. traced {KAfter} s' = traced {KAfter} s" "after_post mx" for rt mx server tool
  by unfold_locales
     (simp_all add: finish_after finishRecorded_after, auto simp: after_post_def split: outcome.splits)

text \<open>
  C8. Every call that returns has run every AfterCall hook exactly once, whatever path it
  took (rejected, aborted, short-circuited, cached, failed upstream, successful), and each
  hook was given exactly the error the caller gets.\<close>

theorem CallTool_runs_after_hooks:
  assumes "CallTool rt mx c server tool args s = (Ret (r, e), s')"
  shows "map after_err (traced {KAfter} s') =
         map after_err (traced {KAfter} s) @ replicate (length (o_afterCall (mx_opts mx))) e"
  using afters.post_CallTool [of mx s rt c server tool args] assms by (simp add: after_post_def)

subsection \<open>What the events of a call may be\<close>

definition extends :: "(event \<Rightarrow> bool) \<Rightarrow> 'w st \<Rightarrow> 'w st \<Rightarrow> bool" where
  "extends P s s' \<longleftrightarrow> (\<exists>evs. st_trace s' = st_trace s @ evs \<and> list_all P evs)"

lemma extends_refl [simp]: "extends P s s"
  by (simp add: extends_def)

lemma extends_trans [trans]: "extends P s s1 \<Longrightarrow> extends P s1 s2 \<Longrightarrow> extends P s s2"
  by (fastforce simp: extends_def)

lemma extends_same [simp]:
  "extends P s (s'\<lparr>st_env := w\<rparr>) = extends P s s'" "extends P s (s'\<lparr>st_cache := lc\<rparr>) = extends P s s'"
  "extends P s (s'\<lparr>st_ttlWarned := ws\<rparr>) = extends P s s'"
  "extends P s (s'\<lparr>st_scopeWarned := b\<rparr>) = extends P s s'"
  by (simp_all add: extends_def)

lemma extends_emit: "P ev \<Longrightarrow> extends P s s' \<Longrightarrow> extends P s (emit ev s')"
  by (fastforce simp: extends_def)

lemma extends_runAfterHooks:
  "runAfterHooks hooks c server tool info args result e d s = (res, s') \<Longrightarrow>
   (\<And>r. P (EvAfter c server tool info args r e d)) \<Longrightarrow> extends P s s'"
proof (induction hooks arbitrary: result s)
  case (Cons hook hooks)
  let ?s = "emit (EvAfter c server tool info args result e d) s"
  have last: "extends P s (?s\<lparr>st_env := w\<rparr>)" for w
    by (simp add: extends_emit Cons.prems(2))
  have more: "runAfterHooks hooks c server tool info args r' e d (?s\<lparr>st_env := w\<rparr>) = (res, s') \<Longrightarrow> extends P s s'"
    for r' w
    using extends_trans [OF last Cons.IH [OF _ Cons.prems(2)]] by simp
  from Cons.prems(1) show ?case
    by (auto simp: Let_def Cons.prems(2) split: prod.splits outcome.splits intro: more intro!: extends_emit)
qed simp

lemma extends_finish:
  "(\<And>r. P (EvAfter c server tool info args r e d)) \<Longrightarrow>
   extends P s (snd (finish mx c server tool info args result e d s))"
  by (auto simp: finish_def runAfterCall_def split: prod.split outcome.split intro: extends_runAfterHooks)

lemma extends_finishRecorded:
  "(\<And>r. P (EvAfter c server tool info args r e d)) \<Longrightarrow> (\<And>d e. P (EvRecordCall server tool d e)) \<Longrightarrow>
   extends P s (snd (finishRecorded rt mx c server tool info args result e d rd s))"
  unfolding finishRecorded_def runAfterCall_def
  by (auto simp: Let_def safeRecordCall_def split: prod.split outcome.split
        intro!: extends_emit intro: extends_runAfterHooks)

text \<open>A condition on single events, as a special case of the specification of a call.\<close>

locale event_spec =
  fixes rt :: "'w rt" and mx :: "'w mx" and server :: string and tool :: string
    and P :: "event \<Rightarrow> bool"
  assumes ev_before: "P (EvBefore c server tool info args)"
    and ev_after: "P (EvAfter c server tool info args result callErr d)"
    and ev_reject: "P (EvReject c server tool reason e)"
    and ev_transform: "P (EvTransform c server tool info r)"
    and ev_record: "P (EvRecordCall server tool d callErr)"
    and ev_upstream: "P (EvUpstream sess c tool arguments)"
    and ev_debug: "P (EvLog Debug msg fs)"
    and ev_failed: "P (EvLog Error msg [F ''server'' (FStr server), F ''tool'' (FStr tool), F ''error'' (FErr e)])"
    and ev_warn_scope: "P (EvLog Warn msg [])"
    and ev_warn_ttl: "toolTTL (rt_ParseDuration rt) info (o_cacheTTL (mx_opts mx)) ws = (ttl, ws', Some fs) \<Longrightarrow>
          P (EvLog Warn msg fs)"
    and ev_cache_get: "cacheActive mx info \<Longrightarrow> find (\<lambda>ti. ti_Name ti = tool) (se_tools entry) = Some info \<Longrightarrow>
          gm_get (mx_servers mx) server = Some entry \<Longrightarrow> P (EvCacheGet key)"
    and ev_cache_set: "cacheActive mx info \<Longrightarrow> find (\<lambda>ti. ti_Name ti = tool) (se_tools entry) = Some info \<Longrightarrow>
          gm_get (mx_servers mx) server = Some entry \<Longrightarrow> \<not> cr_IsError r \<Longrightarrow> P (EvCacheSet key r ttl)"

sublocale event_spec \<subseteq> ev: call_spec rt mx server tool "extends P" "\<lambda>s out. extends P s (snd out)"
  by unfold_locales
     (auto simp: ev_before ev_after ev_reject ev_transform ev_record ev_upstream ev_debug ev_failed
         ev_warn_scope ev_warn_ttl ev_cache_get ev_cache_set
       intro: extends_emit extends_trans extends_finish extends_finishRecorded)

context event_spec
begin

lemma CallTool_events:
  assumes "CallTool rt mx c server tool args s = (out, s')"
  obtains evs where "st_trace s' = st_trace s @ evs" "list_all P evs"
  using ev.post_CallTool [of s c args] assms by (auto simp: extends_def)

end

text \<open>
  Log lines above Debug level name the server, the tool, the error or the bad cache
  setting, and never the arguments of the call.
\<close>

definition private_fields :: "Field list \<Rightarrow> bool" where
  "private_fields = list_all (\<lambda>(k, v). k \<in> set [''server'', ''tool'', ''error'', ''value''] \<and>
                                     (case v of FArgs _ \<Rightarrow> False | _ \<Rightarrow> True))"

fun log_private :: "event \<Rightarrow> bool" where
  "log_private (EvLog lvl msg fs) \<longleftrightarrow> lvl = Debug \<or> private_fields fs"
| "log_private _ = True"

lemma toolTTL_fields: "toolTTL parse info def ws = (ttl, ws', Some fs) \<Longrightarrow> private_fields fs"
  by (auto simp: toolTTL_def private_fields_def Let_def split: option.splits if_splits any.splits)

lemma private_fields_step:
  "private_fields []"
  "private_fields ((k, v) # fs) \<longleftrightarrow> k \<in> set [''server'', ''tool'', ''error'', ''value''] \<and>
     (case v of FArgs _ \<Rightarrow> False | _ \<Rightarrow> True) \<and> private_fields fs"
  by (simp_all add: private_fields_def)

interpretation logs: event_spec rt mx server tool log_private for rt mx server tool
  by unfold_locales (auto simp: F_def private_fields_step dest: toolTTL_fields)

text \<open>
  C26. No call writes its arguments to a log above Debug level: of everything \<open>CallTool\<close>
  logs at Info, Warn or Error, every field is called server, tool, error or value and none
  holds the argument map.\<close>

theorem CallTool_logs_private:
  "\<exists>evs. st_trace (snd (CallTool rt mx c server tool args s)) = st_trace s @ evs \<and> list_all log_private evs"
  using logs.CallTool_events [of rt mx c server tool args s]
  by (metis prod.collapse)

text \<open>A cache access belongs to a tool the cache may serve, and only good results are stored.\<close>

definition may_cache :: "'w mx \<Rightarrow> ToolInfo \<Rightarrow> bool" where
  "may_cache mx info \<longleftrightarrow> \<not> o_cacheDisabled (mx_opts mx) \<and> \<not> ti_Destructive info \<and>
     (ti_ReadOnly info \<and> ti_Idempotent info \<or> gm_get (ti_Custom info) ''cacheable'' = Some ''true'')"

lemma cacheActive_may_cache: "cacheActive mx info \<Longrightarrow> may_cache mx info"
  by (auto simp: cacheActive_def activeCache_def isCacheable_def may_cache_def split: if_splits cacheRef.splits)

fun cache_sound :: "'w mx \<Rightarrow> string \<Rightarrow> string \<Rightarrow> event \<Rightarrow> bool" where
  "cache_sound mx server tool (EvCacheGet key) \<longleftrightarrow>
     (\<exists>entry info. gm_get (mx_servers mx) server = Some entry \<and>
        find (\<lambda>ti. ti_Name ti = tool) (se_tools entry) = Some info \<and> may_cache mx info)"
| "cache_sound mx server tool (EvCacheSet key r ttl) \<longleftrightarrow> \<not> cr_IsError r \<and>
     (\<exists>entry info. gm_get (mx_servers mx) server = Some entry \<and>
        find (\<lambda>ti. ti_Name ti = tool) (se_tools entry) = Some info \<and> may_cache mx info)"
| "cache_sound mx server tool _ = True"

interpretation cache_use: event_spec rt mx server tool "cache_sound mx server tool" for rt mx server tool
  by unfold_locales (auto dest: cacheActive_may_cache)

text \<open>
  C3. A call never reads or writes the cache when caching is disabled, or for a tool that is
  destructive, or for one that is neither read-only and idempotent nor opted in with
  \<open>cacheable=true\<close>, and never stores a result with \<open>IsError\<close> set: every cache access
  of a call is for the tool the server lists under that name, under these conditions.\<close>

theorem CallTool_cache_sound:
  "\<exists>evs. st_trace (snd (CallTool rt mx c server tool args s)) = st_trace s @ evs \<and>
         list_all (cache_sound mx server tool) evs"
  using cache_use.CallTool_events [of rt mx c server tool args s]
  by (metis prod.collapse)

section \<open>The path of a call\<close>

lemma warnScope_frame: "KLog \<notin> K \<Longrightarrow> traced K (warnScope mx c s) = traced K s"
  by (simp add: warnScope_def)

lemma cacheLookup_frame:
  "cacheLookup rt mx c server tool info fa s = (r, s') \<Longrightarrow> KLog \<notin> K \<Longrightarrow> KCacheGet \<notin> K \<Longrightarrow>
   traced K s' = traced K s"
  by (auto simp: cacheLookup_def cacheGet_def Let_def warnScope_frame
        split: if_splits cacheRef.splits prod.splits)

lemma cacheStore_frame:
  "KLog \<notin> K \<Longrightarrow> KCacheSet \<notin> K \<Longrightarrow> traced K (cacheStore rt mx c server tool info fa r s) = traced K s"
  by (auto simp: cacheStore_def cacheSet_def Let_def split: cacheRef.splits prod.splits option.splits)

lemma logCall_frame: "KLog \<notin> K \<Longrightarrow> traced K (logCall mx server tool arguments s) = traced K s"
  by (simp add: logCall_def split: option.split)

lemma afterUpstream_frame:
  assumes "K \<inter> {KTransform, KAfter, KRecordCall, KCacheSet, KLog} = {}"
  shows "traced K (snd (afterUpstream rt mx c server tool info fa r d s)) = traced K s"
  using assms
  by (auto simp: afterUpstream_def Let_def finishRecorded_frame cacheStore_frame
        split: prod.split outcome.split option.split dest: runTransforms_frame)

text \<open>Everything after the BeforeCall chain is at most one upstream call as far as \<open>K\<close> sees.\<close>

lemma upstream_traced:
  assumes "K \<inter> {KTransform, KAfter, KRecordCall, KCacheSet, KLog} = {}" "KUpstream \<in> K"
  shows "traced K (snd (upstream rt mx entry c server tool info arguments fa start s)) = traced K s @
    (case se_session entry of None \<Rightarrow> []
     | Some sess \<Rightarrow> [EvUpstream sess (ctx_WithTimeout c (rt_now rt (st_env s))
          (effectiveTimeout (sc_CallTimeout (se_config entry)) (o_callTimeout (mx_opts mx)))) tool arguments])"
  using assms
  by (auto simp: upstream_def Let_def finishRecorded_frame afterUpstream_frame
        split: prod.split option.split)

text \<open>The call passes every check: what it then works with.\<close>

definition checked ::
  "'w rt \<Rightarrow> 'w mx \<Rightarrow> string \<Rightarrow> string \<Rightarrow> bytes \<Rightarrow> serverEntry \<Rightarrow> ToolInfo \<Rightarrow> args option \<Rightarrow> bytes \<Rightarrow> bool" where
  "checked rt mx server tool args entry info arguments fa \<longleftrightarrow>
     gm_get (mx_servers mx) server = Some entry \<and> se_state entry \<noteq> ServerStateDown \<and>
     find (\<lambda>ti. ti_Name ti = tool) (se_tools entry) = Some info \<and>
     prepareArgs rt mx entry args = Inr (arguments, fa) \<and> schemaErrors rt mx info fa = []"

text \<open>
  The conditions under which a call gets to the server, the context \<open>c'\<close> the hooks leave and
  the clock \<open>now\<close> that is read after the cache was asked.
\<close>

definition admitted ::
  "'w rt \<Rightarrow> 'w mx \<Rightarrow> ctx \<Rightarrow> string \<Rightarrow> string \<Rightarrow> bytes \<Rightarrow> 'w st \<Rightarrow>
   serverEntry \<Rightarrow> session \<Rightarrow> args option \<Rightarrow> ctx \<Rightarrow> gotime \<Rightarrow> bool" where
  "admitted rt mx c server tool args s entry sess arguments c' now \<longleftrightarrow>
     (\<exists>info fa s1 s2. checked rt mx server tool args entry info arguments fa \<and> se_session entry = Some sess \<and>
        runBefore (o_beforeCall (mx_opts mx)) c server tool info fa (logCall mx server tool arguments s)
          = (Ret (BContinue c'), s1) \<and>
        cacheLookup rt mx c' server tool info fa s1 = (None, s2) \<and> now = rt_now rt (st_env s2))"

lemma rejectCall_frame:
  "K \<inter> {KReject, KAfter, KRecordCall} = {} \<Longrightarrow>
   traced K (snd (rejectCall rt mx c server tool info args reason e start s)) = traced K s"
  by (simp add: rejectCall_def Let_def finishRecorded_frame)

abbreviation sent ::
  "'w mx \<Rightarrow> serverEntry \<Rightarrow> session \<Rightarrow> ctx \<Rightarrow> gotime \<Rightarrow> string \<Rightarrow> args option \<Rightarrow> event" where
  "sent mx entry sess c now tool arguments \<equiv>
     EvUpstream sess (ctx_WithTimeout c now
       (effectiveTimeout (sc_CallTimeout (se_config entry)) (o_callTimeout (mx_opts mx)))) tool arguments"

lemma dispatch_upstream:
  "traced {KUpstream} (snd (dispatch rt mx entry c server tool info arguments fa start s)) =
   traced {KUpstream} s @
     (case cacheLookup rt mx c server tool info fa s of
        (None, s2) \<Rightarrow>
          (case se_session entry of None \<Rightarrow> []
           | Some sess \<Rightarrow> [sent mx entry sess c (rt_now rt (st_env s2)) tool arguments])
      | _ \<Rightarrow> [])"
proof (cases "cacheLookup rt mx c server tool info fa s")
  case (Pair res s2)
  with cacheLookup_frame [OF Pair] show ?thesis
    by (cases res) (simp_all add: dispatch_def finish_frame upstream_traced)
qed

lemma afterArgs_upstream:
  "traced {KUpstream} (snd (afterArgs rt mx entry c server tool info arguments fa start s)) =
   traced {KUpstream} s @
     (case runBefore (o_beforeCall (mx_opts mx)) c server tool info fa s of
        (Ret (BContinue c'), s1) \<Rightarrow>
          (case cacheLookup rt mx c' server tool info fa s1 of
             (None, s2) \<Rightarrow>
               (case se_session entry of None \<Rightarrow> []
                | Some sess \<Rightarrow> [sent mx entry sess c' (rt_now rt (st_env s2)) tool arguments])
           | _ \<Rightarrow> [])
      | _ \<Rightarrow> [])"
proof (cases "runBefore (o_beforeCall (mx_opts mx)) c server tool info fa s")
  case (Pair res s1)
  with runBefore_frame [OF Pair] show ?thesis
    by (cases res) (auto simp: afterArgs_def Let_def finish_frame dispatch_upstream split: before_result.split)
qed

lemma CallTool_checked:
  assumes "checked rt mx server tool args entry info arguments fa"
  shows "CallTool rt mx c server tool args s =
    afterArgs rt mx entry c server tool info arguments fa (rt_now rt (st_env s))
      (logCall mx server tool arguments s)"
  using assms by (simp add: checked_def CallTool_def Let_def)

lemma CallTool_stages:
  assumes "gm_get (mx_servers mx) server = Some entry" "se_state entry \<noteq> ServerStateDown"
    and "find (\<lambda>ti. ti_Name ti = tool) (se_tools entry) = Some info"
    and "prepareArgs rt mx entry args = Inr (arguments, fa)" "schemaErrors rt mx info fa = []"
  shows "CallTool rt mx c server tool args s =
    afterArgs rt mx entry c server tool info arguments fa (rt_now rt (st_env s))
      (logCall mx server tool arguments s)"
  using assms by (simp add: CallTool_def Let_def)

lemma unadmitted_not_sent:
  "(\<nexists>entry sess arguments c' now. admitted rt mx c server tool args s entry sess arguments c' now) \<Longrightarrow>
   traced {KUpstream} (snd (CallTool rt mx c server tool args s)) = traced {KUpstream} s"
  by (auto simp: admitted_def checked_def CallTool_def Let_def rejectCall_frame afterArgs_upstream logCall_frame
        split: prod.splits option.splits sum.splits outcome.splits before_result.splits)

text \<open>
  C1. A call reaches the server at most once, and exactly when the server is registered,
  not down and has a session, lists the tool, the arguments are valid, every BeforeCall hook
  let the call continue and the cache had no answer. What is sent are the transformed
  arguments, under the context the hooks left, with a deadline that is the time right after
  the cache was asked plus the timeout of the server, or the general one if the server has
  none, or an earlier deadline of that context.\<close>

theorem CallTool_upstream:
  "(\<exists>entry sess arguments c' now. admitted rt mx c server tool args s entry sess arguments c' now \<and>
      traced {KUpstream} (snd (CallTool rt mx c server tool args s)) = traced {KUpstream} s @
        [EvUpstream sess (ctx_WithTimeout c' now
           (if 0 < sc_CallTimeout (se_config entry) then sc_CallTimeout (se_config entry) else o_callTimeout (mx_opts mx)))
           tool arguments]) \<or>
   (\<nexists>entry sess arguments c' now. admitted rt mx c server tool args s entry sess arguments c' now) \<and>
      traced {KUpstream} (snd (CallTool rt mx c server tool args s)) = traced {KUpstream} s"
proof (cases "\<exists>entry sess arguments c' now. admitted rt mx c server tool args s entry sess arguments c' now")
  case True
  then obtain entry sess arguments c' now where adm: "admitted rt mx c server tool args s entry sess arguments c' now"
    by blast
  then have "traced {KUpstream} (snd (CallTool rt mx c server tool args s)) =
      traced {KUpstream} s @ [sent mx entry sess c' now tool arguments]"
    by (auto simp: admitted_def CallTool_checked afterArgs_upstream logCall_frame)
  with adm show ?thesis unfolding effectiveTimeout_def by blast
qed (use unadmitted_not_sent in blast)

section \<open>Rejected calls\<close>

fun reason_matches :: "RejectReason \<Rightarrow> err \<Rightarrow> bool" where
  "reason_matches RejectUnknownServer e \<longleftrightarrow> errors_Is e ErrServerNotFound"
| "reason_matches RejectUnknownTool e \<longleftrightarrow> errors_Is e ErrToolNotFound"
| "reason_matches RejectServerDown e \<longleftrightarrow> errors_Is e ErrServerDown"
| "reason_matches RejectInvalidArgs e \<longleftrightarrow>
     (case e of ErrInvalidArgs bad schema \<Rightarrow> bad \<noteq> [] \<or> schema \<noteq> [] | InvalidArgsJSON _ \<Rightarrow> True | _ \<Rightarrow> False)"
| "reason_matches RejectBeforeHookAbort e \<longleftrightarrow> True"

text \<open>Which check refuses the call, for every reason, and with which error.\<close>

fun refused ::
  "'w rt \<Rightarrow> 'w mx \<Rightarrow> ctx \<Rightarrow> string \<Rightarrow> string \<Rightarrow> bytes \<Rightarrow> 'w st \<Rightarrow> RejectReason \<Rightarrow> err \<Rightarrow> bool" where
  "refused rt mx c server tool args s RejectUnknownServer e \<longleftrightarrow> gm_get (mx_servers mx) server = None"
| "refused rt mx c server tool args s RejectUnknownTool e \<longleftrightarrow>
     (\<exists>entry. gm_get (mx_servers mx) server = Some entry \<and> tool \<notin> ti_Name ` set (se_tools entry))"
| "refused rt mx c server tool args s RejectServerDown e \<longleftrightarrow>
     (\<exists>entry. gm_get (mx_servers mx) server = Some entry \<and> tool \<in> ti_Name ` set (se_tools entry) \<and>
        se_state entry = ServerStateDown)"
| "refused rt mx c server tool args s RejectInvalidArgs e \<longleftrightarrow>
     (\<exists>entry info. gm_get (mx_servers mx) server = Some entry \<and> se_state entry \<noteq> ServerStateDown \<and>
        find (\<lambda>ti. ti_Name ti = tool) (se_tools entry) = Some info \<and>
        (prepareArgs rt mx entry args = Inl e \<or>
         (\<exists>arguments fa. prepareArgs rt mx entry args = Inr (arguments, fa) \<and> schemaErrors rt mx info fa \<noteq> [] \<and>
            e = ErrInvalidArgs [] (schemaErrors rt mx info fa))))"
| "refused rt mx c server tool args s RejectBeforeHookAbort e \<longleftrightarrow>
     (\<exists>entry info arguments fa c' s1. checked rt mx server tool args entry info arguments fa \<and>
        runBefore (o_beforeCall (mx_opts mx)) c server tool info fa (logCall mx server tool arguments s)
          = (Ret (BAbort c' e), s1))"

text \<open>The call passes every check and is answered by a BeforeCall hook or by the cache.\<close>

definition answered :: "'w rt \<Rightarrow> 'w mx \<Rightarrow> ctx \<Rightarrow> string \<Rightarrow> string \<Rightarrow> bytes \<Rightarrow> 'w st \<Rightarrow> bool" where
  "answered rt mx c server tool args s \<longleftrightarrow>
     (\<exists>entry info arguments fa c' s1. checked rt mx server tool args entry info arguments fa \<and>
        ((\<exists>r. runBefore (o_beforeCall (mx_opts mx)) c server tool info fa (logCall mx server tool arguments s)
                = (Ret (BShort c' r), s1)) \<or>
         runBefore (o_beforeCall (mx_opts mx)) c server tool info fa (logCall mx server tool arguments s)
           = (Ret (BContinue c'), s1) \<and>
         fst (cacheLookup rt mx c' server tool info fa s1) \<noteq> None))"

lemma finish_result:
  "finish mx c server tool info args result callErr d s = (Ret (r, e), s') \<Longrightarrow>
   e = callErr \<and> (callErr \<noteq> None \<longrightarrow> r = None)"
  by (auto simp: finish_def split: prod.splits outcome.splits if_splits)

lemma finishRecorded_result:
  "finishRecorded rt mx c server tool info args result callErr d rd s = (Ret (r, e), s') \<Longrightarrow>
   e = callErr \<and> (callErr \<noteq> None \<longrightarrow> r = None)"
  by (auto simp: finishRecorded_def Let_def split: prod.splits outcome.splits if_splits)

lemma runAfterHooks_Some:
  "runAfterHooks hooks c server tool info args (Some x) e d s = (Ret r, s') \<Longrightarrow> r \<noteq> None"
  by (induction hooks arbitrary: x s) (auto simp: Let_def split: prod.splits outcome.splits option.splits)

text \<open>How each of the three ways ends, as the rejection callback and the server see it.\<close>

lemma rejectCall_ends:
  assumes "o_onRejectedCall (mx_opts mx) \<noteq> None"
    and "rejectCall rt mx c server tool info args reason err start s = (Ret (r, e), s')"
  shows "traced {KReject, KUpstream} s' = traced {KReject, KUpstream} s @ [EvReject c server tool reason err]"
    and "e = Some err" "r = None"
proof -
  have "traced {KReject, KUpstream} (snd (rejectCall rt mx c server tool info args reason err start s)) =
      traced {KReject, KUpstream} s @ [EvReject c server tool reason err]"
    using assms(1) by (simp add: rejectCall_def Let_def finishRecorded_frame)
  with assms(2) show "traced {KReject, KUpstream} s' = traced {KReject, KUpstream} s @ [EvReject c server tool reason err]"
    by simp
  show "e = Some err" "r = None"
    using assms(2) by (auto simp: rejectCall_def Let_def dest: finishRecorded_result)
qed

lemma abort_ends:
  assumes "o_onRejectedCall (mx_opts mx) \<noteq> None"
    and "finish mx c server tool info fa None (Some err) d (fireRejected mx c server tool reason err s) = (Ret (r, e), s')"
  shows "traced {KReject, KUpstream} s' = traced {KReject, KUpstream} s @ [EvReject c server tool reason err]"
    and "e = Some err" "r = None"
  using assms finish_frame [of "{KReject, KUpstream}" mx c server tool info fa None "Some err" d "fireRejected mx c server tool reason err s"]
  by (auto dest: finish_result)

lemma answer_ends:
  assumes "finish mx c server tool info fa (Some x) None d s = (Ret (r, e), s')"
  shows "traced {KReject, KUpstream} s' = traced {KReject, KUpstream} s" "e = None" "r \<noteq> None"
  using assms finish_frame [of "{KReject, KUpstream}" mx c server tool info fa "Some x" None d s]
    runAfterHooks_Some [of "o_afterCall (mx_opts mx)" c server tool info fa x None d s]
  by (auto simp: finish_def runAfterCall_def split: prod.splits outcome.splits)

lemma upstream_ends:
  assumes "upstream rt mx entry c server tool info arguments fa start s = (Ret (r, e), s')"
  shows "\<exists>sess. se_session entry = Some sess \<and>
    traced {KReject, KUpstream} s' = traced {KReject, KUpstream} s @ [sent mx entry sess c (rt_now rt (st_env s)) tool arguments]"
proof (cases "se_session entry")
  case None
  with assms show ?thesis by (simp add: upstream_def Let_def)
next
  case (Some sess)
  with assms upstream_traced [of "{KReject, KUpstream}" rt mx entry c server tool info arguments fa start s] show ?thesis by simp
qed

lemma prepareArgs_reason: "prepareArgs rt mx entry args = Inl e \<Longrightarrow> reason_matches RejectInvalidArgs e"
  by (auto simp: prepareArgs_def Let_def split: if_splits sum.splits)

lemma find_name_iff: "find (\<lambda>ti. ti_Name ti = tool) ts = None \<longleftrightarrow> tool \<notin> ti_Name ` set ts"
  by (induction ts) auto

text \<open>The call that passes the checks.\<close>

lemma checked_ends:
  assumes cb: "o_onRejectedCall (mx_opts mx) \<noteq> None" and ok: "checked rt mx server tool args entry info arguments fa"
    and call: "CallTool rt mx c server tool args s = (Ret (r, e), s')"
  shows "answered rt mx c server tool args s \<and> traced {KReject, KUpstream} s' = traced {KReject, KUpstream} s \<and> e = None \<and> r \<noteq> None \<or>
    (\<exists>c' err. refused rt mx c server tool args s RejectBeforeHookAbort err \<and>
       traced {KReject, KUpstream} s' = traced {KReject, KUpstream} s @ [EvReject c' server tool RejectBeforeHookAbort err] \<and>
       e = Some err \<and> r = None) \<or>
    (\<exists>sess c' now. admitted rt mx c server tool args s entry sess arguments c' now \<and>
       traced {KReject, KUpstream} s' = traced {KReject, KUpstream} s @ [sent mx entry sess c' now tool arguments])"
proof -
  let ?s = "logCall mx server tool arguments s"
  have log: "traced {KReject, KUpstream} ?s = traced {KReject, KUpstream} s" by (simp add: logCall_frame)
  obtain res s1 where b: "runBefore (o_beforeCall (mx_opts mx)) c server tool info fa ?s = (res, s1)" by fastforce
  then have fr: "traced {KReject, KUpstream} s1 = traced {KReject, KUpstream} s"
    using runBefore_frame [OF b, of "{KReject, KUpstream}"] log by auto
  have run: "afterArgs rt mx entry c server tool info arguments fa (rt_now rt (st_env s)) ?s = (Ret (r, e), s')"
    using call by (simp add: CallTool_checked [OF ok])
  then obtain br where br: "res = Ret br" using b by (cases res) (auto simp: afterArgs_def)
  show ?thesis
  proof (cases br)
    case (BAbort c' err)
    with run b br have "\<exists>d. finish mx c' server tool info fa None (Some err) d
        (fireRejected mx c' server tool RejectBeforeHookAbort err s1) = (Ret (r, e), s')"
      by (auto simp: afterArgs_def Let_def)
    then obtain d where "finish mx c' server tool info fa None (Some err) d
        (fireRejected mx c' server tool RejectBeforeHookAbort err s1) = (Ret (r, e), s')" ..
    note ends = abort_ends [OF cb this]
    have "refused rt mx c server tool args s RejectBeforeHookAbort err"
      using ok b br BAbort unfolding refused.simps by blast
    with ends fr show ?thesis by auto
  next
    case (BShort c' x)
    with run b br have "finish mx c' server tool info fa (Some x) None (since rt (rt_now rt (st_env s)) s1) s1 = (Ret (r, e), s')"
      by (simp add: afterArgs_def Let_def)
    note ends = answer_ends [OF this]
    have "answered rt mx c server tool args s"
      using ok b br BShort unfolding answered_def by blast
    with ends fr show ?thesis by auto
  next
    case (BContinue c')
    obtain hit s2 where l: "cacheLookup rt mx c' server tool info fa s1 = (hit, s2)" by fastforce
    have fr2: "traced {KReject, KUpstream} s2 = traced {KReject, KUpstream} s"
      using cacheLookup_frame [OF l, of "{KReject, KUpstream}"] fr by auto
    show ?thesis
    proof (cases hit)
      case None
      with run b br BContinue l have
        "upstream rt mx entry c' server tool info arguments fa (rt_now rt (st_env s)) s2 = (Ret (r, e), s')"
        by (simp add: afterArgs_def dispatch_def)
      from upstream_ends [OF this] obtain sess where sess: "se_session entry = Some sess"
          "traced {KReject, KUpstream} s' = traced {KReject, KUpstream} s2 @ [sent mx entry sess c' (rt_now rt (st_env s2)) tool arguments]"
        by blast
      moreover have "admitted rt mx c server tool args s entry sess arguments c' (rt_now rt (st_env s2))"
        using ok b br BContinue l None sess(1) unfolding admitted_def by blast
      ultimately show ?thesis using fr2 by auto
    next
      case (Some x)
      with run b br BContinue l have "finish mx (markCacheHit c') server tool info fa (Some x) None
          (since rt (rt_now rt (st_env s)) s2) s2 = (Ret (r, e), s')"
        by (simp add: afterArgs_def dispatch_def)
      note ends = answer_ends [OF this]
      have "fst (cacheLookup rt mx c' server tool info fa s1) \<noteq> None" using l Some by simp
      then have "answered rt mx c server tool args s"
        using ok b br BContinue unfolding answered_def by blast
      with ends fr2 show ?thesis by auto
    qed
  qed
qed


section \<open>Hooks that deny\<close>

text \<open>
  A BeforeCall hook that always returns an error for some tools is a gate for them: no
  later hook, no cache and no server is reached, wherever the hook stands in the chain.
\<close>

locale gate_hook =
  fixes hook :: "'w BeforeCallHook" and deny :: "string \<Rightarrow> string \<Rightarrow> ToolInfo \<Rightarrow> bool"
  assumes denies: "deny server tool info \<Longrightarrow>
    \<exists>nc sr e w'. hook c server tool info args w = (Ret (nc, sr, Some e), w')"
begin

lemma never_continues:
  assumes "deny server tool info" "hook \<in> set hooks"
  shows "runBefore hooks c server tool info args s \<noteq> (Ret (BContinue c'), s')"
  using assms(2)
proof (induction hooks arbitrary: c s)
  case (Cons h hooks)
  show ?case
  proof (cases "h = hook")
    case True
    with denies [OF assms(1), of c args "st_env s"] show ?thesis
      by (auto simp: Let_def)
  next
    case False
    with Cons show ?thesis
      by (auto simp: Let_def split: prod.split outcome.split option.split)
  qed
qed simp

lemma afterArgs_blocked:
  assumes "deny server tool info" "hook \<in> set (o_beforeCall (mx_opts mx))"
  shows "traced {KUpstream, KCacheGet, KCacheSet}
           (snd (afterArgs rt mx entry c server tool info arguments fa start s)) =
         traced {KUpstream, KCacheGet, KCacheSet} s"
proof (cases "runBefore (o_beforeCall (mx_opts mx)) c server tool info fa s")
  case (Pair res s1)
  with never_continues [OF assms] have "\<And>c'. res \<noteq> Ret (BContinue c')" by blast
  with Pair runBefore_frame [OF Pair] show ?thesis
    by (cases res) (auto simp: afterArgs_def Let_def finish_frame split: before_result.split)
qed

lemma blocked:
  assumes "hook \<in> set (o_beforeCall (mx_opts mx))"
    and "gm_get (mx_servers mx) server = Some entry"
    and "find (\<lambda>ti. ti_Name ti = tool) (se_tools entry) = Some info" and "deny server tool info"
  shows "traced {KUpstream, KCacheGet, KCacheSet} (snd (CallTool rt mx c server tool args s)) =
         traced {KUpstream, KCacheGet, KCacheSet} s"
  using assms
  by (auto simp: CallTool_def Let_def rejectCall_frame afterArgs_blocked logCall_frame split: sum.split)

end

section \<open>Metrics\<close>

definition record_post :: "string \<Rightarrow> string \<Rightarrow> 'w st \<Rightarrow> 'w call_outcome \<Rightarrow> bool" where
  "record_post server tool s out = (case out of
      (Panic, s') \<Rightarrow> traced {KRecordCall} s' = traced {KRecordCall} s
    | (Ret (r, e), s') \<Rightarrow> traced {KRecordCall} s' = traced {KRecordCall} s \<or>
        (\<exists>d. traced {KRecordCall} s' = traced {KRecordCall} s @ [EvRecordCall server tool d e]))"

lemma record_post_finish: "record_post server tool s (finish mx c server tool info args result e d s)"
  by (auto simp: record_post_def finish_def runAfterCall_def split: prod.splits outcome.splits
        dest: runAfterHooks_frame)

lemma record_post_finishRecorded:
  "record_post server tool s (finishRecorded rt mx c server tool info args result e d rd s)"
  by (auto simp: record_post_def finishRecorded_def runAfterCall_def Let_def
        split: prod.splits outcome.splits dest: runAfterHooks_frame)

interpretation records: call_spec rt mx server tool
  "\<lambda>s s'. traced {KRecordCall} s' = traced {KRecordCall} s" "record_post server tool" for rt mx server tool
  by unfold_locales
     (simp_all add: record_post_finish record_post_finishRecorded,
      auto simp: record_post_def split: outcome.splits)

text \<open>
  C25. No call is counted twice: a call records at most one metric, and the error recorded
  is the one the caller gets. A call that panics in a hook records none.\<close>

theorem CallTool_records_once:
  assumes "CallTool rt mx c server tool args s = (out, s')"
  shows "traced {KRecordCall} s' = traced {KRecordCall} s \<or>
    (\<exists>r e d. out = Ret (r, e) \<and> traced {KRecordCall} s' = traced {KRecordCall} s @ [EvRecordCall server tool d e])"
  using records.post_CallTool [of server tool s rt mx c args] assms
  by (auto simp: record_post_def split: outcome.splits)

text \<open>
  A call that a BeforeCall hook aborts or answers is not recorded at all, although the
  metrics interface promises a record for every call.\<close>

theorem CallTool_hook_end_unrecorded:
  assumes "gm_get (mx_servers mx) server = Some entry" "se_state entry \<noteq> ServerStateDown"
    and "find (\<lambda>ti. ti_Name ti = tool) (se_tools entry) = Some info"
    and "prepareArgs rt mx entry args = Inr (arguments, fa)" "schemaErrors rt mx info fa = []"
    and "runBefore (o_beforeCall (mx_opts mx)) c server tool info fa (logCall mx server tool arguments s) = (Ret b, s1)"
    and "\<And>c'. b \<noteq> BContinue c'"
  shows "traced {KRecordCall} (snd (CallTool rt mx c server tool args s)) = traced {KRecordCall} s"
proof -
  have "traced {KRecordCall} s1 = traced {KRecordCall} s"
    using runBefore_frame [OF assms(6), of "{KRecordCall}"] by (simp add: logCall_frame)
  then show ?thesis
    using assms(6,7) by (cases b) (auto simp: CallTool_stages [OF assms(1-5)] afterArgs_def Let_def finish_frame)
qed

section \<open>A result or an error\<close>

definition one_of :: "'w call_outcome \<Rightarrow> bool" where
  "one_of out = (case fst out of Panic \<Rightarrow> True | Ret (r, e) \<Rightarrow> (r = None) = (e \<noteq> None))"

lemma runAfterHooks_result:
  "runAfterHooks hooks c server tool info args result e d s = (Ret r, s') \<Longrightarrow> (r = None) = (result = None)"
  by (induction hooks arbitrary: result s)
     (fastforce simp: Let_def split: prod.splits outcome.splits option.splits)+

interpretation answers: call_spec rt mx server tool "\<lambda>s s'. True" "\<lambda>s out. one_of out" for rt mx server tool
  by unfold_locales
     (auto simp: one_of_def finish_def finishRecorded_def runAfterCall_def Let_def
        split: prod.splits outcome.splits dest: runAfterHooks_result)

lemma CallTool_result_or_error: "one_of (CallTool rt mx c server tool args s)"
  by (rule answers.post_CallTool)

text \<open>
  A call that returns gives exactly one of a result and an error: the caller may use the
  result without a nil check once the error is nil.\<close>

theorem CallTool_result_xor_error:
  assumes "CallTool rt mx c server tool args s = (Ret (r, e), s')"
  shows "r = None \<longleftrightarrow> e \<noteq> None"
  using CallTool_result_or_error [of rt mx c server tool args s] assms by (simp add: one_of_def)

section \<open>Panics\<close>

definition hooks_calm :: "'w mx \<Rightarrow> bool" where
  "hooks_calm mx \<longleftrightarrow>
     (\<forall>h \<in> set (o_beforeCall (mx_opts mx)). \<forall>c sv t i a w. fst (h c sv t i a w) \<noteq> Panic) \<and>
     (\<forall>h \<in> set (o_afterCall (mx_opts mx)). \<forall>c sv t i a r e d w. fst (h c sv t i a r e d w) \<noteq> Panic) \<and>
     (\<forall>h \<in> set (o_resultTransform (mx_opts mx)). \<forall>c sv t i r w. fst (h c sv t i r w) \<noteq> Panic)"

text \<open>A server that is not down has a session.\<close>

definition sessions_present :: "'w mx \<Rightarrow> bool" where
  "sessions_present mx \<longleftrightarrow>
     list_all (\<lambda>(n, e). se_state e \<noteq> ServerStateDown \<longrightarrow> se_session e \<noteq> None) (mx_servers mx)"

lemma runAfterHooks_calm:
  "\<forall>h \<in> set hooks. \<forall>c sv t i a r e d w. fst (h c sv t i a r e d w) \<noteq> Panic \<Longrightarrow>
   fst (runAfterHooks hooks c server tool info args result e d s) \<noteq> Panic"
  by (induction hooks arbitrary: result s)
     (auto simp: Let_def split: prod.split outcome.split, (metis fst_conv)+)

lemma runBefore_calm:
  "\<forall>h \<in> set hooks. \<forall>c sv t i a w. fst (h c sv t i a w) \<noteq> Panic \<Longrightarrow>
   fst (runBefore hooks c server tool info args s) \<noteq> Panic"
  by (induction hooks arbitrary: c s)
     (auto simp: Let_def split: prod.split outcome.split option.split, (metis fst_conv)+)

lemma runTransforms_calm:
  "\<forall>h \<in> set hooks. \<forall>c sv t i r w. fst (h c sv t i r w) \<noteq> Panic \<Longrightarrow>
   fst (runTransforms hooks c server tool info result s) \<noteq> Panic"
  by (induction hooks arbitrary: result s)
     (auto simp: Let_def split: prod.split outcome.split option.split, (metis fst_conv)+)

lemma finish_calm:
  "hooks_calm mx \<Longrightarrow> fst (finish mx c server tool info args result e d s) \<noteq> Panic"
  using runAfterHooks_calm [of "o_afterCall (mx_opts mx)" c server tool info args result e d s]
  by (auto simp: hooks_calm_def finish_def runAfterCall_def split: prod.split outcome.split)

lemma finishRecorded_calm:
  "hooks_calm mx \<Longrightarrow> fst (finishRecorded rt mx c server tool info args result e d rd s) \<noteq> Panic"
  using runAfterHooks_calm [of "o_afterCall (mx_opts mx)" c server tool info args result e d s]
  by (auto simp: hooks_calm_def finishRecorded_def runAfterCall_def Let_def split: prod.split outcome.split)

lemma rejectCall_calm:
  "hooks_calm mx \<Longrightarrow> fst (rejectCall rt mx c server tool info args reason e start s) \<noteq> Panic"
  by (simp add: rejectCall_def Let_def finishRecorded_calm)

lemma afterUpstream_calm:
  assumes "hooks_calm mx"
  shows "fst (afterUpstream rt mx c server tool info fa r d s) \<noteq> Panic"
  using runTransforms_calm [of "o_resultTransform (mx_opts mx)" c server tool info r s] assms
  by (auto simp: afterUpstream_def Let_def finishRecorded_calm split: prod.split outcome.split option.split)
     (auto simp: hooks_calm_def)

lemma upstream_calm:
  assumes "hooks_calm mx" "se_session entry = Some sess"
  shows "fst (upstream rt mx entry c server tool info arguments fa start s) \<noteq> Panic"
  using assms by (auto simp: upstream_def Let_def finishRecorded_calm afterUpstream_calm split: prod.split option.split)

lemma afterArgs_calm:
  assumes "hooks_calm mx" "se_session entry = Some sess"
  shows "fst (afterArgs rt mx entry c server tool info arguments fa start s) \<noteq> Panic"
proof (cases "runBefore (o_beforeCall (mx_opts mx)) c server tool info fa s")
  case (Pair res s1)
  then have "res \<noteq> Panic"
    using runBefore_calm [of "o_beforeCall (mx_opts mx)" c server tool info fa s] assms(1)
    by (simp add: hooks_calm_def)
  with Pair assms show ?thesis
    by (cases res) (auto simp: afterArgs_def dispatch_def Let_def finish_calm upstream_calm
          split: before_result.split prod.split option.split)
qed

text \<open>
  \<open>CallTool\<close> itself never panics: if no hook panics and every server that is not down has
  a session, every call returns, whatever the servers, the cache, the metrics and the
  rejection callback do.
\<close>

lemma CallTool_calm:
  assumes "hooks_calm mx" "sessions_present mx"
  shows "fst (CallTool rt mx c server tool args s) \<noteq> Panic"
proof -
  have "\<exists>sess. se_session entry = Some sess"
    if "gm_get (mx_servers mx) server = Some entry" "se_state entry \<noteq> ServerStateDown" for entry
    using assms(2) map_of_SomeD [OF that(1)] that(2) by (auto simp: sessions_present_def list_all_iff)
  then show ?thesis
    using assms(1)
    by (auto simp: CallTool_def Let_def rejectCall_calm split: option.split sum.split)
       (metis afterArgs_calm)
qed

section \<open>Plain calls and the cache\<close>

text \<open>A multiplexer with the default logger and metrics, without hooks.\<close>

definition plain :: "'w mx \<Rightarrow> bool" where
  "plain mx \<longleftrightarrow> o_beforeCall (mx_opts mx) = [] \<and> o_afterCall (mx_opts mx) = [] \<and>
     o_resultTransform (mx_opts mx) = [] \<and> o_logger (mx_opts mx) = NopLogger \<and>
     o_metrics (mx_opts mx) = nopMetrics"

lemma finishRecorded_plain:
  "plain mx \<Longrightarrow> finishRecorded rt mx c server tool info args result e d rd s =
   (Ret (if e = None then result else None, e), safeRecordCall nopMetrics server tool (rd s) e s)"
  by (simp add: finishRecorded_def runAfterCall_def plain_def Let_def)

lemma finish_plain:
  "plain mx \<Longrightarrow> finish mx c server tool info args result e d s = (Ret (if e = None then result else None, e), s)"
  by (simp add: finish_def runAfterCall_def plain_def)

lemma nop_env [simp]:
  "st_env (safeRecordCall nopMetrics server tool d e s) = st_env s"
  "o_logger opts = NopLogger \<Longrightarrow> st_env (log_at opts lvl msg fs s) = st_env s"
  by (simp_all add: safeRecordCall_def nopMetrics_def log_at_def NopLogger_def Let_def)

lemma logCall_plain: "plain mx \<Longrightarrow> st_env (logCall mx server tool arguments s) = st_env s"
  by (simp add: logCall_def plain_def split: option.split)

lemma logCall_cache [simp]: "st_cache (logCall mx server tool arguments s) = st_cache s"
  by (simp add: logCall_def split: option.split)

lemma warnScope_same [simp]:
  "st_cache (warnScope mx c s) = st_cache s" "plain mx \<Longrightarrow> st_env (warnScope mx c s) = st_env s"
  by (simp_all add: warnScope_def plain_def)

lemma cacheLookup_builtin:
  assumes "activeCache mx = BuiltinCache" "isCacheable info" "plain mx"
  shows "fst (cacheLookup rt mx c server tool info fa s) =
           fst (lru_Get (rt_now rt (st_env s)) (cacheKeyOf rt mx c server tool fa) (st_cache s))"
    and "st_cache (snd (cacheLookup rt mx c server tool info fa s)) =
           snd (lru_Get (rt_now rt (st_env s)) (cacheKeyOf rt mx c server tool fa) (st_cache s))"
    and "st_env (snd (cacheLookup rt mx c server tool info fa s)) = st_env s"
  using assms by (simp_all add: cacheLookup_def cacheActive_def cacheGet_def Let_def case_prod_beta)

lemma cacheStore_builtin:
  assumes "activeCache mx = BuiltinCache" "isCacheable info" "plain mx" "\<not> cr_IsError r"
    and "fst (toolTTL (rt_ParseDuration rt) info (o_cacheTTL (mx_opts mx)) (st_ttlWarned s)) = ttl"
  shows "st_cache (cacheStore rt mx c server tool info fa r s) =
           lru_Set (rt_now rt (st_env s)) (cacheKeyOf rt mx c server tool fa) (Some r) ttl (st_cache s)"
    and "st_env (cacheStore rt mx c server tool info fa r s) = st_env s"
  using assms
  by (auto simp: cacheStore_def cacheActive_def cacheSet_def Let_def plain_def split: prod.splits option.splits)

text \<open>The lifetime does not depend on which warnings were given before.\<close>

definition lifetime :: "'w rt \<Rightarrow> 'w mx \<Rightarrow> ToolInfo \<Rightarrow> duration" where
  "lifetime rt mx info = fst (toolTTL (rt_ParseDuration rt) info (o_cacheTTL (mx_opts mx)) [])"

lemma toolTTL_lifetime:
  "fst (toolTTL (rt_ParseDuration rt) info (o_cacheTTL (mx_opts mx)) ws) = lifetime rt mx info"
  by (auto simp: lifetime_def toolTTL_def Let_def split: option.split)

lemma afterArgs_plain:
  "plain mx \<Longrightarrow> afterArgs rt mx entry c server tool info arguments fa start s =
   dispatch rt mx entry c server tool info arguments fa start s"
  by (simp add: afterArgs_def plain_def)

lemma dispatch_cases:
  "fst (cacheLookup rt mx c server tool info fa s) = None \<Longrightarrow>
   dispatch rt mx entry c server tool info arguments fa start s =
     upstream rt mx entry c server tool info arguments fa start (snd (cacheLookup rt mx c server tool info fa s))"
  "fst (cacheLookup rt mx c server tool info fa s) = Some r \<Longrightarrow> plain mx \<Longrightarrow>
   dispatch rt mx entry c server tool info arguments fa start s =
     (Ret (Some r, None), snd (cacheLookup rt mx c server tool info fa s))"
  by (cases "cacheLookup rt mx c server tool info fa s"; simp add: dispatch_def finish_plain)+

lemma afterUpstream_plain:
  "plain mx \<Longrightarrow> afterUpstream rt mx c server tool info fa r d s =
   (Ret (Some r, None), safeRecordCall nopMetrics server tool d None (cacheStore rt mx c server tool info fa r s))"
  using finishRecorded_plain [of mx rt c server tool info fa "Some r" None d "\<lambda>_. d"]
  by (simp add: afterUpstream_def Let_def plain_def)

lemma upstream_plain:
  assumes "plain mx" "se_session entry = Some sess"
    and "upstream rt mx entry c server tool info arguments fa start s = (Ret (Some r, None), s1)"
  shows "\<exists>s2. st_cache s2 = st_cache s \<and>
    st_cache s1 = st_cache (cacheStore rt mx c server tool info fa r s2) \<and>
    st_env s1 = st_env (cacheStore rt mx c server tool info fa r s2)"
proof -
  let ?c = "ctx_WithTimeout c (rt_now rt (st_env s))
    (effectiveTimeout (sc_CallTimeout (se_config entry)) (o_callTimeout (mx_opts mx)))"
  let ?s = "emit (EvUpstream sess ?c tool arguments) s"
  obtain raw e w where up: "rt_CallTool rt sess ?c tool arguments (st_env ?s) = ((raw, e), w)"
    by (metis surj_pair)
  show ?thesis
    using assms(3) up assms(1)
    by (cases e) (auto simp: upstream_def assms(2) Let_def finishRecorded_plain afterUpstream_plain
          intro!: exI [of _ "?s\<lparr>st_env := w\<rparr>"])
qed

lemma plain_sent:
  assumes "plain mx" "CallTool rt mx c server tool args s = (Ret (Some r, None), s1)"
    and "traced {KUpstream} s1 \<noteq> traced {KUpstream} s"
  obtains entry info arguments fa s2 where
    "gm_get (mx_servers mx) server = Some entry" "se_state entry \<noteq> ServerStateDown"
    "find (\<lambda>ti. ti_Name ti = tool) (se_tools entry) = Some info"
    "prepareArgs rt mx entry args = Inr (arguments, fa)" "schemaErrors rt mx info fa = []"
    "st_cache s2 = st_cache (snd (cacheLookup rt mx c server tool info fa (logCall mx server tool arguments s)))"
    "st_cache s1 = st_cache (cacheStore rt mx c server tool info fa r s2)"
    "st_env s1 = st_env (cacheStore rt mx c server tool info fa r s2)"
proof -
  obtain entry sess arguments c' now where "admitted rt mx c server tool args s entry sess arguments c' now"
    using unadmitted_not_sent [of rt mx c server tool args s] assms(2,3) by (metis snd_conv)
  then obtain info fa where
    g: "gm_get (mx_servers mx) server = Some entry" "se_state entry \<noteq> ServerStateDown"
      "find (\<lambda>ti. ti_Name ti = tool) (se_tools entry) = Some info"
      "prepareArgs rt mx entry args = Inr (arguments, fa)" "schemaErrors rt mx info fa = []"
    and sess: "se_session entry = Some sess"
    and miss: "fst (cacheLookup rt mx c server tool info fa (logCall mx server tool arguments s)) = None"
    using assms(1) by (auto simp: admitted_def checked_def plain_def)
  let ?l = "snd (cacheLookup rt mx c server tool info fa (logCall mx server tool arguments s))"
  have "CallTool rt mx c server tool args s =
      upstream rt mx entry c server tool info arguments fa (rt_now rt (st_env s)) ?l"
    using assms(1) miss by (simp add: CallTool_stages [OF g] afterArgs_plain dispatch_cases)
  with upstream_plain [OF assms(1) sess] assms(2) g that show thesis
    by metis
qed

text \<open>
  C9. The cache works end to end: in a multiplexer with the built-in cache, without hooks
  and with the default logger and metrics, once a call for a cacheable tool went to the
  server and came back with a result that is no tool error, the same call within the lifetime
  of the entry returns that result and does not go to the server, provided the cache was not
  used in the meantime and the second call finds the server up, with the same settings and
  the same description of the tool. Its session, its other tools and all other servers may
  have changed, as may the world outside.\<close>

theorem CallTool_second_call_cached:
  assumes "plain mx" "activeCache mx = BuiltinCache" "lru_ok (st_cache s)"
    and first: "CallTool rt mx c server tool args s = (Ret (Some r, None), s1)"
    and went: "traced {KUpstream} s1 \<noteq> traced {KUpstream} s"
    and good: "\<not> cr_IsError r"
    and tool: "gm_get (mx_servers mx) server = Some entry"
      "find (\<lambda>ti. ti_Name ti = tool) (se_tools entry) = Some info" "isCacheable info" "0 < lifetime rt mx info"
    and later: "st_cache s2 = st_cache s1" "rt_now rt (st_env s2) \<le> rt_now rt (st_env s1) + lifetime rt mx info"
    and again: "mx_opts mx' = mx_opts mx" "mx_builtinCache mx' = mx_builtinCache mx"
      "gm_get (mx_servers mx') server = Some entry'" "se_state entry' \<noteq> ServerStateDown" "se_config entry' = se_config entry"
      "find (\<lambda>ti. ti_Name ti = tool) (se_tools entry') = Some info"
  shows "fst (CallTool rt mx' c server tool args s2) = Ret (Some r, None) \<and>
         traced {KUpstream} (snd (CallTool rt mx' c server tool args s2)) = traced {KUpstream} s2"
proof -
  note B = assms(2) tool(3) assms(1)
  have plain': "plain mx'" "activeCache mx' = BuiltinCache"
    using assms(1) again(1) by (simp add: plain_def, simp add: activeCache_def again(1,2) flip: assms(2))
  note B' = plain'(2) tool(3) plain'(1)
  obtain arguments fa t where g: "se_state entry \<noteq> ServerStateDown"
      "prepareArgs rt mx entry args = Inr (arguments, fa)" "schemaErrors rt mx info fa = []"
    and t: "st_cache t = st_cache (snd (cacheLookup rt mx c server tool info fa (logCall mx server tool arguments s)))"
    and s1: "st_cache s1 = st_cache (cacheStore rt mx c server tool info fa r t)"
      "st_env s1 = st_env (cacheStore rt mx c server tool info fa r t)"
    using plain_sent [OF assms(1) first went] tool(1,2) by (metis option.inject)
  have same: "prepareArgs rt mx' entry' args = Inr (arguments, fa)" "schemaErrors rt mx' info fa = []"
      "cacheKeyOf rt mx' c server tool fa = cacheKeyOf rt mx c server tool fa"
    unfolding prepareArgs_def schemaErrors_def cacheKeyOf_def again(1,5)
    using g(2,3) by (simp_all only: prepareArgs_def schemaErrors_def)
  let ?key = "cacheKeyOf rt mx c server tool fa"
  let ?s = "logCall mx' server tool arguments s2"
  have "lru_ok (st_cache t)"
    using lru.inv_get assms(3) by (simp add: t cacheLookup_builtin [OF B])
  then have "fst (lru_Get (rt_now rt (st_env s2)) ?key (st_cache s2)) = Some r"
    using lru.put_self [of "st_cache t" "lifetime rt mx info"] lru.inv_put [of "st_cache t"] tool(4) later
    by (simp add: s1 cacheStore_builtin [OF B good toolTTL_lifetime] lru.get_result)
  then have hit: "fst (cacheLookup rt mx' c server tool info fa ?s) = Some r"
    using plain'(1) same(3) by (simp add: cacheLookup_builtin [OF B'] logCall_plain)
  then have "CallTool rt mx' c server tool args s2 = (Ret (Some r, None), snd (cacheLookup rt mx' c server tool info fa ?s))"
    using plain'(1)
    by (simp add: CallTool_stages [OF again(3,4,6) same(1,2)] afterArgs_plain dispatch_cases)
  moreover have "traced {KUpstream} (snd (cacheLookup rt mx' c server tool info fa ?s)) = traced {KUpstream} s2"
    using cacheLookup_frame [OF surjective_pairing, of "{KUpstream}" rt mx' c server tool info fa ?s]
    by (simp add: logCall_frame)
  ultimately show ?thesis by simp
qed

section \<open>Results\<close>

fun content_ok :: "'w rt \<Rightarrow> mcp_content \<Rightarrow> bool" where
  "content_ok rt (OtherContent i) \<longleftrightarrow> rt_marshalContent rt (OtherContent i) \<noteq> None"
| "content_ok rt _ = True"

fun part_of :: "'w rt \<Rightarrow> mcp_content \<Rightarrow> ContentPart" where
  "part_of rt (TextContent t) =
     \<lparr>cp_Kind = ContentText, cp_Text = t, cp_MIMEType = [], cp_Data = None, cp_Raw = None\<rparr>"
| "part_of rt (ImageContent m d) =
     \<lparr>cp_Kind = ContentImage, cp_Text = [], cp_MIMEType = m, cp_Data = d, cp_Raw = None\<rparr>"
| "part_of rt (OtherContent i) =
     \<lparr>cp_Kind = ContentOther, cp_Text = [], cp_MIMEType = [], cp_Data = None,
      cp_Raw = rt_marshalContent rt (OtherContent i)\<rparr>"

text \<open>What the text of a result says for one of its parts.\<close>

definition part_text :: "ContentPart \<Rightarrow> string" where
  "part_text p = (case cp_Kind p of
      ContentText \<Rightarrow> cp_Text p
    | ContentImage \<Rightarrow> ''[image: '' @ cp_MIMEType p @ '']''
    | ContentOther \<Rightarrow> entries (cp_Raw p))"

lemma build_parts_spec:
  "build_parts rt cs ps ts =
     (ps @ map (part_of rt) (filter (content_ok rt) cs),
      ts @ map part_text (map (part_of rt) (filter (content_ok rt) cs)))"
proof (induction cs arbitrary: ps ts)
  case (Cons c cs)
  then show ?case
    by (cases c) (auto simp: part_text_def split: option.split)
qed simp

text \<open>
  The result handed to the caller has one part per content block of the server's
  answer that can be encoded, in order, with the payload of the block, and its text is
  those parts, one per line; the error flag is the server's.\<close>

theorem buildResult_parts:
  "buildResult rt (Some m) =
     (let parts = map (part_of rt) (filter (content_ok rt) (mr_Content m))
      in \<lparr>cr_Text = str_join [CHR 0x0A] (map part_text parts), cr_Parts = parts, cr_IsError = mr_IsError m\<rparr>)"
  by (simp add: buildResult_def build_parts_spec Let_def)

section \<open>A concrete multiplexer\<close>

text \<open>
  One server with a read-only tool; the outside world is a clock that every call to the
  server moves.
\<close>

definition demo_rt :: "int rt" where
  "demo_rt = \<lparr>rt_now = (\<lambda>w. w), rt_unicode = \<lparr>uniLower = id, uniTrimSpace = id\<rparr>, rt_environ = [],
     rt_unmarshal = (\<lambda>b. Inr (AObj [])), rt_marshal = (\<lambda>v. Some ''{}''), rt_marshalContent = (\<lambda>c. None),
     rt_ParseDuration = (\<lambda>t. None), rt_validateSchema = (\<lambda>a b. Inr (True, [])), rt_ctxErr = (\<lambda>c w. None),
     rt_CallTool = (\<lambda>sess c t a w. ((Some \<lparr>mr_Content = [TextContent ''ok''], mr_IsError = False\<rparr>, None), w + 1)),
     rt_ListTools = (\<lambda>sess c w. (Inr [], w)), rt_Connect = (\<lambda>c t a b w. (Inr 0, w)), rt_Close = (\<lambda>sess w. (None, w))\<rparr>"

definition demo_tool :: ToolInfo where
  "demo_tool = zeroToolInfo\<lparr>ti_Server := ''s'', ti_Name := ''echo'', ti_ReadOnly := True, ti_Idempotent := True\<rparr>"

definition demo_entry :: serverEntry where
  "demo_entry = \<lparr>se_config = zeroServerConfig\<lparr>sc_Name := ''s''\<rparr>, se_session = Some 7, se_tools = [demo_tool],
     se_state = ServerStateConnected, se_reconnecting = False, se_refreshCh = Some False\<rparr>"

definition demo_mx :: "int options \<Rightarrow> int mx" where
  "demo_mx opts = \<lparr>mx_servers = [(''s'', demo_entry)], mx_kindHints = None, mx_opts = opts, mx_builtinCache = True\<rparr>"

definition demo_st :: "int st" where
  "demo_st = \<lparr>st_env = 100, st_cache = newLRUCache 2, st_scopeWarned = False, st_ttlWarned = [], st_trace = []\<rparr>"

definition watched :: "int options" where
  "watched = (defaultOptions None)\<lparr>
     o_afterCall := [\<lambda>c sv t i a r e d w. (Ret r, w), \<lambda>c sv t i a r e d w. (Ret r, w)],
     o_onRejectedCall := Some (\<lambda>c sv t reason e w. (Panic, w))\<rparr>"

definition closed :: "int options" where
  "closed = (defaultOptions None)\<lparr>
     o_beforeCall := [\<lambda>c sv t i a w. (Ret (None, None, Some (ErrText ''no'')), w)]\<rparr>"

definition demo_answer :: CallResult where
  "demo_answer = \<lparr>cr_Text = ''ok'', cr_Parts = [\<lparr>cp_Kind = ContentText, cp_Text = ''ok'', cp_MIMEType = [],
     cp_Data = None, cp_Raw = None\<rparr>], cr_IsError = False\<rparr>"

abbreviation demo_call :: "int options \<Rightarrow> string \<Rightarrow> int call_outcome" where
  "demo_call opts tool \<equiv> CallTool demo_rt (demo_mx opts) ctx_Background ''s'' tool [] demo_st"

lemmas demo_defs = demo_rt_def demo_tool_def demo_entry_def demo_mx_def demo_st_def watched_def closed_def
  demo_answer_def zeroToolInfo_def zeroServerConfig_def defaultOptions_def

lemma demo_prepare: "prepareArgs demo_rt (demo_mx opts) demo_entry [] = Inr (None, [])"
  by (simp add: prepareArgs_def)

lemma demo_find: "find (\<lambda>ti. ti_Name ti = ''echo'') (se_tools demo_entry) = Some demo_tool"
  "gm_get (mx_servers (demo_mx opts)) ''s'' = Some demo_entry" "mx_opts (demo_mx opts) = opts"
  "se_session demo_entry = Some 7" "se_state demo_entry = ServerStateConnected"
  by (simp_all add: demo_entry_def demo_tool_def demo_mx_def)

lemma demo_watched: "fst (demo_call watched ''echo'') = Ret (Some demo_answer, None)"
  by code_simp

lemma demo_rejected: "fst (demo_call watched ''rm'') = Ret (None, Some (UnknownTool ''rm'' ''s''))"
  by code_simp

lemma demo_plain: "plain (demo_mx (defaultOptions None))"
  by (simp add: plain_def demo_mx_def defaultOptions_def)

lemma demo_first: "fst (demo_call (defaultOptions None) ''echo'') = Ret (Some demo_answer, None)"
  by code_simp

lemma demo_first_sent:
  "traced {KUpstream} (snd (demo_call (defaultOptions None) ''echo'')) \<noteq> traced {KUpstream} demo_st"
  by code_simp

theorem CallTool_runs_after_hooks_witness:
  "map after_err (traced {KAfter} (snd (demo_call watched ''rm''))) =
     [Some (UnknownTool ''rm'' ''s''), Some (UnknownTool ''rm'' ''s'')]"
proof -
  have "demo_call watched ''rm'' = (Ret (None, Some (UnknownTool ''rm'' ''s'')), snd (demo_call watched ''rm''))"
    by (rule pair_by_fst [OF demo_rejected])
  from CallTool_runs_after_hooks [OF this] show ?thesis
    by (simp add: demo_find watched_def demo_st_def traced_def numeral_2_eq_2)
qed

theorem CallTool_result_xor_error_witness:
  "fst (demo_call watched ''echo'') = Ret (Some demo_answer, None) \<and>
   ((Some demo_answer = None) = ((None :: err option) \<noteq> None))"
  using CallTool_result_xor_error [OF pair_by_fst [OF demo_watched]] demo_watched by blast


theorem CallTool_records_once_witness:
  "traced {KRecordCall} (snd (demo_call watched ''echo'')) = [] \<or>
   (\<exists>d. traced {KRecordCall} (snd (demo_call watched ''echo'')) = [EvRecordCall ''s'' ''echo'' d None])"
proof -
  have "demo_call watched ''echo'' = (Ret (Some demo_answer, None), snd (demo_call watched ''echo''))"
    by (rule pair_by_fst [OF demo_watched])
  from CallTool_records_once [OF this] show ?thesis
    by (auto simp: demo_st_def traced_def)
qed

theorem CallTool_hook_end_unrecorded_witness:
  "traced {KRecordCall} (snd (demo_call closed ''echo'')) = []"
proof -
  have b: "\<exists>s1. runBefore (o_beforeCall (mx_opts (demo_mx closed))) ctx_Background ''s'' ''echo'' demo_tool []
     (logCall (demo_mx closed) ''s'' ''echo'' None demo_st) = (Ret (BAbort ctx_Background (ErrText ''no'')), s1)"
    by (simp add: demo_find closed_def)
  then obtain s1 where "runBefore (o_beforeCall (mx_opts (demo_mx closed))) ctx_Background ''s'' ''echo'' demo_tool []
     (logCall (demo_mx closed) ''s'' ''echo'' None demo_st) = (Ret (BAbort ctx_Background (ErrText ''no'')), s1)" ..
  from CallTool_hook_end_unrecorded [OF demo_find(2) _ demo_find(1) demo_prepare _ this] show ?thesis
    by (simp add: demo_find schemaErrors_def closed_def defaultOptions_def) (simp add: demo_st_def traced_def)
qed

text \<open>The second call finds the server with another session.\<close>

definition demo_again :: "int mx" where
  "demo_again = (demo_mx (defaultOptions None))\<lparr>mx_servers := [(''s'', demo_entry\<lparr>se_session := Some 8\<rparr>)]\<rparr>"

theorem CallTool_second_call_cached_witness:
  "let s1 = snd (demo_call (defaultOptions None) ''echo'') in
   fst (CallTool demo_rt demo_again ctx_Background ''s'' ''echo'' [] s1) = Ret (Some demo_answer, None) \<and>
   traced {KUpstream} (snd (CallTool demo_rt demo_again ctx_Background ''s'' ''echo'' [] s1)) = traced {KUpstream} s1"
proof -
  let ?s1 = "snd (demo_call (defaultOptions None) ''echo'')"
  have call: "demo_call (defaultOptions None) ''echo'' = (Ret (Some demo_answer, None), ?s1)"
    by (rule pair_by_fst [OF demo_first])
  have "activeCache (demo_mx (defaultOptions None)) = BuiltinCache" "lru_ok (st_cache demo_st)"
    by (simp_all add: activeCache_def demo_defs)
  note base = demo_plain this call demo_first_sent
  have "isCacheable demo_tool" "0 < lifetime demo_rt (demo_mx (defaultOptions None)) demo_tool" "\<not> cr_IsError demo_answer"
    by (simp_all add: isCacheable_def lifetime_def toolTTL_def demo_defs defaultCacheTTL_def second_def)
  moreover have "mx_opts demo_again = mx_opts (demo_mx (defaultOptions None))"
      "mx_builtinCache demo_again = mx_builtinCache (demo_mx (defaultOptions None))"
      "gm_get (mx_servers demo_again) ''s'' = Some (demo_entry\<lparr>se_session := Some 8\<rparr>)"
    by (simp_all add: demo_again_def)
  ultimately show ?thesis
    using CallTool_second_call_cached [OF base _ demo_find(2,1), of ?s1 demo_again "demo_entry\<lparr>se_session := Some 8\<rparr>"] demo_find(1)
    by (simp add: Let_def demo_entry_def)
qed

end
