(* ===== verification/Multiplexer.thy ===== *)
theory Multiplexer
  imports CallLaws
begin

text \<open>
  The life of a multiplexer, \<open>multiplexer.go\<close> and \<open>from_sessions.go\<close>: listing the tools
  of a session, connecting to a server, \<open>New\<close>, \<open>NewFromSessions\<close> and \<open>Close\<close>. The
  goroutines in which \<open>New\<close> connects to the servers are run one after the other in an order
  that is a parameter, \<open>sched\<close>; each of them touches only its own server's entry.
\<close>

section \<open>Definitions\<close>

subsection \<open>fetchTools\<close>

definition toolInfoOf :: "'w rt \<Rightarrow> string \<Rightarrow> mcp_tool \<Rightarrow> ToolInfo" where
  "toolInfoOf rt serverName t =
     (let info = zeroToolInfo\<lparr>ti_Server := serverName, ti_Name := mt_Name t, ti_Description := mt_Description t\<rparr>;
          info = (case mt_InputSchema t of
                    None \<Rightarrow> info
                  | Some sch \<Rightarrow> (case rt_marshal rt sch of Some raw \<Rightarrow> info\<lparr>ti_InputSchema := raw\<rparr> | None \<Rightarrow> info));
          info = (case mt_Annotations t of
                    Some a \<Rightarrow>
                      (let info = info\<lparr>ti_ReadOnly := ma_ReadOnlyHint a,
                             ti_Destructive := (ma_DestructiveHint a = None \<or> ma_DestructiveHint a = Some True),
                             ti_Idempotent := ma_IdempotentHint a\<rparr>
                       in (case ma_OpenWorldHint a of Some b \<Rightarrow> info\<lparr>ti_OpenWorld := b\<rparr> | None \<Rightarrow> info))
                  | None \<Rightarrow> info\<lparr>ti_Destructive := True\<rparr>)
      in info\<lparr>ti_Write := (\<not> ti_ReadOnly info \<and> \<not> ti_Destructive info)\<rparr>)"

fun enrich :: "'w MetaEnricher list \<Rightarrow> ctx \<Rightarrow> string \<Rightarrow> ToolInfo \<Rightarrow> 'w \<Rightarrow> ToolInfo \<times> 'w" where
  "enrich [] c serverName info w = (info, w)"
| "enrich (e # es) c serverName info w =
     (let (info, w) = e c serverName info w in enrich es c serverName info w)"

fun toolInfos ::
  "'w rt \<Rightarrow> 'w options \<Rightarrow> ctx \<Rightarrow> string \<Rightarrow> mcp_tool list \<Rightarrow> 'w \<Rightarrow> ToolInfo list \<times> 'w" where
  "toolInfos rt opts c serverName [] w = ([], w)"
| "toolInfos rt opts c serverName (t # ts) w =
     (let (info, w) = enrich (o_metaEnrichers opts) c serverName (toolInfoOf rt serverName t) w;
          (infos, w) = toolInfos rt opts c serverName ts w
      in (info # infos, w))"

definition fetchTools ::
  "'w rt \<Rightarrow> 'w options \<Rightarrow> ctx \<Rightarrow> string \<Rightarrow> session \<Rightarrow> 'w st \<Rightarrow> (err + ToolInfo list) \<times> 'w st" where
  "fetchTools rt opts c serverName sess s =
     (let s = emit (EvListTools sess) s;
          (result, w) = rt_ListTools rt sess c (st_env s);
          s = s\<lparr>st_env := w\<rparr>
      in case result of
           Inl e \<Rightarrow> (Inl e, s)
         | Inr ts \<Rightarrow>
             (let (infos, w) = toolInfos rt opts c serverName ts (st_env s);
                  s = s\<lparr>st_env := w\<rparr>;
                  s = safeRecordToolList (o_metrics opts) serverName (length infos) s
              in (Inr infos, s)))"

subsection \<open>connect\<close>

definition closeSession :: "'w rt \<Rightarrow> session \<Rightarrow> 'w st \<Rightarrow> err option \<times> 'w st" where
  "closeSession rt sess s =
     (let s = emit (EvClose sess) s; (e, w) = rt_Close rt sess (st_env s) in (e, s\<lparr>st_env := w\<rparr>))"

definition connect ::
  "'w rt \<Rightarrow> 'w options \<Rightarrow> ctx \<Rightarrow> ServerConfig \<Rightarrow> bool option \<Rightarrow> 'w st \<Rightarrow> (err + serverEntry) \<times> 'w st" where
  "connect rt opts c cfg refreshCh s =
     (let refreshCh = (case refreshCh of None \<Rightarrow> Some False | Some q \<Rightarrow> Some q) in
      case newTransport (rt_environ rt) cfg opts of
        Inl e \<Rightarrow> (Inl e, s)
      | Inr transport \<Rightarrow>
          (let s = emit (EvConnect (sc_Name cfg)) s;
               (res, w) = rt_Connect rt c transport (o_clientName opts) (o_clientVersion opts) (st_env s);
               s = s\<lparr>st_env := w\<rparr>
           in case res of
                Inl e \<Rightarrow> (Inl (ConnectErr (sc_Name cfg) e), s)
              | Inr sess \<Rightarrow>
                  (case fetchTools rt opts c (sc_Name cfg) sess s of
                     (Inl e, s) \<Rightarrow> (Inl (ListToolsErr (sc_Name cfg) e), snd (closeSession rt sess s))
                   | (Inr tools, s) \<Rightarrow>
                       (Inr \<lparr>se_config = cfg, se_session = Some sess, se_tools = tools,
                             se_state = ServerStateConnected, se_reconnecting = False,
                             se_refreshCh = refreshCh\<rparr>, s))))"

subsection \<open>New\<close>

fun checkServers :: "ServerConfig list \<Rightarrow> string list \<Rightarrow> err option" where
  "checkServers [] names = None"
| "checkServers (sc # scs) names =
     (case validate sc of
        Some e \<Rightarrow> Some e
      | None \<Rightarrow> if sc_Name sc \<in> set names then Some (DuplicateServer (sc_Name sc))
                else checkServers scs (sc_Name sc # names))"

fun checkAuth :: "ServerConfig list \<Rightarrow> err option" where
  "checkAuth [] = None"
| "checkAuth (sc # scs) = (if sc_Auth sc \<noteq> None then Some (MissingAuthFunc (sc_Name sc)) else checkAuth scs)"

definition checkConfig :: "MultiplexerConfig \<Rightarrow> 'w options \<Rightarrow> err option" where
  "checkConfig cfg opts =
     (if o_healthCheckSet opts \<and> o_healthCheckInterval opts \<le> 0 then Some BadHealthInterval
      else (case checkServers (mc_Servers cfg) [] of
              Some e \<Rightarrow> Some e
            | None \<Rightarrow> (case o_authFunc opts of None \<Rightarrow> checkAuth (mc_Servers cfg) | Some _ \<Rightarrow> None)))"

definition kindDefaults :: "MultiplexerConfig \<Rightarrow> ServerConfig \<Rightarrow> ServerConfig" where
  "kindDefaults cfg sc =
     (case gm_get (mc_KindSettings cfg) (sc_Kind sc) of Some ks \<Rightarrow> withKindDefaults sc ks | None \<Rightarrow> sc)"

definition fireOnConnect :: "'w options \<Rightarrow> string \<Rightarrow> ToolInfo list \<Rightarrow> 'w st \<Rightarrow> 'w st" where
  "fireOnConnect opts name tools s =
     (case o_onConnect opts of
        None \<Rightarrow> s
      | Some f \<Rightarrow>
          (let s = emit (EvOnConnect name tools) s; (panicked, w) = f name tools (st_env s)
           in s\<lparr>st_env := w\<rparr>))"

text \<open>One goroutine of \<open>New\<close>: the servers registered and those that failed so far.\<close>

definition connectOne ::
  "'w rt \<Rightarrow> 'w options \<Rightarrow> ctx \<Rightarrow> ServerConfig \<Rightarrow>
   (string, serverEntry) gomap \<times> string list \<times> 'w st \<Rightarrow> (string, serverEntry) gomap \<times> string list \<times> 'w st" where
  "connectOne rt opts c sc acc =
     (let (servers, failed, s) = acc in
      case connect rt opts c sc (Some False) s of
        (Inl e, s) \<Rightarrow>
          (let s = log_at opts Error ''mcpx: failed to connect''
                     [F ''server'' (FStr (sc_Name sc)), F ''error'' (FErr e)] s;
               stub = \<lparr>se_config = sc, se_session = None, se_tools = [], se_state = ServerStateDown,
                       se_reconnecting = True, se_refreshCh = Some False\<rparr>
           in (gm_set (sc_Name sc) stub servers, failed @ [sc_Name sc], s))
      | (Inr entry, s) \<Rightarrow>
          (gm_set (sc_Name sc) entry servers, failed, fireOnConnect opts (sc_Name sc) (se_tools entry) s))"

fun connectAll ::
  "'w rt \<Rightarrow> 'w options \<Rightarrow> ctx \<Rightarrow> ServerConfig list \<Rightarrow>
   (string, serverEntry) gomap \<times> string list \<times> 'w st \<Rightarrow> (string, serverEntry) gomap \<times> string list \<times> 'w st" where
  "connectAll rt opts c [] acc = acc"
| "connectAll rt opts c (sc # scs) acc = connectAll rt opts c scs (connectOne rt opts c sc acc)"

text \<open>The goroutines that keep running after \<open>New\<close> returns.\<close>

datatype goroutine = GoReconnect string | GoToolRefresh string | GoSupervisor

definition New ::
  "'w rt \<Rightarrow> string option \<Rightarrow> (ServerConfig list \<Rightarrow> ServerConfig list) \<Rightarrow> ctx \<Rightarrow> MultiplexerConfig \<Rightarrow>
   'w Option list \<Rightarrow> 'w st \<Rightarrow> (err + 'w mx \<times> goroutine list) \<times> 'w st" where
  "New rt bi sched c cfg opts s =
     (let opts = applyOptions bi opts;
          builtin = (\<not> o_cacheDisabled opts \<and> (case o_cache opts of None \<Rightarrow> True | Some _ \<Rightarrow> False));
          s = (if builtin then s\<lparr>st_cache := newLRUCache (o_cacheSize opts)\<rparr> else s);
          s = s\<lparr>st_scopeWarned := False, st_ttlWarned := []\<rparr>
      in case checkConfig cfg opts of
           Some e \<Rightarrow> (Inl e, s)
         | None \<Rightarrow>
             (let (servers, failed, s) =
                    connectAll rt opts c (sched (map (kindDefaults cfg) (mc_Servers cfg))) ([], [], s);
                  mx = \<lparr>mx_servers = servers, mx_kindHints = mc_KindHints cfg, mx_opts = opts,
                        mx_builtinCache = builtin\<rparr>
              in (Inr (mx, map GoReconnect failed @ map (GoToolRefresh \<circ> fst) servers @
                           (if 0 < o_healthCheckInterval opts then [GoSupervisor] else [])), s)))"

subsection \<open>NewFromSessions and Close\<close>

text \<open>An error of \<open>fetchTools\<close> is dropped; the tool list is nil then.\<close>

fun fromSessions ::
  "'w rt \<Rightarrow> 'w options \<Rightarrow> ctx \<Rightarrow> (string, session) gomap \<Rightarrow> (string, serverEntry) gomap \<Rightarrow> 'w st \<Rightarrow>
   (string, serverEntry) gomap \<times> 'w st" where
  "fromSessions rt opts c [] servers s = (servers, s)"
| "fromSessions rt opts c ((name, sess) # rest) servers s =
     (let (res, s) = fetchTools rt opts c name sess s;
          entry = \<lparr>se_config = zeroServerConfig\<lparr>sc_Name := name\<rparr>, se_session = Some sess,
                   se_tools = (case res of Inl e \<Rightarrow> [] | Inr ts \<Rightarrow> ts), se_state = ServerStateConnected,
                   se_reconnecting = False, se_refreshCh = None\<rparr>
      in fromSessions rt opts c rest (gm_set name entry servers) s)"

definition NewFromSessions ::
  "'w rt \<Rightarrow> string option \<Rightarrow> ctx \<Rightarrow> (string, session) gomap \<Rightarrow> 'w Option list \<Rightarrow> 'w st \<Rightarrow> 'w mx \<times> 'w st" where
  "NewFromSessions rt bi c sessions opts s =
     (let opts = applyOptions bi opts;
          s = s\<lparr>st_scopeWarned := False, st_ttlWarned := []\<rparr>;
          (servers, s) = fromSessions rt opts c sessions [] s
      in (\<lparr>mx_servers = servers, mx_kindHints = None, mx_opts = opts, mx_builtinCache = False\<rparr>, s))"

text \<open>The part of \<open>Close\<close> after the cancellation: the sessions, in some order of the map.\<close>

fun closeAll :: "'w rt \<Rightarrow> 'w options \<Rightarrow> (string, serverEntry) gomap \<Rightarrow> 'w st \<Rightarrow> 'w st" where
  "closeAll rt opts [] s = s"
| "closeAll rt opts ((name, entry) # rest) s =
     (case se_session entry of
        None \<Rightarrow> closeAll rt opts rest s
      | Some sess \<Rightarrow>
          (let (e, s) = closeSession rt sess s;
               s = (case e of None \<Rightarrow> s
                    | Some e \<Rightarrow> log_at opts Error ''mcpx: close session''
                                 [F ''server'' (FStr name), F ''error'' (FErr e)] s)
           in closeAll rt opts rest s))"

definition Close :: "'w rt \<Rightarrow> 'w mx \<Rightarrow> 'w st \<Rightarrow> 'w st" where
  "Close rt mx s = closeAll rt (mx_opts mx) (mx_servers mx) s"

section \<open>Tool lists\<close>

lemma toolInfos_plain:
  "o_metaEnrichers opts = [] \<Longrightarrow> toolInfos rt opts c serverName ts w = (map (toolInfoOf rt serverName) ts, w)"
  by (induction ts arbitrary: w) simp_all

lemma toolInfos_length: "length (fst (toolInfos rt opts c serverName ts w)) = length ts"
  by (induction ts arbitrary: w) (simp_all add: case_prod_beta Let_def)

lemma hint_not_false: "h = None \<or> h = Some True \<longleftrightarrow> h \<noteq> Some False"
  by (cases h) auto

lemma toolInfoOf_simps [simp]:
  "ti_Server (toolInfoOf rt n t) = n" "ti_Name (toolInfoOf rt n t) = mt_Name t"
  "ti_Custom (toolInfoOf rt n t) = []"
  "ti_Write (toolInfoOf rt n t) \<longleftrightarrow> \<not> ti_ReadOnly (toolInfoOf rt n t) \<and> \<not> ti_Destructive (toolInfoOf rt n t)"
  "ti_Destructive (toolInfoOf rt n t) \<longleftrightarrow>
     (case mt_Annotations t of None \<Rightarrow> True | Some a \<Rightarrow> ma_DestructiveHint a \<noteq> Some False)"
  "ti_ReadOnly (toolInfoOf rt n t) \<longleftrightarrow>
     (case mt_Annotations t of None \<Rightarrow> False | Some a \<Rightarrow> ma_ReadOnlyHint a)"
  "ti_Idempotent (toolInfoOf rt n t) \<longleftrightarrow>
     (case mt_Annotations t of None \<Rightarrow> False | Some a \<Rightarrow> ma_IdempotentHint a)"
  by (auto simp: toolInfoOf_def zeroToolInfo_def Let_def hint_not_false split: option.split)

text \<open>
  Without enrichers the tool list of a server is the list it advertises, in order, and
  the flags are conservative: a tool is taken to be destructive unless its annotations say
  it is not, so only a tool explicitly marked read-only, idempotent and not destructive is
  served from the cache. What is recorded is the number of tools.\<close>

theorem fetchTools_conservative:
  assumes "o_metaEnrichers opts = []" "fetchTools rt opts c name sess s = (Inr infos, s')"
  shows "\<exists>ts w. rt_ListTools rt sess c (st_env s) = (Inr ts, w) \<and> infos = map (toolInfoOf rt name) ts \<and>
      map ti_Name infos = map mt_Name ts \<and>
      (\<forall>t \<in> set ts. isCacheable (toolInfoOf rt name t) \<longleftrightarrow>
         (\<exists>a. mt_Annotations t = Some a \<and> ma_ReadOnlyHint a \<and> ma_IdempotentHint a \<and>
              ma_DestructiveHint a = Some False)) \<and>
      traced {KRecordToolList} s' = traced {KRecordToolList} s @ [EvRecordToolList name (length ts)]"
  using assms
  by (auto simp: fetchTools_def Let_def toolInfos_plain isCacheable_def split: prod.splits sum.splits option.splits)

lemma fetchTools_traced:
  "KRecordToolList \<notin> K \<Longrightarrow> KListTools \<in> K \<Longrightarrow>
   traced K (snd (fetchTools rt opts c name sess s)) = traced K s @ [EvListTools sess]"
  by (simp add: fetchTools_def Let_def case_prod_beta split: sum.split)

lemma closeSession_traced:
  "traced K (snd (closeSession rt sess s)) = traced K s @ (if KClose \<in> K then [EvClose sess] else [])"
  by (simp add: closeSession_def Let_def case_prod_beta)

section \<open>Connecting\<close>

text \<open>
  C27. \<open>connect\<close> leaks no session: when it succeeds the entry is connected and holds the
  session whose tools were listed; when it fails after a session was opened, that session is
  closed before the error is returned.\<close>

theorem connect_no_leak:
  assumes "connect rt opts c cfg ch s = (res, s')"
  shows "case res of
      Inr entry \<Rightarrow> se_config entry = cfg \<and> se_state entry = ServerStateConnected \<and>
        (\<exists>sess. se_session entry = Some sess \<and>
           traced {KListTools, KClose} s' = traced {KListTools, KClose} s @ [EvListTools sess])
    | Inl e \<Rightarrow> traced {KListTools, KClose} s' = traced {KListTools, KClose} s \<or>
        (\<exists>sess. traced {KListTools, KClose} s' = traced {KListTools, KClose} s @ [EvListTools sess, EvClose sess])"
proof (cases "newTransport (rt_environ rt) cfg opts")
  case (Inl e)
  with assms show ?thesis by (auto simp: connect_def)
next
  case (Inr tp)
  let ?s = "emit (EvConnect (sc_Name cfg)) s"
  obtain r w where conn: "rt_Connect rt c tp (o_clientName opts) (o_clientVersion opts) (st_env ?s) = (r, w)"
    by fastforce
  show ?thesis
  proof (cases r)
    case (Inr sess)
    obtain ft t where f: "fetchTools rt opts c (sc_Name cfg) sess (?s\<lparr>st_env := w\<rparr>) = (ft, t)"
      by fastforce
    have "traced {KListTools, KClose} t = traced {KListTools, KClose} s @ [EvListTools sess]"
      using fetchTools_traced [of "{KListTools, KClose}" rt opts c "sc_Name cfg" sess "?s\<lparr>st_env := w\<rparr>"] f by simp
    with assms conn f Inr \<open>newTransport (rt_environ rt) cfg opts = Inr tp\<close> show ?thesis
      by (cases ft) (auto simp: connect_def closeSession_traced)
  qed (use assms conn Inr in \<open>auto simp: connect_def\<close>)
qed

lemma connect_ok:
  assumes "connect rt opts c cfg ch s = (Inr entry, s')"
  shows "se_config entry = cfg" "se_state entry = ServerStateConnected" "se_session entry \<noteq> None"
    "\<not> se_reconnecting entry" "se_refreshCh entry = Some (ch = Some True)"
  using assms
  by (auto simp: connect_def Let_def split: sum.splits prod.splits option.splits)

section \<open>New\<close>

lemma checkServers_None:
  "checkServers scs names = None \<longleftrightarrow>
     list_all (\<lambda>sc. validate sc = None) scs \<and> distinct (map sc_Name scs) \<and>
     set (map sc_Name scs) \<inter> set names = {}"
  by (induction scs arbitrary: names) (auto split: option.split)

lemma checkAuth_None: "checkAuth scs = None \<longleftrightarrow> list_all (\<lambda>sc. sc_Auth sc = None) scs"
  by (induction scs) auto

definition config_ok :: "MultiplexerConfig \<Rightarrow> 'w options \<Rightarrow> bool" where
  "config_ok cfg opts \<longleftrightarrow> (o_healthCheckSet opts \<longrightarrow> 0 < o_healthCheckInterval opts) \<and>
     list_all (\<lambda>sc. validate sc = None) (mc_Servers cfg) \<and> distinct (map sc_Name (mc_Servers cfg)) \<and>
     (o_authFunc opts = None \<longrightarrow> list_all (\<lambda>sc. sc_Auth sc = None) (mc_Servers cfg))"

lemma checkConfig_None: "checkConfig cfg opts = None \<longleftrightarrow> config_ok cfg opts"
  using checkServers_None [of "mc_Servers cfg" "[]"] checkAuth_None [of "mc_Servers cfg"]
  by (cases "checkServers (mc_Servers cfg) []"; cases "o_authFunc opts")
     (auto simp: checkConfig_def config_ok_def)

text \<open>
  C17. \<open>New\<close> fails exactly on a bad configuration: a health check interval that is not
  positive, a server that does not validate, a name used twice, or credentials without an
  \<open>AuthFunc\<close>. Then nothing was connected and nothing called. A server that cannot be
  reached never makes \<open>New\<close> fail.\<close>

theorem New_accepts:
  "(\<exists>r. fst (New rt bi sched c cfg opts s) = Inr r) = config_ok cfg (applyOptions bi opts) \<and>
   (config_ok cfg (applyOptions bi opts) \<or> st_trace (snd (New rt bi sched c cfg opts s)) = st_trace s)"
  by (auto simp: New_def Let_def checkConfig_None [symmetric] split: option.split prod.split)

text \<open>What the entry of a server looks like after its goroutine ended.\<close>

definition fresh_entry :: "ServerConfig \<Rightarrow> string list \<Rightarrow> serverEntry \<Rightarrow> bool" where
  "fresh_entry sc failed e \<longleftrightarrow> se_config e = sc \<and> se_refreshCh e = Some False \<and>
     (if sc_Name sc \<in> set failed
      then se_state e = ServerStateDown \<and> se_session e = None \<and> se_tools e = [] \<and> se_reconnecting e
      else se_state e = ServerStateConnected \<and> se_session e \<noteq> None \<and> \<not> se_reconnecting e)"

definition connected_so_far ::
  "ServerConfig list \<Rightarrow> (string, serverEntry) gomap \<times> string list \<times> 'w st \<Rightarrow> bool" where
  "connected_so_far scs acc \<longleftrightarrow>
     map fst (fst acc) = map sc_Name scs \<and> distinct (fst (snd acc)) \<and>
     set (fst (snd acc)) \<subseteq> sc_Name ` set scs \<and>
     list_all2 (\<lambda>sc p. fresh_entry sc (fst (snd acc)) (snd p)) scs (fst acc)"

lemma fresh_entry_failed:
  "sc_Name sc \<noteq> n \<Longrightarrow> fresh_entry sc failed e \<Longrightarrow> fresh_entry sc (failed @ [n]) e"
  by (simp add: fresh_entry_def)

lemma connectOne_step:
  assumes "connected_so_far scs acc" "sc_Name sc \<notin> sc_Name ` set scs"
  shows "connected_so_far (scs @ [sc]) (connectOne rt opts c sc acc)"
proof -
  obtain servers failed s where acc: "acc = (servers, failed, s)" by (cases acc) auto
  have old: "map fst servers = map sc_Name scs" "distinct failed" "set failed \<subseteq> sc_Name ` set scs"
      "list_all2 (\<lambda>sc p. fresh_entry sc failed (snd p)) scs servers"
    using assms(1) by (auto simp: connected_so_far_def acc)
  then have fresh: "sc_Name sc \<notin> fst ` set servers" "sc_Name sc \<notin> set failed"
    using assms(2) by (metis image_set, auto)
  have rest: "list_all2 (\<lambda>sc' p. fresh_entry sc' (failed @ [sc_Name sc]) (snd p)) scs servers"
    using old(4) by (rule list.rel_mono_strong) (metis assms(2) fresh_entry_failed image_eqI)
  obtain res s' where conn: "connect rt opts c sc (Some False) s = (res, s')" by fastforce
  show ?thesis
  proof (cases res)
    case (Inl e)
    with conn old fresh rest show ?thesis
      by (auto simp: connectOne_def acc Let_def connected_so_far_def gm_set_fresh fresh_entry_def [of sc]
            intro!: list_all2_appendI)
  next
    case (Inr entry)
    with conn have "fresh_entry sc failed entry"
      using connect_ok [of rt opts c sc "Some False" s entry s'] fresh(2) by (simp add: fresh_entry_def)
    with Inr conn old fresh show ?thesis
      by (auto simp: connectOne_def acc Let_def connected_so_far_def gm_set_fresh intro!: list_all2_appendI)
  qed
qed

lemma connectAll_spec:
  "connected_so_far scs acc \<Longrightarrow> distinct (map sc_Name (scs @ rest)) \<Longrightarrow>
   connected_so_far (scs @ rest) (connectAll rt opts c rest acc)"
proof (induction rest arbitrary: scs acc)
  case (Cons sc rest)
  have "connected_so_far (scs @ [sc]) (connectOne rt opts c sc acc)"
    using Cons.prems by (intro connectOne_step) auto
  from Cons.IH [OF this] Cons.prems(2) show ?case by simp
qed simp

lemma connected_entry:
  assumes "connected_so_far scs (servers, failed, t)" "gm_get servers n = Some e"
  shows "\<exists>sc \<in> set scs. n = sc_Name sc \<and> fresh_entry sc failed e"
proof -
  have keys: "map fst servers = map sc_Name scs"
    and each: "list_all2 (\<lambda>sc p. fresh_entry sc failed (snd p)) scs servers"
    using assms(1) by (simp_all add: connected_so_far_def)
  from map_of_SomeD [OF assms(2)] obtain i where i: "i < length servers" "servers ! i = (n, e)"
    by (metis in_set_conv_nth)
  moreover have "sc_Name (scs ! i) = n" "i < length scs"
    using i keys by (metis fst_conv length_map nth_map, metis i(1) keys length_map)
  ultimately show ?thesis
    using list_all2_nthD2 [OF each i(1)] by (metis nth_mem snd_conv)
qed

lemma kindDefaults_Name [simp]: "sc_Name (kindDefaults cfg sc) = sc_Name sc"
  by (simp add: kindDefaults_def split: option.split)

lemma sched_names:
  assumes "mset scs = mset (map (kindDefaults cfg) (mc_Servers cfg))" "config_ok cfg opts"
  shows "distinct (map sc_Name scs)" "set scs = kindDefaults cfg ` set (mc_Servers cfg)"
proof -
  have "mset (map sc_Name scs) = mset (map sc_Name (mc_Servers cfg))"
    using assms(1) by (simp add: multiset.map_comp comp_def)
  then show "distinct (map sc_Name scs)"
    using assms(2) mset_eq_imp_distinct_iff unfolding config_ok_def by blast
  show "set scs = kindDefaults cfg ` set (mc_Servers cfg)"
    using mset_eq_setD [OF assms(1)] by simp
qed

lemma New_result:
  fixes rt :: "'w rt"
  assumes sched: "\<And>xs. mset (sched xs) = mset xs"
    and new: "New rt bi sched c cfg opts s = (Inr (mx, gs), s')"
  obtains scs failed and t :: "'w st" where "distinct (map sc_Name scs)" "set scs = kindDefaults cfg ` set (mc_Servers cfg)"
    "connected_so_far scs (mx_servers mx, failed, t)" "mx_opts mx = applyOptions bi opts"
    "gs = map GoReconnect failed @ map (GoToolRefresh \<circ> fst) (mx_servers mx) @
       (if 0 < o_healthCheckInterval (applyOptions bi opts) then [GoSupervisor] else [])"
proof -
  let ?opts = "applyOptions bi opts"
  let ?scs = "sched (map (kindDefaults cfg) (mc_Servers cfg))"
  have "config_ok cfg ?opts"
    using new by (auto simp: New_def Let_def checkConfig_None [symmetric] split: option.splits)
  note scs = sched_names [OF sched this]
  obtain failed t t' where mx: "mx_opts mx = ?opts"
      "connectAll rt ?opts c ?scs ([], [], t) = (mx_servers mx, failed, t')"
      "gs = map GoReconnect failed @ map (GoToolRefresh \<circ> fst) (mx_servers mx) @
         (if 0 < o_healthCheckInterval ?opts then [GoSupervisor] else [])"
    using new by (fastforce simp: New_def Let_def split: option.splits prod.splits)
  have "connected_so_far [] ([], [], t)"
    by (simp add: connected_so_far_def)
  from connectAll_spec [OF this, of ?scs rt ?opts c] scs(1) mx(2) have "connected_so_far ?scs (mx_servers mx, failed, t')"
    by simp
  from that [OF scs this mx(1,3)] show thesis .
qed

lemma New_entries:
  fixes rt :: "'w rt"
  assumes sched: "\<And>xs. mset (sched xs) = mset xs"
    and new: "New rt bi sched c cfg opts s = (Inr (mx, gs), s')"
  shows "gm_ok (mx_servers mx) \<and> fst ` set (mx_servers mx) = sc_Name ` set (mc_Servers cfg) \<and> distinct gs \<and>
    (GoSupervisor \<in> set gs \<longleftrightarrow> 0 < o_healthCheckInterval (mx_opts mx)) \<and>
    (\<forall>n. GoReconnect n \<in> set gs \<longrightarrow> n \<in> fst ` set (mx_servers mx)) \<and>
    (\<forall>n e. gm_get (mx_servers mx) n = Some e \<longrightarrow>
       (\<exists>sc \<in> set (mc_Servers cfg). n = sc_Name sc \<and> se_config e = kindDefaults cfg sc) \<and>
       GoToolRefresh n \<in> set gs \<and>
       (if GoReconnect n \<in> set gs
        then se_state e = ServerStateDown \<and> se_session e = None \<and> se_tools e = [] \<and> se_reconnecting e
        else se_state e = ServerStateConnected \<and> se_session e \<noteq> None \<and> \<not> se_reconnecting e))"
proof -
  obtain scs failed and t :: "'w st"
    where scs: "distinct (map sc_Name scs)" "set scs = kindDefaults cfg ` set (mc_Servers cfg)"
      and fin: "connected_so_far scs (mx_servers mx, failed, t)" and mx: "mx_opts mx = applyOptions bi opts"
        "gs = map GoReconnect failed @ map (GoToolRefresh \<circ> fst) (mx_servers mx) @
         (if 0 < o_healthCheckInterval (applyOptions bi opts) then [GoSupervisor] else [])"
    by (rule New_result [OF sched new])
  have keys: "map fst (mx_servers mx) = map sc_Name scs" and fd: "distinct failed"
    using fin by (simp_all add: connected_so_far_def)
  have gm: "gm_ok (mx_servers mx)"
    using keys scs by (simp add: gm_ok_def)
  have gs: "GoReconnect n \<in> set gs \<longleftrightarrow> n \<in> set failed"
      "GoToolRefresh n \<in> set gs \<longleftrightarrow> n \<in> fst ` set (mx_servers mx)" for n
    by (auto simp: mx(2))
  have "distinct gs"
    using fd gm by (auto simp: mx(2) gm_ok_def distinct_map inj_on_def)
  moreover have "fst ` set (mx_servers mx) = sc_Name ` set (mc_Servers cfg)"
    using arg_cong [OF keys, of set] by (simp add: scs image_image)
  moreover have "(\<exists>sc \<in> set (mc_Servers cfg). n = sc_Name sc \<and> se_config e = kindDefaults cfg sc) \<and>
       GoToolRefresh n \<in> set gs \<and>
       (if GoReconnect n \<in> set gs
        then se_state e = ServerStateDown \<and> se_session e = None \<and> se_tools e = [] \<and> se_reconnecting e
        else se_state e = ServerStateConnected \<and> se_session e \<noteq> None \<and> \<not> se_reconnecting e)"
    if "gm_get (mx_servers mx) n = Some e" for n e
    using connected_entry [OF fin that] map_of_SomeD [OF that]
    by (force simp: gs fresh_entry_def scs split: if_splits)
  moreover have "n \<in> fst ` set (mx_servers mx)" if "GoReconnect n \<in> set gs" for n
    using that arg_cong [OF keys, of set] fin by (auto simp: gs connected_so_far_def)
  ultimately show ?thesis
    using gm by (auto simp: mx)
qed

text \<open>The state in which \<open>New\<close> starts to connect, and the one in which it connects after \<open>pre\<close>.\<close>

definition fresh_state :: "'w options \<Rightarrow> 'w st \<Rightarrow> 'w st" where
  "fresh_state opts s =
     (if \<not> o_cacheDisabled opts \<and> o_cache opts = None then s\<lparr>st_cache := newLRUCache (o_cacheSize opts)\<rparr> else s)
       \<lparr>st_scopeWarned := False, st_ttlWarned := []\<rparr>"

definition turn_of :: "'w rt \<Rightarrow> 'w options \<Rightarrow> ctx \<Rightarrow> ServerConfig list \<Rightarrow> 'w st \<Rightarrow> 'w st" where
  "turn_of rt opts c pre s = snd (snd (connectAll rt opts c pre ([], [], fresh_state opts s)))"

lemma connectAll_append: "connectAll rt opts c (xs @ ys) acc = connectAll rt opts c ys (connectAll rt opts c xs acc)"
  by (induction xs arbitrary: acc) simp_all

lemma connectOne_other:
  "sc_Name sc \<noteq> n \<Longrightarrow> gm_get (fst (connectOne rt opts c sc acc)) n = gm_get (fst acc) n \<and>
   (n \<in> set (fst (snd (connectOne rt opts c sc acc))) \<longleftrightarrow> n \<in> set (fst (snd acc)))"
  by (auto simp: connectOne_def Let_def gm_get_set split: prod.split sum.split)

lemma connectAll_other:
  "n \<notin> sc_Name ` set scs \<Longrightarrow> gm_get (fst (connectAll rt opts c scs acc)) n = gm_get (fst acc) n \<and>
   (n \<in> set (fst (snd (connectAll rt opts c scs acc))) \<longleftrightarrow> n \<in> set (fst (snd acc)))"
proof (induction scs arbitrary: acc)
  case (Cons sc scs)
  then show ?case using connectOne_other [of sc n rt opts c acc] by auto
qed simp

lemma connectOne_this:
  "n = sc_Name sc \<Longrightarrow> n \<notin> set (fst (snd acc)) \<Longrightarrow>
   (case fst (connect rt opts c sc (Some False) (snd (snd acc))) of
      Inr entry \<Rightarrow> gm_get (fst (connectOne rt opts c sc acc)) n = Some entry \<and> n \<notin> set (fst (snd (connectOne rt opts c sc acc)))
    | Inl err \<Rightarrow> n \<in> set (fst (snd (connectOne rt opts c sc acc))))"
  by (auto simp: connectOne_def Let_def gm_get_set split: prod.split sum.split)

lemma New_turn:
  assumes sched: "\<And>xs. mset (sched xs) = mset xs"
    and new: "New rt bi sched c cfg opts s = (Inr (mx, gs), s')" and sc: "sc \<in> set (mc_Servers cfg)"
  shows "\<exists>pre post. sched (map (kindDefaults cfg) (mc_Servers cfg)) = pre @ kindDefaults cfg sc # post \<and>
    (case fst (connect rt (mx_opts mx) c (kindDefaults cfg sc) (Some False) (turn_of rt (mx_opts mx) c pre s)) of
       Inr entry \<Rightarrow> gm_get (mx_servers mx) (sc_Name sc) = Some entry \<and> GoReconnect (sc_Name sc) \<notin> set gs
     | Inl err \<Rightarrow> GoReconnect (sc_Name sc) \<in> set gs)"
proof -
  let ?scs = "sched (map (kindDefaults cfg) (mc_Servers cfg))" and ?sc = "kindDefaults cfg sc"
  have o: "mx_opts mx = applyOptions bi opts" and "config_ok cfg (applyOptions bi opts)"
    using new by (auto simp: New_def Let_def checkConfig_None [symmetric] split: option.splits prod.splits)
  note names = sched_names [OF sched this(2)]
  have "?sc \<in> set ?scs" using names(2) sc by simp
  then obtain pre post where split: "?scs = pre @ ?sc # post" by (auto dest: split_list)
  have apart: "sc_Name sc \<notin> sc_Name ` set pre" "sc_Name sc \<notin> sc_Name ` set post"
    using names(1) split by (auto simp: image_iff)
  let ?acc = "([], [], fresh_state (mx_opts mx) s)"
  let ?pre = "connectAll rt (mx_opts mx) c pre ?acc"
  let ?fin = "connectAll rt (mx_opts mx) c ?scs ?acc"
  have fin: "fst ?fin = mx_servers mx" "GoReconnect n \<in> set gs \<longleftrightarrow> n \<in> set (fst (snd ?fin))" for n
    using new unfolding o fresh_state_def
    by (auto simp: New_def Let_def split: option.splits prod.splits if_splits)
  have "sc_Name sc \<notin> set (fst (snd ?pre))"
    using connectAll_other [OF apart(1), of rt "mx_opts mx" c ?acc] by simp
  note this' = connectOne_this [of "sc_Name sc" ?sc ?pre rt "mx_opts mx" c, OF kindDefaults_Name [symmetric] this]
  define one where "one = connectOne rt (mx_opts mx) c ?sc ?pre"
  have "?fin = connectAll rt (mx_opts mx) c post one" by (simp add: split connectAll_append one_def)
  with fin connectAll_other [OF apart(2), of rt "mx_opts mx" c one]
  have "gm_get (mx_servers mx) (sc_Name sc) = gm_get (fst one) (sc_Name sc)"
    "GoReconnect (sc_Name sc) \<in> set gs \<longleftrightarrow> sc_Name sc \<in> set (fst (snd one))" by metis+
  with this' have "case fst (connect rt (mx_opts mx) c ?sc (Some False) (turn_of rt (mx_opts mx) c pre s)) of
       Inr entry \<Rightarrow> gm_get (mx_servers mx) (sc_Name sc) = Some entry \<and> GoReconnect (sc_Name sc) \<notin> set gs
     | Inl err \<Rightarrow> GoReconnect (sc_Name sc) \<in> set gs"
    unfolding one_def [symmetric] turn_of_def by (auto split: sum.splits)
  with split show ?thesis by blast
qed

text \<open>
  C16. After \<open>New\<close> every configured server is registered exactly once, with its settings
  completed by the defaults of its kind, whatever order the goroutines ran in. If connecting
  to it succeeded when its turn came, it is registered as what \<open>connect\<close> returned: connected,
  with a session, and without a reconnect goroutine. If connecting failed, it is registered
  without session and tools, is flagged as being reconnected and has exactly one reconnect
  goroutine; with a health check its state is down. (Without one the state is not part of the
  statement: the comment on \<open>WithHealthCheck\<close> promises connected there.) Every server has one
  refresh goroutine, and there is one supervisor exactly when a health check was asked for.\<close>

theorem New_registers:
  fixes rt :: "'w rt"
  assumes sched: "\<And>xs. mset (sched xs) = mset xs"
    and new: "New rt bi sched c cfg opts s = (Inr (mx, gs), s')"
  shows "gm_ok (mx_servers mx) \<and> fst ` set (mx_servers mx) = sc_Name ` set (mc_Servers cfg) \<and> distinct gs \<and>
    (GoSupervisor \<in> set gs \<longleftrightarrow> 0 < o_healthCheckInterval (mx_opts mx)) \<and>
    (\<forall>n. GoReconnect n \<in> set gs \<longrightarrow> n \<in> fst ` set (mx_servers mx)) \<and>
    (\<forall>sc \<in> set (mc_Servers cfg). GoToolRefresh (sc_Name sc) \<in> set gs \<and>
       (\<exists>pre post e. sched (map (kindDefaults cfg) (mc_Servers cfg)) = pre @ kindDefaults cfg sc # post \<and>
          gm_get (mx_servers mx) (sc_Name sc) = Some e \<and> se_config e = kindDefaults cfg sc \<and>
          (case fst (connect rt (mx_opts mx) c (kindDefaults cfg sc) (Some False) (turn_of rt (mx_opts mx) c pre s)) of
             Inr entry \<Rightarrow> e = entry \<and> se_state e = ServerStateConnected \<and> se_session e \<noteq> None \<and>
               \<not> se_reconnecting e \<and> GoReconnect (sc_Name sc) \<notin> set gs
           | Inl err \<Rightarrow> se_session e = None \<and> se_tools e = [] \<and> se_reconnecting e \<and> GoReconnect (sc_Name sc) \<in> set gs \<and>
               (0 < o_healthCheckInterval (mx_opts mx) \<longrightarrow> se_state e = ServerStateDown))))"
proof -
  note facts = New_entries [OF sched new]
  have each: "GoToolRefresh (sc_Name sc) \<in> set gs \<and>
      (\<exists>pre post e. sched (map (kindDefaults cfg) (mc_Servers cfg)) = pre @ kindDefaults cfg sc # post \<and>
          gm_get (mx_servers mx) (sc_Name sc) = Some e \<and> se_config e = kindDefaults cfg sc \<and>
          (case fst (connect rt (mx_opts mx) c (kindDefaults cfg sc) (Some False) (turn_of rt (mx_opts mx) c pre s)) of
             Inr entry \<Rightarrow> e = entry \<and> se_state e = ServerStateConnected \<and> se_session e \<noteq> None \<and>
               \<not> se_reconnecting e \<and> GoReconnect (sc_Name sc) \<notin> set gs
           | Inl err \<Rightarrow> se_session e = None \<and> se_tools e = [] \<and> se_reconnecting e \<and> GoReconnect (sc_Name sc) \<in> set gs \<and>
               (0 < o_healthCheckInterval (mx_opts mx) \<longrightarrow> se_state e = ServerStateDown)))"
    if sc: "sc \<in> set (mc_Servers cfg)" for sc
  proof -
    have "sc_Name sc \<in> fst ` set (mx_servers mx)" using facts sc by (metis image_eqI)
    then obtain e where e: "gm_get (mx_servers mx) (sc_Name sc) = Some e"
      by (metis map_of_eq_None_iff not_None_eq)
    have "config_ok cfg (applyOptions bi opts)"
      using new by (auto simp: New_def Let_def checkConfig_None [symmetric] split: option.splits)
    then have "distinct (map sc_Name (mc_Servers cfg))" by (simp add: config_ok_def)
    with facts e sc have cfg: "se_config e = kindDefaults cfg sc"
      by (metis (no_types, lifting) distinct_map inj_on_def)
    from New_turn [OF sched new sc] obtain pre post where turn:
      "sched (map (kindDefaults cfg) (mc_Servers cfg)) = pre @ kindDefaults cfg sc # post"
      "case fst (connect rt (mx_opts mx) c (kindDefaults cfg sc) (Some False) (turn_of rt (mx_opts mx) c pre s)) of
         Inr entry \<Rightarrow> gm_get (mx_servers mx) (sc_Name sc) = Some entry \<and> GoReconnect (sc_Name sc) \<notin> set gs
       | Inl err \<Rightarrow> GoReconnect (sc_Name sc) \<in> set gs" by blast
    have kind: "GoToolRefresh (sc_Name sc) \<in> set gs \<and> (if GoReconnect (sc_Name sc) \<in> set gs
        then se_state e = ServerStateDown \<and> se_session e = None \<and> se_tools e = [] \<and> se_reconnecting e
        else se_state e = ServerStateConnected \<and> se_session e \<noteq> None \<and> \<not> se_reconnecting e)"
      using facts e by presburger
    show ?thesis
      using turn cfg e kind
      by (cases "fst (connect rt (mx_opts mx) c (kindDefaults cfg sc) (Some False) (turn_of rt (mx_opts mx) c pre s))") auto
  qed
  note f = facts [THEN conjunct1] facts [THEN conjunct2, THEN conjunct1] facts [THEN conjunct2, THEN conjunct2, THEN conjunct1]
    facts [THEN conjunct2, THEN conjunct2, THEN conjunct2, THEN conjunct1]
    facts [THEN conjunct2, THEN conjunct2, THEN conjunct2, THEN conjunct2, THEN conjunct1]
  show ?thesis by (intro conjI f ballI) (drule each, elim conjE, assumption)+
qed

section \<open>NewFromSessions and Close\<close>

lemma fromSessions_spec:
  "distinct (map fst servers @ map fst sessions) \<Longrightarrow>
   fromSessions rt opts c sessions servers s = (servers', s') \<Longrightarrow>
   \<exists>new. servers' = servers @ new \<and> map (\<lambda>(n, e). (n, se_session e)) new = map (\<lambda>(n, x). (n, Some x)) sessions \<and>
     list_all (\<lambda>(n, e). se_state e = ServerStateConnected \<and> \<not> se_reconnecting e \<and> se_refreshCh e = None) new"
proof (induction sessions arbitrary: servers s)
  case (Cons p sessions)
  obtain n x where p: "p = (n, x)" by fastforce
  obtain e t where step: "fromSessions rt opts c sessions (servers @ [(n, e)]) t = (servers', s')"
      "se_session e = Some x" "se_state e = ServerStateConnected" "\<not> se_reconnecting e" "se_refreshCh e = None"
    using Cons.prems by (fastforce simp: p Let_def gm_set_fresh split: prod.splits)
  from Cons.IH [OF _ step(1)] Cons.prems(1) step(2-) show ?case
    by (fastforce simp: p)
qed simp

text \<open>
  A multiplexer made from sessions registers exactly those sessions under their names,
  all connected, so no call panics in it; it has no built-in cache, so without a custom cache
  no call is answered from one.\<close>

theorem NewFromSessions_spec:
  assumes "gm_ok sessions" "NewFromSessions rt bi c sessions opts s = (mx, s')"
  shows "map (\<lambda>(n, e). (n, se_session e)) (mx_servers mx) = map (\<lambda>(n, x). (n, Some x)) sessions \<and>
    sessions_present mx \<and> ServerNames mx = sort (map fst sessions) \<and>
    (o_cache (mx_opts mx) = None \<longrightarrow> activeCache mx = NoCache)"
proof -
  obtain t where "fromSessions rt (applyOptions bi opts) c sessions [] t = (mx_servers mx, s')"
    and mx: "mx_builtinCache mx = False"
    using assms(2) by (auto simp: NewFromSessions_def Let_def split: prod.splits)
  from fromSessions_spec [OF _ this(1)] assms(1)
  have m: "map (\<lambda>(n, e). (n, se_session e)) (mx_servers mx) = map (\<lambda>(n, x). (n, Some x)) sessions"
    and l: "list_all (\<lambda>(n, e). se_state e = ServerStateConnected \<and> \<not> se_reconnecting e \<and> se_refreshCh e = None)
      (mx_servers mx)"
    by (auto simp: gm_ok_def)
  have "map fst (mx_servers mx) = map fst sessions"
    using arg_cong [OF m, of "map fst"] by (simp add: comp_def case_prod_beta)
  moreover have "filter (\<lambda>(n, e). se_state e \<noteq> ServerStateDown) (mx_servers mx) = mx_servers mx"
    using l by (auto simp: list_all_iff filter_id_conv)
  moreover have "se_session e \<noteq> None" if "(n, e) \<in> set (mx_servers mx)" for n e
    using arg_cong [OF m, of set] that by force
  ultimately show ?thesis
    using m mx by (auto simp: sessions_present_def list_all_iff ServerNames_def activeCache_def)
qed

lemma closeAll_traced:
  "traced {KClose} (closeAll rt opts ps s) =
     traced {KClose} s @ concat (map (\<lambda>(n, e). case se_session e of None \<Rightarrow> [] | Some x \<Rightarrow> [EvClose x]) ps)"
proof (induction ps arbitrary: s)
  case (Cons p ps)
  then show ?case
    by (cases p) (simp add: Let_def case_prod_beta closeSession_traced split: option.split)
qed simp

text \<open>
  C35. \<open>Close\<close> closes every session of the multiplexer exactly once and no other, and goes
  on when closing one fails.\<close>

theorem Close_closes_all:
  "traced {KClose} (Close rt mx s) =
     traced {KClose} s @ map EvClose (List.map_filter (se_session \<circ> snd) (mx_servers mx))"
proof -
  have "concat (map (\<lambda>(n, e). case se_session e of None \<Rightarrow> [] | Some x \<Rightarrow> [EvClose x]) ps) =
      map EvClose (List.map_filter (se_session \<circ> snd) ps)" for ps :: "(string, serverEntry) gomap"
    by (induction ps) (auto simp: map_filter_simps split: option.split)
  then show ?thesis
    by (simp add: Close_def closeAll_traced)
qed

section \<open>A concrete configuration\<close>

text \<open>Two servers, of which the one with an HTTP transport cannot be reached.\<close>

definition mux_tool :: mcp_tool where
  "mux_tool = \<lparr>mt_Name = ''get'', mt_Description = [], mt_InputSchema = None,
     mt_Annotations = Some \<lparr>ma_ReadOnlyHint = True, ma_DestructiveHint = Some False, ma_IdempotentHint = True,
       ma_OpenWorldHint = None\<rparr>\<rparr>"

definition mux_rt :: "int rt" where
  "mux_rt = demo_rt\<lparr>rt_ListTools := (\<lambda>sess c w. (Inr [mux_tool], w)),
     rt_Connect := (\<lambda>c tp a b w. (case tp of CommandTransport x y z \<Rightarrow> Inr 5 | _ \<Rightarrow> Inl (ErrText ''refused''), w))\<rparr>"

definition mux_cfg :: MultiplexerConfig where
  "mux_cfg = \<lparr>mc_Servers = [zeroServerConfig\<lparr>sc_Name := ''a'', sc_Transport := ''stdio'', sc_Binary := ''x''\<rparr>,
       zeroServerConfig\<lparr>sc_Name := ''b'', sc_Transport := ''http'', sc_URL := ''u''\<rparr>],
     mc_KindSettings = [], mc_KindHints = None\<rparr>"

definition mux_new :: "(err + int mx \<times> goroutine list) \<times> int st" where
  "mux_new = New mux_rt None rev ctx_Background mux_cfg [WithHealthCheck second] demo_st"

lemma mux_new_ok: "\<exists>mx gs s'. mux_new = (Inr (mx, gs), s')"
proof -
  have "\<not> isl (fst mux_new)" by code_simp
  then show ?thesis
    by (metis isl_def pair_by_fst prod.exhaust sum.exhaust)
qed

lemma mux_simps: "rt_ListTools mux_rt sess c w = (Inr [mux_tool], w)" "mt_Name mux_tool = ''get''"
  "o_metaEnrichers (defaultOptions None) = []"
  by (simp_all add: mux_rt_def mux_tool_def defaultOptions_def)

theorem fetchTools_conservative_witness:
  "\<exists>infos. fst (fetchTools mux_rt (defaultOptions None) ctx_Background ''a'' 5 demo_st) = Inr infos \<and>
     map ti_Name infos = [''get'']"
proof -
  have f: "fst (fetchTools mux_rt (defaultOptions None) ctx_Background ''a'' 5 demo_st) =
      Inr [toolInfoOf mux_rt ''a'' mux_tool]"
    by code_simp
  from fetchTools_conservative [OF mux_simps(3) pair_by_fst [OF f]] f show ?thesis
    by (auto simp: mux_simps)
qed

theorem connect_no_leak_witness:
  "\<exists>entry sess. fst (connect mux_rt (defaultOptions None) ctx_Background (hd (mc_Servers mux_cfg)) None demo_st) = Inr entry \<and>
     se_session entry = Some sess \<and> se_state entry = ServerStateConnected"
proof -
  have "\<not> isl (fst (connect mux_rt (defaultOptions None) ctx_Background (hd (mc_Servers mux_cfg)) None demo_st))"
    by code_simp
  then obtain entry where
    e: "fst (connect mux_rt (defaultOptions None) ctx_Background (hd (mc_Servers mux_cfg)) None demo_st) = Inr entry"
    by (metis isl_def sum.exhaust)
  from connect_no_leak [OF pair_by_fst [OF e]] e show ?thesis by auto
qed

theorem New_registers_witness:
  "\<exists>mx gs s'. mux_new = (Inr (mx, gs), s') \<and> gm_ok (mx_servers mx) \<and> fst ` set (mx_servers mx) = {''a'', ''b''}"
proof -
  obtain mx gs s' where n: "mux_new = (Inr (mx, gs), s')" using mux_new_ok by blast
  from New_registers [OF _ n [unfolded mux_new_def]] n show ?thesis
    by (auto simp: mux_cfg_def)
qed

theorem NewFromSessions_spec_witness:
  "ServerNames (fst (NewFromSessions mux_rt None ctx_Background [(''z'', 1), (''y'', 2)] [] demo_st)) = [''y'', ''z'']"
proof -
  have "gm_ok [(''z'', 1), (''y'', 2)]" by (simp add: gm_ok_def)
  from NewFromSessions_spec [OF this surjective_pairing, of mux_rt None ctx_Background "[]" demo_st] show ?thesis
    by (simp add: insort_key.simps)
qed

end
