(* ===== verification/View.thy ===== *)
theory View
  imports Multiplexer
begin

text \<open>
  Views and adapters: \<open>filter.go\<close>, \<open>eino/eino.go\<close>, \<open>log/sloglog/slog.go\<close> and
  \<open>log/zaplog/zap.go\<close>. A view holds a pointer to its parent, so its operations take the
  parent as it is at the time of the call.
\<close>

section \<open>Definitions\<close>

subsection \<open>Views\<close>

record View =
  v_names :: "string list"
  v_servers :: "(string, serverEntry) gomap"

text \<open>The loop of \<open>FilterByNames\<close>: the names not found and the entries found so far.\<close>

fun filterNames ::
  "'w mx \<Rightarrow> string list \<Rightarrow> string list \<times> (string, serverEntry) gomap \<Rightarrow> string list \<times> (string, serverEntry) gomap" where
  "filterNames mx [] acc = acc"
| "filterNames mx (name # names) (missing, servers) =
     (case gm_get (mx_servers mx) name of
        None \<Rightarrow> filterNames mx names (missing @ [name], servers)
      | Some entry \<Rightarrow> filterNames mx names (missing, gm_set name entry servers))"

definition FilterByNames :: "'w mx \<Rightarrow> string list \<Rightarrow> err + View" where
  "FilterByNames mx names =
     (let available = sort (map fst (mx_servers mx));
          (missing, servers) = filterNames mx names ([], [])
      in if missing \<noteq> [] then Inl (UnknownServersInView missing available)
         else Inr \<lparr>v_names = names, v_servers = servers\<rparr>)"

definition View_ServerNames :: "View \<Rightarrow> string list" where
  "View_ServerNames v = v_names v"

definition View_Tools :: "'w mx \<Rightarrow> View \<Rightarrow> ToolInfo list" where
  "View_Tools mx v = ToolsForServers mx (v_names v)"

definition View_CallTool ::
  "'w rt \<Rightarrow> 'w mx \<Rightarrow> View \<Rightarrow> ctx \<Rightarrow> string \<Rightarrow> string \<Rightarrow> bytes \<Rightarrow> 'w st \<Rightarrow> 'w call_outcome" where
  "View_CallTool rt mx v c server tool argsJSON s =
     (case gm_get (v_servers v) server of
        None \<Rightarrow> (Ret (None, Some (NotInView server)), s)
      | Some _ \<Rightarrow> CallTool rt mx c server tool argsJSON s)"

subsection \<open>Eino tools\<close>

text \<open>The multiplexer of a tool is the one it was made from, again as it is when called.\<close>

record mcpxTool =
  mt_server :: string
  mt_info :: ToolInfo

definition Tools :: "'w mx \<Rightarrow> mcpxTool list" where
  "Tools mx = map (\<lambda>ti. \<lparr>mt_server = ti_Server ti, mt_info = ti\<rparr>) (AllTools mx)"

definition ToolsForServer :: "'w mx \<Rightarrow> string \<Rightarrow> mcpxTool list" where
  "ToolsForServer mx server =
     map (\<lambda>ti. \<lparr>mt_server = server, mt_info = ti\<rparr>) (ToolsForServers mx [server])"

text \<open>\<open>parseSchema\<close> stands for decoding and wrapping by the schema packages.\<close>

definition inputSchemaToParams :: "(bytes \<Rightarrow> 'p option) \<Rightarrow> bytes \<Rightarrow> 'p option" where
  "inputSchemaToParams parseSchema raw = (if raw = [] then None else parseSchema raw)"

definition Info :: "(bytes \<Rightarrow> 'p option) \<Rightarrow> mcpxTool \<Rightarrow> string \<times> string \<times> 'p option" where
  "Info parseSchema t =
     (ti_Name (mt_info t), ti_Description (mt_info t), inputSchemaToParams parseSchema (ti_InputSchema (mt_info t)))"

definition InvokableRun ::
  "'w rt \<Rightarrow> 'w mx \<Rightarrow> mcpxTool \<Rightarrow> ctx \<Rightarrow> string \<Rightarrow> 'w st \<Rightarrow> (string \<times> err option) outcome \<times> 'w st" where
  "InvokableRun rt mx t c argumentsInJSON s =
     (case CallTool rt mx c (mt_server t) (ti_Name (mt_info t)) argumentsInJSON s of
        (Panic, s) \<Rightarrow> (Panic, s)
      | (Ret (result, Some e), s) \<Rightarrow> (Ret ([], Some e), s)
      | (Ret (Some result, None), s) \<Rightarrow> (Ret (cr_Text result, None), s)
      | (Ret (None, None), s) \<Rightarrow> (Panic, s))"

subsection \<open>Log adapters\<close>

text \<open>
  The wrapped logger is a parameter, \<open>None\<close> for a nil pointer; an attribute is a key with a
  value of any type, for \<open>slog.Any\<close> and for \<open>zap.Any\<close>.
\<close>

definition toAttrs :: "Field list \<Rightarrow> (string \<times> fieldval) list option" where
  "toAttrs fs = (if fs = [] then None else Some (map (\<lambda>(k, v). (k, v)) fs))"

definition toZap :: "Field list \<Rightarrow> (string \<times> fieldval) list option" where
  "toZap fs = (if fs = [] then None else Some (map (\<lambda>i. (fst (fs ! i), snd (fs ! i))) [0..<length fs]))"

definition sloglog_New ::
  "(level \<Rightarrow> string \<Rightarrow> (string \<times> fieldval) list option \<Rightarrow> 'w \<Rightarrow> 'w) option \<Rightarrow> 'w Logger" where
  "sloglog_New l = (case l of None \<Rightarrow> NopLogger | Some l \<Rightarrow> (\<lambda>lvl msg fs. l lvl msg (toAttrs fs)))"

definition zaplog_New ::
  "(level \<Rightarrow> string \<Rightarrow> (string \<times> fieldval) list option \<Rightarrow> 'w \<Rightarrow> 'w) option \<Rightarrow> 'w Logger" where
  "zaplog_New l = (case l of None \<Rightarrow> NopLogger | Some l \<Rightarrow> (\<lambda>lvl msg fs. l lvl msg (toZap fs)))"

section \<open>Views are confined\<close>

lemma filterNames_spec:
  "fst (filterNames mx names (missing, servers)) =
     missing @ filter (\<lambda>n. gm_get (mx_servers mx) n = None) names"
  by (induction names arbitrary: missing servers) (simp_all split: option.split)

lemma filterNames_dom:
  "(gm_get (snd (filterNames mx names (missing, servers))) n = None) =
     (gm_get servers n = None \<and> (n \<notin> set names \<or> gm_get (mx_servers mx) n = None))"
  by (induction names arbitrary: missing servers) (auto split: option.split)

text \<open>
  \<open>FilterByNames\<close> fails exactly when some name is not registered, and the error lists
  all such names in the order given, with the sorted list of the names there are.\<close>

theorem FilterByNames_spec:
  "FilterByNames mx names =
     (let missing = filter (\<lambda>n. gm_get (mx_servers mx) n = None) names in
      if missing = [] then Inr \<lparr>v_names = names, v_servers = snd (filterNames mx names ([], []))\<rparr>
      else Inl (UnknownServersInView missing (sort (map fst (mx_servers mx)))))"
  by (simp add: FilterByNames_def Let_def case_prod_beta filterNames_spec)

text \<open>
  C34. A view is confined to its names: a call through it to any other server returns an error
  that matches \<open>ErrServerNotFound\<close> and changes nothing, not even by running a hook; a call
  to one of its servers is exactly the parent's call; and it lists no other server's tools.\<close>

theorem View_confined:
  assumes "FilterByNames mx names = Inr v"
  shows "(server \<in> set names \<longrightarrow> View_CallTool rt mx' v c server tool args s = CallTool rt mx' c server tool args s) \<and>
    (server \<notin> set names \<longrightarrow> (\<exists>e. View_CallTool rt mx' v c server tool args s = (Ret (None, Some e), s) \<and>
       errors_Is e ErrServerNotFound)) \<and>
    View_Tools mx' v = ToolsForServers mx' names"
proof -
  have v: "v_names v = names" "v_servers v = snd (filterNames mx names ([], []))"
    and known: "filter (\<lambda>n. gm_get (mx_servers mx) n = None) names = []"
    using assms by (auto simp: FilterByNames_spec Let_def split: if_splits)
  then have "gm_get (v_servers v) server = None \<longleftrightarrow> server \<notin> set names"
    by (auto simp: filterNames_dom filter_empty_conv)
  then show ?thesis
    by (auto simp: View_CallTool_def View_Tools_def v split: option.split)
qed

theorem View_confined_witness:
  "\<exists>v. FilterByNames reg_demo [''k1''] = Inr v \<and> View_Tools reg_demo v = [reg_tool ''k1'' ''get'']"
proof -
  have "filter (\<lambda>n. gm_get (mx_servers reg_demo) n = None) [''k1''] = []"
    by code_simp
  then obtain v where v: "FilterByNames reg_demo [''k1''] = Inr v"
    by (simp add: FilterByNames_spec)
  have "ToolsForServers reg_demo [''k1''] = [reg_tool ''k1'' ''get'']" by code_simp
  with View_confined [OF v, where mx' = reg_demo] v show ?thesis by simp
qed

section \<open>Adapters\<close>

text \<open>
  An eino tool runs its own tool of its own server: the outcome is the text of the
  result, or the error of the call with an empty text, and there is a panic only where
  \<open>CallTool\<close> itself panics; a nil result is never read.\<close>

theorem InvokableRun_spec:
  "InvokableRun rt mx t c a s =
     (case CallTool rt mx c (mt_server t) (ti_Name (mt_info t)) a s of
        (Panic, s') \<Rightarrow> (Panic, s')
      | (Ret (r, e), s') \<Rightarrow> (Ret (case r of Some res \<Rightarrow> cr_Text res | None \<Rightarrow> [], e), s'))"
  using CallTool_result_or_error [of rt mx c "mt_server t" "ti_Name (mt_info t)" a s]
  by (auto simp: InvokableRun_def one_of_def split: prod.split outcome.split option.split)

lemma Tools_are_listed:
  "map mt_info (Tools mx) = AllTools mx" "map mt_info (ToolsForServer mx server) = ToolsForServers mx [server]"
  by (simp_all add: Tools_def ToolsForServer_def comp_def)

lemma log_adapters_agree: "toZap = toAttrs" "sloglog_New = zaplog_New"
proof -
  have "map (\<lambda>i. (fst (fs ! i), snd (fs ! i))) [0..<length fs] = fs" for fs :: "Field list"
    by (simp add: map_nth)
  then show "toZap = toAttrs" by (auto simp: toZap_def toAttrs_def fun_eq_iff)
  then show "sloglog_New = zaplog_New" by (intro ext) (simp add: sloglog_New_def zaplog_New_def split: option.split)
qed

text \<open>
  Both log adapters hand every record to the wrapped logger with its level, its message
  and all its fields in order, and log nothing when there is no logger.\<close>

theorem log_adapters_lossless:
  "sloglog_New (Some l) lvl msg fs w = l lvl msg (if fs = [] then None else Some fs) w \<and>
   zaplog_New (Some l) lvl msg fs w = l lvl msg (if fs = [] then None else Some fs) w \<and>
   sloglog_New None = NopLogger \<and> zaplog_New None = NopLogger"
  by (simp add: log_adapters_agree [symmetric]) (simp add: sloglog_New_def toAttrs_def)

end
