(* ===== verification/Health.thy ===== *)
theory Health
  imports Multiplexer
begin

text \<open>
  The goroutines that run beside the calls: health check and reconnect, \<open>healthcheck.go\<close>,
  and tool list refresh, \<open>toolrefresh.go\<close>. Each goroutine is a program counter with the
  local variables it still needs; one step runs it to its next blocking point or to the end
  of a critical section. The steps of all goroutines, of the servers' notifications, of
  clients, of \<open>Close\<close> and of a caller that cancels the context interleave freely in the
  relation \<open>sys_step\<close>.
\<close>

section \<open>Definitions\<close>

subsection \<open>Backoff and probe\<close>

definition nextBackoff :: "duration \<Rightarrow> duration" where
  "nextBackoff cur =
     (let initial = second; maxb = 60 * second in
      if cur \<le> 0 then initial
      else (let next = int64 (cur * 2) in if maxb < next then maxb else next))"

definition probeTimeout :: "duration \<Rightarrow> duration" where
  "probeTimeout interval =
     (let timeout = (if interval < 0 then - (- interval div 2) else interval div 2)
      in if 10 * second < timeout then 10 * second else timeout)"

definition probeServer ::
  "'w rt \<Rightarrow> 'w mx \<Rightarrow> ctx \<Rightarrow> string \<Rightarrow> duration \<Rightarrow> 'w st \<Rightarrow> err option \<times> 'w st" where
  "probeServer rt mx c name interval s =
     (case gm_get (mx_servers mx) name of
        None \<Rightarrow> (Some (ServerGone name), s)
      | Some entry \<Rightarrow>
          (let probeCtx = ctx_WithTimeout c (rt_now rt (st_env s)) (probeTimeout interval) in
           case se_session entry of
             None \<Rightarrow> (Some (NoSession name), s)
           | Some sess \<Rightarrow>
               (let s = emit (EvListTools sess) s;
                    (res, w) = rt_ListTools rt sess probeCtx (st_env s)
                in (case res of Inl e \<Rightarrow> Some e | Inr _ \<Rightarrow> None, s\<lparr>st_env := w\<rparr>))))"

subsection \<open>Tool lists\<close>

definition toolListsEqual :: "ToolInfo list \<Rightarrow> ToolInfo list \<Rightarrow> bool" where
  "toolListsEqual a b =
     (if length a \<noteq> length b then False
      else list_all (\<lambda>i. \<not> (ti_Server (a ! i) \<noteq> ti_Server (b ! i) \<or> ti_Name (a ! i) \<noteq> ti_Name (b ! i)))
             [0..<length a])"

definition fireToolsChanged ::
  "'w options \<Rightarrow> string \<Rightarrow> ToolInfo list \<Rightarrow> ToolInfo list \<Rightarrow> 'w st \<Rightarrow> 'w st" where
  "fireToolsChanged opts name before newTools s =
     (case o_onToolsChanged opts of
        None \<Rightarrow> s
      | Some f \<Rightarrow>
          (if toolListsEqual before newTools then s
           else (let s = emit (EvOnToolsChanged name before newTools) s;
                     (res, w) = f name before newTools (st_env s);
                     s = s\<lparr>st_env := w\<rparr>
                 in case res of
                      Ret _ \<Rightarrow> s
                    | Panic \<Rightarrow> log_at opts Error ''mcpx: OnToolsChanged panic recovered''
                                 [F ''server'' (FStr name), F ''panic'' FPanic] s)))"

definition fireOnReconnect :: "'w options \<Rightarrow> string \<Rightarrow> err option \<Rightarrow> 'w st \<Rightarrow> 'w st" where
  "fireOnReconnect opts name e s =
     (case o_onReconnect opts of
        None \<Rightarrow> s
      | Some f \<Rightarrow> (let s = emit (EvOnReconnect name e) s in s\<lparr>st_env := f name e (st_env s)\<rparr>))"

subsection \<open>The state of the running system\<close>

text \<open>Where \<open>reconnectServer\<close> is; the durations are \<open>backoff\<close>, the numbers \<open>attempt\<close>.\<close>

datatype reconPc =
    RStart
  | RClose "session option"
  | RLoop duration int
  | RWait duration int
  | RConnect duration int
  | RSwap serverEntry
  | RClear

text \<open>Where \<open>runSupervisor\<close> is; the lists are the names still to visit in this round.\<close>

datatype supPc = SupIdle | SupVisit "string list" | SupProbe string "string list"
  | SupFailed string "string list" | SupDone

text \<open>Where \<open>runToolRefresh\<close>, with \<open>applyToolRefresh\<close>, is.\<close>

datatype refPc = RefIdle | RefCheck | RefFetch session | RefStore "ToolInfo list" | RefDone

text \<open>
  \<open>sy_cancelled\<close> says that the context of the goroutines is done: it is derived from the one
  the caller gave to \<open>New\<close>, so the caller may cancel it as well as \<open>Close\<close>. \<open>sy_closing\<close> is
  set while a \<open>Close\<close> holds \<open>mx.mu\<close>, to the names of the entries it has still to close.
\<close>

record 'w sys =
  sy_mx :: "'w mx"
  sy_st :: "'w st"
  sy_cancelled :: bool
  sy_recon :: "(string \<times> reconPc) list"
  sy_ref :: "(string \<times> refPc) list"
  sy_sup :: supPc
  sy_closing :: "string list option"

definition upd_entry :: "string \<Rightarrow> (serverEntry \<Rightarrow> serverEntry) \<Rightarrow> 'w mx \<Rightarrow> 'w mx" where
  "upd_entry name f mx =
     (case gm_get (mx_servers mx) name of
        None \<Rightarrow> mx
      | Some e \<Rightarrow> mx\<lparr>mx_servers := gm_set name (f e) (mx_servers mx)\<rparr>)"

subsection \<open>Steps of reconnectServer\<close>

text \<open>
  One step of the goroutine of server \<open>name\<close>: where it goes on, or \<open>None\<close> when it
  returns. At the \<open>select\<close> the argument \<open>done\<close> says that the cancelled context was picked.
\<close>

definition reconStep ::
  "'w rt \<Rightarrow> ctx \<Rightarrow> bool \<Rightarrow> string \<Rightarrow> reconPc \<Rightarrow> 'w mx \<Rightarrow> 'w st \<Rightarrow> reconPc option \<times> 'w mx \<times> 'w st" where
  "reconStep rt c done name pc mx s =
     (case gm_get (mx_servers mx) name of
        None \<Rightarrow> (None, mx, s)
      | Some entry \<Rightarrow>
          (case pc of
             RStart \<Rightarrow>
               (Some (RClose (se_session entry)),
                upd_entry name (\<lambda>e. e\<lparr>se_state := ServerStateDown\<rparr>) mx, s)
           | RClose old \<Rightarrow>
               (Some (RLoop 0 0), mx,
                case old of None \<Rightarrow> s | Some sess \<Rightarrow> snd (closeSession rt sess s))
           | RLoop backoff attempt \<Rightarrow> (Some (RWait (nextBackoff backoff) (attempt + 1)), mx, s)
           | RWait backoff attempt \<Rightarrow>
               (if done then (None, upd_entry name (\<lambda>e. e\<lparr>se_reconnecting := False\<rparr>) mx, s)
                else (Some (RConnect backoff attempt), mx,
                      log_at (mx_opts mx) Info ''mcpx: reconnect attempt''
                        [F ''server'' (FStr name), F ''attempt'' (FDecimal attempt), F ''backoff'' (FDuration backoff)] s))
           | RConnect backoff attempt \<Rightarrow>
               (case connect rt (mx_opts mx) c (se_config entry) (se_refreshCh entry) s of
                  (Inl e, s) \<Rightarrow>
                    (let s = log_at (mx_opts mx) Error ''mcpx: reconnect failed''
                               [F ''server'' (FStr name), F ''attempt'' (FDecimal attempt), F ''error'' (FErr e)] s
                     in (Some (RLoop backoff attempt), mx, fireOnReconnect (mx_opts mx) name (Some e) s))
                | (Inr newEntry, s) \<Rightarrow> (Some (RSwap newEntry), mx, s))
           | RSwap newEntry \<Rightarrow>
               (Some RClear,
                upd_entry name (\<lambda>e. e\<lparr>se_session := se_session newEntry, se_tools := se_tools newEntry,
                                     se_state := ServerStateConnected\<rparr>) mx, s)
           | RClear \<Rightarrow>
               (let mx = upd_entry name (\<lambda>e. e\<lparr>se_reconnecting := False\<rparr>) mx;
                    s = log_at (mx_opts mx) Info ''mcpx: reconnected'' [F ''server'' (FStr name)] s
                in (None, mx, fireOnReconnect (mx_opts mx) name None s))))"

subsection \<open>Steps of runToolRefresh\<close>

definition refStep ::
  "'w rt \<Rightarrow> ctx \<Rightarrow> string \<Rightarrow> refPc \<Rightarrow> 'w mx \<Rightarrow> 'w st \<Rightarrow> refPc \<times> 'w mx \<times> 'w st" where
  "refStep rt c name pc mx s =
     (case gm_get (mx_servers mx) name of
        None \<Rightarrow> (pc, mx, s)
      | Some entry \<Rightarrow>
          (case pc of
             RefIdle \<Rightarrow>
               (if se_refreshCh entry = Some True
                then (RefCheck, upd_entry name (\<lambda>e. e\<lparr>se_refreshCh := Some False\<rparr>) mx, s)
                else (RefIdle, mx, s))
           | RefCheck \<Rightarrow>
               (if se_reconnecting entry then (RefIdle, mx, s)
                else (case se_session entry of None \<Rightarrow> (RefIdle, mx, s) | Some sess \<Rightarrow> (RefFetch sess, mx, s)))
           | RefFetch sess \<Rightarrow>
               (let refreshCtx = ctx_WithTimeout c (rt_now rt (st_env s)) (o_callTimeout (mx_opts mx)) in
                case fetchTools rt (mx_opts mx) refreshCtx name sess s of
                  (Inl e, s) \<Rightarrow>
                    (RefIdle, mx, log_at (mx_opts mx) Error ''mcpx: tool refresh failed''
                                    [F ''server'' (FStr name), F ''error'' (FErr e)] s)
                | (Inr newTools, s) \<Rightarrow> (RefStore newTools, mx, s))
           | RefStore newTools \<Rightarrow>
               (RefIdle, upd_entry name (\<lambda>e. e\<lparr>se_tools := newTools\<rparr>) mx,
                fireToolsChanged (mx_opts mx) name (se_tools entry) newTools s)
           | RefDone \<Rightarrow> (RefDone, mx, s)))"

text \<open>\<open>applyToolRefresh\<close> run without interruption, as the source has it.\<close>

definition applyToolRefresh :: "'w rt \<Rightarrow> ctx \<Rightarrow> string \<Rightarrow> serverEntry \<Rightarrow> 'w mx \<Rightarrow> 'w st \<Rightarrow> 'w mx \<times> 'w st" where
  "applyToolRefresh rt c name entry mx s =
     (if se_reconnecting entry then (mx, s)
      else (case se_session entry of
              None \<Rightarrow> (mx, s)
            | Some sess \<Rightarrow>
                (let refreshCtx = ctx_WithTimeout c (rt_now rt (st_env s)) (o_callTimeout (mx_opts mx)) in
                 case fetchTools rt (mx_opts mx) refreshCtx name sess s of
                   (Inl e, s) \<Rightarrow>
                     (mx, log_at (mx_opts mx) Error ''mcpx: tool refresh failed''
                            [F ''server'' (FStr name), F ''error'' (FErr e)] s)
                 | (Inr newTools, s) \<Rightarrow>
                     (upd_entry name (\<lambda>e. e\<lparr>se_tools := newTools\<rparr>) mx,
                      fireToolsChanged (mx_opts mx) name (se_tools entry) newTools s))))"

text \<open>The notification handler: a signal is queued unless one is queued already.\<close>

definition signal :: "bool option \<Rightarrow> bool option" where
  "signal ch = (case ch of None \<Rightarrow> None | Some _ \<Rightarrow> Some True)"

subsection \<open>Steps of runSupervisor\<close>

text \<open>The third component is the server whose reconnect goroutine is started, if any.\<close>

definition supStep ::
  "'w rt \<Rightarrow> ctx \<Rightarrow> bool \<Rightarrow> supPc \<Rightarrow> 'w mx \<Rightarrow> 'w st \<Rightarrow> supPc \<times> string option \<times> 'w mx \<times> 'w st" where
  "supStep rt c cancelled pc mx s =
     (case pc of
        SupVisit [] \<Rightarrow> (SupIdle, None, mx, s)
      | SupVisit (name # names) \<Rightarrow>
          (case gm_get (mx_servers mx) name of
             None \<Rightarrow> (SupVisit names, None, mx, s)
           | Some entry \<Rightarrow>
               (if se_reconnecting entry then SupVisit names else SupProbe name names, None, mx, s))
      | SupProbe name names \<Rightarrow>
          (case probeServer rt mx c name (o_healthCheckInterval (mx_opts mx)) s of
             (None, s) \<Rightarrow> (SupVisit names, None, mx, s)
           | (Some e, s) \<Rightarrow> (if cancelled then SupDone else SupFailed name names, None, mx, s))
      | SupFailed name names \<Rightarrow>
          (case gm_get (mx_servers mx) name of
             None \<Rightarrow> (SupVisit names, None, mx, s)
           | Some entry \<Rightarrow>
               (if se_reconnecting entry then (SupVisit names, None, mx, s)
                else (SupVisit names, Some name, upd_entry name (\<lambda>e. e\<lparr>se_reconnecting := True\<rparr>) mx, s)))
      | _ \<Rightarrow> (pc, None, mx, s))"

subsection \<open>Steps of Close\<close>

text \<open>One turn of the loop of \<open>Close\<close>, on the session the entry has at that moment.\<close>

definition closeStep :: "'w rt \<Rightarrow> 'w mx \<Rightarrow> string \<Rightarrow> 'w st \<Rightarrow> 'w st" where
  "closeStep rt mx name s =
     (case gm_get (mx_servers mx) name of
        None \<Rightarrow> s
      | Some entry \<Rightarrow> closeAll rt (mx_opts mx) [(name, entry)] s)"

subsection \<open>The system\<close>

text \<open>
  \<open>Close\<close> cancels the context, takes \<open>mx.mu\<close>, closes the entries one by one and lets the lock
  go; a second \<open>Close\<close> waits for the lock. The other goroutines only read the registry under
  \<open>mx.mu\<close>; they are not made to wait for a \<open>Close\<close> here, so the relation has all interleavings
  of the code and some more.
\<close>

inductive sys_step :: "'w rt \<Rightarrow> ctx \<Rightarrow> 'w sys \<Rightarrow> 'w sys \<Rightarrow> bool" for rt c where
  recon_go: "sy_recon y = xs @ (name, pc) # ys \<Longrightarrow> done \<longrightarrow> sy_cancelled y \<Longrightarrow>
     reconStep rt c done name pc (sy_mx y) (sy_st y) = (Some pc', mx', s') \<Longrightarrow>
     sys_step rt c y (y\<lparr>sy_mx := mx', sy_st := s', sy_recon := xs @ (name, pc') # ys\<rparr>)"
| recon_end: "sy_recon y = xs @ (name, pc) # ys \<Longrightarrow> done \<longrightarrow> sy_cancelled y \<Longrightarrow>
     reconStep rt c done name pc (sy_mx y) (sy_st y) = (None, mx', s') \<Longrightarrow>
     sys_step rt c y (y\<lparr>sy_mx := mx', sy_st := s', sy_recon := xs @ ys\<rparr>)"
| ref_go: "sy_ref y = xs @ (name, pc) # ys \<Longrightarrow>
     refStep rt c name pc (sy_mx y) (sy_st y) = (pc', mx', s') \<Longrightarrow>
     sys_step rt c y (y\<lparr>sy_mx := mx', sy_st := s', sy_ref := xs @ (name, pc') # ys\<rparr>)"
| ref_end: "sy_ref y = xs @ (name, RefIdle) # ys \<Longrightarrow> sy_cancelled y \<Longrightarrow>
     sys_step rt c y (y\<lparr>sy_ref := xs @ (name, RefDone) # ys\<rparr>)"
| sup_tick: "sy_sup y = SupIdle \<Longrightarrow> mset names = mset (map fst (mx_servers (sy_mx y))) \<Longrightarrow>
     sys_step rt c y (y\<lparr>sy_sup := SupVisit names\<rparr>)"
| sup_end: "sy_sup y = SupIdle \<Longrightarrow> sy_cancelled y \<Longrightarrow> sys_step rt c y (y\<lparr>sy_sup := SupDone\<rparr>)"
| sup_go: "supStep rt c (sy_cancelled y) (sy_sup y) (sy_mx y) (sy_st y) = (pc', started, mx', s') \<Longrightarrow>
     sys_step rt c y (y\<lparr>sy_mx := mx', sy_st := s', sy_sup := pc',
       sy_recon := sy_recon y @ (case started of None \<Rightarrow> [] | Some name \<Rightarrow> [(name, RStart)])\<rparr>)"
| notified: "sys_step rt c y
     (y\<lparr>sy_mx := upd_entry name (\<lambda>e. e\<lparr>se_refreshCh := signal (se_refreshCh e)\<rparr>) (sy_mx y)\<rparr>)"
| outside: "sys_step rt c y (y\<lparr>sy_st := s'\<rparr>)"
| cancelled: "sys_step rt c y (y\<lparr>sy_cancelled := True\<rparr>)"
| close_lock: "sy_cancelled y \<Longrightarrow> sy_closing y = None \<Longrightarrow> mset names = mset (map fst (mx_servers (sy_mx y))) \<Longrightarrow>
     sys_step rt c y (y\<lparr>sy_closing := Some names\<rparr>)"
| close_go: "sy_closing y = Some (name # names) \<Longrightarrow>
     sys_step rt c y (y\<lparr>sy_st := closeStep rt (sy_mx y) name (sy_st y), sy_closing := Some names\<rparr>)"
| close_end: "sy_closing y = Some [] \<Longrightarrow> sys_step rt c y (y\<lparr>sy_closing := None\<rparr>)"

text \<open>The state right after \<open>New\<close>.\<close>

definition started :: "'w mx \<Rightarrow> goroutine list \<Rightarrow> 'w st \<Rightarrow> 'w sys" where
  "started mx gs s =
     \<lparr>sy_mx = mx, sy_st = s, sy_cancelled = False,
      sy_recon = concat (map (\<lambda>g. case g of GoReconnect n \<Rightarrow> [(n, RStart)] | _ \<Rightarrow> []) gs),
      sy_ref = concat (map (\<lambda>g. case g of GoToolRefresh n \<Rightarrow> [(n, RefIdle)] | _ \<Rightarrow> []) gs),
      sy_sup = (if GoSupervisor \<in> set gs then SupIdle else SupDone), sy_closing = None\<rparr>"

section \<open>Backoff\<close>

text \<open>The wait before attempt \<open>n\<close>, counted from 1.\<close>

definition wait_of :: "int \<Rightarrow> duration" where
  "wait_of n = min (2 ^ (nat n - 1)) 60 * second"

lemma wait_of_bounds: "second \<le> wait_of n" "wait_of n \<le> 60 * second"
  by (simp_all add: wait_of_def second_def min_def)

lemma nextBackoff_eq:
  "0 < cur \<Longrightarrow> cur \<le> 60 * second \<Longrightarrow> nextBackoff cur = min (2 * cur) (60 * second)"
  by (simp add: nextBackoff_def Let_def int64_def second_def min_def)

lemma nextBackoff_wait: "1 \<le> n \<Longrightarrow> nextBackoff (wait_of n) = wait_of (n + 1)"
proof -
  assume n: "1 \<le> n"
  have "nextBackoff (wait_of n) = min (2 * wait_of n) (60 * second)"
    using wait_of_bounds [of n] by (intro nextBackoff_eq) (simp_all add: second_def)
  moreover have "nat (n + 1) - 1 = Suc (nat n - 1)"
    using n by simp
  ultimately show ?thesis
    by (simp add: wait_of_def min_def second_def)
qed

lemma nextBackoff_first: "nextBackoff 0 = wait_of 1"
  by (simp add: nextBackoff_def wait_of_def)

text \<open>
  The backoff stays in its range: from any current value whose double fits into 64 bits,
  also a negative one, the next wait is positive and at most a minute, and from zero the
  waits are one second, doubled at every attempt, until they stay at a minute; none of these
  overflows.\<close>

theorem nextBackoff_bounds:
  "(- (2 ^ 62) \<le> cur \<and> cur < 2 ^ 62 \<longrightarrow> 0 < nextBackoff cur \<and> nextBackoff cur \<le> 60 * second) \<and>
   (nextBackoff ^^ n) (nextBackoff 0) = min (2 ^ n) 60 * second"
proof
  have small: "int64 (cur * 2) = cur * 2" if "- (2 ^ 62) \<le> cur" "cur < 2 ^ 62"
    using that by (simp add: int64_def)
  then show "- (2 ^ 62) \<le> cur \<and> cur < 2 ^ 62 \<longrightarrow> 0 < nextBackoff cur \<and> nextBackoff cur \<le> 60 * second"
    by (auto simp: nextBackoff_def Let_def second_def)
  have "(nextBackoff ^^ n) (nextBackoff 0) = wait_of (int n + 1)"
    by (induction n) (simp_all add: nextBackoff_first nextBackoff_wait add.commute)
  then show "(nextBackoff ^^ n) (nextBackoff 0) = min (2 ^ n) 60 * second"
    by (simp add: wait_of_def nat_add_distrib)
qed

theorem nextBackoff_bounds_witness:
  "0 < nextBackoff (- 5) \<and> nextBackoff (- 5) \<le> 60 * second \<and> (nextBackoff ^^ 7) (nextBackoff 0) = 60 * second"
  using nextBackoff_bounds [of "- 5" 7] by simp

section \<open>The invariant of the running system\<close>

text \<open>Where the goroutine of a server is fits the state of the server's entry.\<close>

fun recon_fits :: "reconPc \<Rightarrow> serverEntry \<Rightarrow> bool" where
  "recon_fits RStart e = True"
| "recon_fits (RSwap new) e \<longleftrightarrow> se_state e = ServerStateDown \<and> se_session new \<noteq> None"
| "recon_fits RClear e \<longleftrightarrow> se_state e = ServerStateConnected"
| "recon_fits _ e \<longleftrightarrow> se_state e = ServerStateDown"

fun backoff_fits :: "reconPc \<Rightarrow> bool" where
  "backoff_fits (RLoop b a) \<longleftrightarrow> a = 0 \<and> b = 0 \<or> 1 \<le> a \<and> b = wait_of a"
| "backoff_fits (RWait b a) \<longleftrightarrow> 1 \<le> a \<and> b = wait_of a"
| "backoff_fits (RConnect b a) \<longleftrightarrow> 1 \<le> a \<and> b = wait_of a"
| "backoff_fits _ \<longleftrightarrow> True"

definition usable :: "serverEntry \<Rightarrow> bool" where
  "usable e \<longleftrightarrow> (se_state e \<noteq> ServerStateDown \<longrightarrow> se_session e \<noteq> None)"

definition goroutine_ok :: "(string \<Rightarrow> serverEntry option) \<Rightarrow> string \<times> reconPc \<Rightarrow> bool" where
  "goroutine_ok srv g = (case srv (fst g) of
      None \<Rightarrow> False
    | Some e \<Rightarrow> se_reconnecting e \<and> recon_fits (snd g) e \<and> backoff_fits (snd g))"

definition entry_ok :: "string set \<Rightarrow> bool \<Rightarrow> string \<Rightarrow> serverEntry \<Rightarrow> bool" where
  "entry_ok running cancelled n e \<longleftrightarrow> usable e \<and>
     (se_reconnecting e \<or> se_state e = ServerStateDown \<and> \<not> cancelled \<longrightarrow> n \<in> running)"

text \<open>
  At most one goroutine reconnects a server, and its flag is set as long as it runs; a
  server that is down is being reconnected, unless the context is cancelled; and a server
  that is not down has a session.
\<close>

definition recon_inv ::
  "(string \<Rightarrow> serverEntry option) \<Rightarrow> (string \<times> reconPc) list \<Rightarrow> bool \<Rightarrow> bool" where
  "recon_inv srv recon cancelled \<longleftrightarrow> distinct (map fst recon) \<and>
     (\<forall>g \<in> set recon. goroutine_ok srv g) \<and>
     (\<forall>n e. srv n = Some e \<longrightarrow> entry_ok (fst ` set recon) cancelled n e)"

definition sys_inv :: "'w sys \<Rightarrow> bool" where
  "sys_inv y \<longleftrightarrow> gm_ok (mx_servers (sy_mx y)) \<and>
     recon_inv (gm_get (mx_servers (sy_mx y))) (sy_recon y) (sy_cancelled y)"

lemma upd_entry_get [simp]:
  "gm_get (mx_servers (upd_entry n f mx)) =
     (gm_get (mx_servers mx))(n := map_option f (gm_get (mx_servers mx) n))"
  by (auto simp: upd_entry_def fun_eq_iff split: option.split)

lemma upd_entry_ok [simp]: "gm_ok (mx_servers mx) \<Longrightarrow> gm_ok (mx_servers (upd_entry n f mx))"
  by (simp add: upd_entry_def split: option.split)

lemma upd_entry_opts [simp]: "mx_opts (upd_entry n f mx) = mx_opts mx"
  by (simp add: upd_entry_def split: option.split)

lemma goroutine_ok_other: "fst g \<noteq> n \<Longrightarrow> goroutine_ok (srv(n := x)) g = goroutine_ok srv g"
  by (simp add: goroutine_ok_def)

lemma recon_inv_distinct:
  "recon_inv srv (xs @ (n, pc) # ys) can \<Longrightarrow> g \<in> set xs \<union> set ys \<Longrightarrow> fst g \<noteq> n"
  by (auto simp: recon_inv_def)

text \<open>The ways a step changes the entry of one server and its goroutine.\<close>

lemma recon_inv_advance:
  assumes inv: "recon_inv srv (xs @ (n, pc) # ys) can"
    and new: "se_reconnecting e'" "recon_fits pc' e'" "backoff_fits pc'" "usable e'"
  shows "recon_inv (srv(n \<mapsto> e')) (xs @ (n, pc') # ys) can"
  unfolding recon_inv_def
proof (intro conjI ballI allI impI)
  show "distinct (map fst (xs @ (n, pc') # ys))"
    using inv by (simp add: recon_inv_def)
next
  fix g assume g: "g \<in> set (xs @ (n, pc') # ys)"
  show "goroutine_ok (srv(n \<mapsto> e')) g"
  proof (cases "g \<in> set xs \<union> set ys")
    case True
    with recon_inv_distinct [OF inv] inv show ?thesis
      by (auto simp: goroutine_ok_other recon_inv_def)
  qed (use g new in \<open>auto simp: goroutine_ok_def\<close>)
next
  fix m e assume "(srv(n \<mapsto> e')) m = Some e"
  with inv new show "entry_ok (fst ` set (xs @ (n, pc') # ys)) can m e"
    by (auto simp: recon_inv_def entry_ok_def split: if_splits)
qed

lemma recon_inv_finish:
  assumes inv: "recon_inv srv (xs @ (n, pc) # ys) can"
    and new: "\<not> se_reconnecting e'" "usable e'" "se_state e' = ServerStateDown \<longrightarrow> can"
  shows "recon_inv (srv(n \<mapsto> e')) (xs @ ys) can"
  unfolding recon_inv_def
proof (intro conjI ballI allI impI)
  show "distinct (map fst (xs @ ys))"
    using inv by (simp add: recon_inv_def)
next
  fix g assume "g \<in> set (xs @ ys)"
  with recon_inv_distinct [OF inv, of g] inv show "goroutine_ok (srv(n \<mapsto> e')) g"
    by (auto simp: goroutine_ok_other recon_inv_def)
next
  fix m e assume "(srv(n \<mapsto> e')) m = Some e"
  with inv new show "entry_ok (fst ` set (xs @ ys)) can m e"
    by (auto simp: recon_inv_def entry_ok_def split: if_splits)
qed

lemma recon_inv_start:
  assumes inv: "recon_inv srv recon can" and e: "srv n = Some e" "\<not> se_reconnecting e"
  shows "recon_inv (srv(n \<mapsto> e\<lparr>se_reconnecting := True\<rparr>)) (recon @ [(n, RStart)]) can"
  unfolding recon_inv_def
proof (intro conjI ballI allI impI)
  have idle: "fst g \<noteq> n" if "g \<in> set recon" for g
    using inv e that by (auto simp: recon_inv_def goroutine_ok_def)
  then show "distinct (map fst (recon @ [(n, RStart)]))"
    using inv by (auto simp: recon_inv_def)
  fix g assume "g \<in> set (recon @ [(n, RStart)])"
  with idle inv show "goroutine_ok (srv(n \<mapsto> e\<lparr>se_reconnecting := True\<rparr>)) g"
    by (cases "g \<in> set recon") (auto simp: goroutine_ok_other recon_inv_def, simp add: goroutine_ok_def)
next
  fix m x assume "(srv(n \<mapsto> e\<lparr>se_reconnecting := True\<rparr>)) m = Some x"
  moreover have "usable (e\<lparr>se_reconnecting := True\<rparr>)"
    using inv e by (auto simp: recon_inv_def entry_ok_def usable_def)
  ultimately show "entry_ok (fst ` set (recon @ [(n, RStart)])) can m x"
    using inv by (auto simp: recon_inv_def entry_ok_def split: if_splits)
qed

lemma recon_inv_frame:
  assumes inv: "recon_inv srv recon can" and e: "srv n = Some e"
    and same: "se_state e' = se_state e" "se_session e' = se_session e" "se_reconnecting e' = se_reconnecting e"
  shows "recon_inv (srv(n \<mapsto> e')) recon can"
  unfolding recon_inv_def
proof (intro conjI ballI allI impI)
  show "distinct (map fst recon)"
    using inv by (simp add: recon_inv_def)
next
  fix g assume "g \<in> set recon"
  then have "goroutine_ok srv g"
    using inv by (simp add: recon_inv_def)
  moreover have "recon_fits (snd g) e' = recon_fits (snd g) e"
    using same by (cases "snd g") simp_all
  ultimately show "goroutine_ok (srv(n \<mapsto> e')) g"
    using e same(3) by (cases "fst g = n") (simp_all add: goroutine_ok_def)
next
  fix m x assume "(srv(n \<mapsto> e')) m = Some x"
  with inv e same show "entry_ok (fst ` set recon) can m x"
    by (auto simp: recon_inv_def entry_ok_def usable_def split: if_splits)
qed

lemma recon_inv_cancel: "recon_inv srv recon can \<Longrightarrow> recon_inv srv recon True"
  by (auto simp: recon_inv_def entry_ok_def)

section \<open>Every step keeps the invariant\<close>

lemma connect_session: "connect rt opts c cfg ch s = (Inr e, s') \<Longrightarrow> se_session e \<noteq> None"
  by (rule connect_ok(3))

lemma reconStep_inv:
  assumes inv: "recon_inv (gm_get (mx_servers mx)) (xs @ (n, pc) # ys) can"
    and step: "reconStep rt c done n pc mx s = (pc', mx', s')" and can: "done \<longrightarrow> can"
  shows "recon_inv (gm_get (mx_servers mx')) (xs @ (case pc' of None \<Rightarrow> [] | Some p \<Rightarrow> [(n, p)]) @ ys) can"
proof -
  let ?srv = "gm_get (mx_servers mx)"
  from inv have g: "goroutine_ok ?srv (n, pc)" by (simp add: recon_inv_def)
  then obtain e where e: "?srv n = Some e" "se_reconnecting e" "recon_fits pc e" "backoff_fits pc"
    by (auto simp: goroutine_ok_def split: option.splits)
  then have u: "usable e" using inv by (auto simp: recon_inv_def entry_ok_def)
  note go = recon_inv_advance [OF inv] and fin = recon_inv_finish [OF inv]
  have same: "recon_inv ?srv (xs @ (n, p) # ys) can" if "recon_fits p e" "backoff_fits p" for p
    using go [of e p] e u that by (simp add: fun_upd_triv [of ?srv n, unfolded e(1)])
  show ?thesis
  proof (cases pc)
    case RStart
    with step e u go show ?thesis by (auto simp: reconStep_def usable_def)
  next
    case (RClose old)
    with step e same show ?thesis by (auto simp: reconStep_def)
  next
    case (RLoop b a)
    with e(3,4) same [of "RWait (nextBackoff b) (a + 1)"] step e(1) show ?thesis
      by (auto simp: reconStep_def nextBackoff_wait nextBackoff_first)
  next
    case (RWait b a)
    with step e same [of "RConnect b a"] fin [of "e\<lparr>se_reconnecting := False\<rparr>"] can u show ?thesis
      by (auto simp: reconStep_def usable_def split: if_splits)
  next
    case (RConnect b a)
    with step e same show ?thesis
      by (auto simp: reconStep_def Let_def split: prod.splits sum.splits dest: connect_session)
  next
    case (RSwap new)
    with step e go show ?thesis by (auto simp: reconStep_def usable_def)
  next
    case RClear
    with step e u fin [of "e\<lparr>se_reconnecting := False\<rparr>"] show ?thesis
      by (auto simp: reconStep_def Let_def usable_def)
  qed
qed

lemma reconStep_ok: "gm_ok (mx_servers mx) \<Longrightarrow> reconStep rt c done n pc mx s = (pc', mx', s') \<Longrightarrow> gm_ok (mx_servers mx')"
  by (auto simp: reconStep_def Let_def split: option.splits reconPc.splits if_splits prod.splits sum.splits)

lemma refStep_inv:
  assumes inv: "recon_inv (gm_get (mx_servers mx)) recon can"
    and step: "refStep rt c n pc mx s = (pc', mx', s')"
  shows "recon_inv (gm_get (mx_servers mx')) recon can"
proof (cases "gm_get (mx_servers mx) n")
  case (Some e)
  have "recon_inv ((gm_get (mx_servers mx))(n \<mapsto> e\<lparr>se_refreshCh := q\<rparr>)) recon can"
    "recon_inv ((gm_get (mx_servers mx))(n \<mapsto> e\<lparr>se_tools := ts\<rparr>)) recon can" for q ts
    by (rule recon_inv_frame [OF inv Some], simp_all)+
  with inv step Some show ?thesis
    by (auto simp: refStep_def Let_def split: refPc.splits if_splits option.splits prod.splits sum.splits)
qed (use assms in \<open>simp add: refStep_def\<close>)

lemma refStep_ok: "gm_ok (mx_servers mx) \<Longrightarrow> refStep rt c n pc mx s = (pc', mx', s') \<Longrightarrow> gm_ok (mx_servers mx')"
  by (auto simp: refStep_def Let_def split: option.splits refPc.splits if_splits prod.splits sum.splits)

lemma supStep_inv:
  assumes inv: "recon_inv (gm_get (mx_servers mx)) recon can"
    and step: "supStep rt c can' pc mx s = (pc', st, mx', s')"
  shows "recon_inv (gm_get (mx_servers mx')) (recon @ (case st of None \<Rightarrow> [] | Some n \<Rightarrow> [(n, RStart)])) can"
proof (cases "st = None")
  case True
  with step have "mx' = mx"
    by (auto simp: supStep_def Let_def split: supPc.splits list.splits option.splits if_splits prod.splits)
  with inv True show ?thesis by simp
next
  case False
  with step obtain n names e where "pc = SupFailed n names" "gm_get (mx_servers mx) n = Some e" "\<not> se_reconnecting e"
      "st = Some n" "mx' = upd_entry n (\<lambda>e. e\<lparr>se_reconnecting := True\<rparr>) mx"
    by (auto simp: supStep_def Let_def split: supPc.splits list.splits option.splits if_splits prod.splits)
  with recon_inv_start [OF inv] show ?thesis by simp
qed

lemma supStep_ok:
  "gm_ok (mx_servers mx) \<Longrightarrow> supStep rt c can pc mx s = (pc', st, mx', s') \<Longrightarrow> gm_ok (mx_servers mx')"
  by (auto simp: supStep_def Let_def split: supPc.splits list.splits option.splits if_splits prod.splits)

lemma notified_inv:
  "recon_inv (gm_get (mx_servers mx)) recon can \<Longrightarrow>
   recon_inv (gm_get (mx_servers (upd_entry n (\<lambda>e. e\<lparr>se_refreshCh := signal (se_refreshCh e)\<rparr>) mx))) recon can"
  by (cases "gm_get (mx_servers mx) n") (simp add: fun_upd_idem, auto intro: recon_inv_frame)

lemma sys_step_inv: "sys_step rt c y y' \<Longrightarrow> sys_inv y \<Longrightarrow> sys_inv y'"
proof (induction rule: sys_step.induct)
  case (recon_go y xs name pc ys don pc' mx' s')
  then show ?case
    using reconStep_inv [OF _ recon_go(3,2)] reconStep_ok [OF _ recon_go(3)] by (simp add: sys_inv_def)
next
  case (recon_end y xs name pc ys don mx' s')
  then show ?case
    using reconStep_inv [OF _ recon_end(3,2)] reconStep_ok [OF _ recon_end(3)] by (simp add: sys_inv_def)
next
  case (ref_go y xs name pc ys pc' mx' s')
  then show ?case
    using refStep_inv [OF _ ref_go(2)] refStep_ok [OF _ ref_go(2)] by (simp add: sys_inv_def)
next
  case (sup_go y pc' st mx' s')
  then show ?case
    using supStep_inv [OF _ sup_go(1)] supStep_ok [OF _ sup_go(1)] by (simp add: sys_inv_def)
next
  case (notified y name)
  then show ?case
    using notified_inv [of "sy_mx y"] by (simp add: sys_inv_def del: upd_entry_get)
next
  case (cancelled y)
  then show ?case using recon_inv_cancel by (auto simp: sys_inv_def)
qed (simp_all add: sys_inv_def)

text \<open>Runs of a step relation that keeps an invariant.\<close>

locale kept_invariant =
  fixes step :: "'s \<Rightarrow> 's \<Rightarrow> bool" and inv :: "'s \<Rightarrow> bool"
  assumes kept: "step y y' \<Longrightarrow> inv y \<Longrightarrow> inv y'"
begin

lemma along: "step\<^sup>*\<^sup>* y y' \<Longrightarrow> inv y \<Longrightarrow> inv y'"
  by (induction rule: rtranclp_induct) (auto intro: kept)

end

interpretation live: kept_invariant "sys_step rt c" sys_inv for rt c
  by unfold_locales (rule sys_step_inv)

lemma started_recon:
  "sy_recon (started mx gs s) = map (\<lambda>n. (n, RStart)) (concat (map (\<lambda>g. case g of GoReconnect n \<Rightarrow> [n] | _ \<Rightarrow> []) gs))"
proof -
  have "concat (map (\<lambda>g. case g of GoReconnect n \<Rightarrow> [(n, RStart)] | _ \<Rightarrow> []) gs) =
      map (\<lambda>n. (n, RStart)) (concat (map (\<lambda>g. case g of GoReconnect n \<Rightarrow> [n] | _ \<Rightarrow> []) gs))" for gs
    by (induction gs) (auto split: goroutine.split)
  then show ?thesis by (simp add: started_def)
qed

lemma reconnects_distinct:
  "distinct gs \<Longrightarrow> distinct (concat (map (\<lambda>g. case g of GoReconnect n \<Rightarrow> [n] | _ \<Rightarrow> []) gs))"
  "n \<in> set (concat (map (\<lambda>g. case g of GoReconnect n \<Rightarrow> [n] | _ \<Rightarrow> []) gs)) \<longleftrightarrow> GoReconnect n \<in> set gs"
  by (induction gs) (auto split: goroutine.splits)

lemma started_inv:
  assumes sched: "\<And>xs. mset (sched xs) = mset xs"
    and new: "New rt bi sched c cfg opts s = (Inr (mx, gs), s')"
  shows "sys_inv (started mx gs s')"
proof -
  note new_facts = New_entries [OF sched new]
  let ?names = "concat (map (\<lambda>g. case g of GoReconnect n \<Rightarrow> [n] | _ \<Rightarrow> []) gs)"
  have entry: "if GoReconnect n \<in> set gs
      then se_state e = ServerStateDown \<and> se_session e = None \<and> se_reconnecting e
      else se_state e = ServerStateConnected \<and> se_session e \<noteq> None \<and> \<not> se_reconnecting e"
    if "gm_get (mx_servers mx) n = Some e" for n e
    using new_facts that by presburger
  have reg: "\<exists>e. gm_get (mx_servers mx) n = Some e" if "GoReconnect n \<in> set gs" for n
    using new_facts that by (metis map_of_eq_None_iff not_None_eq)
  have "recon_inv (gm_get (mx_servers mx)) (map (\<lambda>n. (n, RStart)) ?names) False"
    unfolding recon_inv_def
  proof (intro conjI ballI allI impI)
    show "distinct (map fst (map (\<lambda>n. (n, RStart)) ?names))"
      using reconnects_distinct(1) [of gs] new_facts by (simp add: comp_def)
  next
    fix g assume "g \<in> set (map (\<lambda>n. (n, RStart)) ?names)"
    then obtain n where g: "g = (n, RStart)" "GoReconnect n \<in> set gs"
      using reconnects_distinct(2) [of _ gs] by auto
    then obtain e where "gm_get (mx_servers mx) n = Some e" using reg by blast
    with entry [OF this] g show "goroutine_ok (gm_get (mx_servers mx)) g"
      by (simp add: goroutine_ok_def)
  next
    fix n e assume e: "gm_get (mx_servers mx) n = Some e"
    have "fst ` set (map (\<lambda>n. (n, RStart)) ?names) = set ?names"
      by force
    with entry [OF e] reconnects_distinct(2) [of n gs]
    show "entry_ok (fst ` set (map (\<lambda>n. (n, RStart)) ?names)) False n e"
      by (auto simp: entry_ok_def usable_def split: if_splits)
  qed
  then show ?thesis
    using new_facts started_recon [of mx gs s'] by (simp add: sys_inv_def) (simp add: started_def)
qed

lemma sys_inv_entry:
  assumes "sys_inv y" "gm_get (mx_servers (sy_mx y)) n = Some e"
  shows "se_state e = ServerStateDown \<longrightarrow> sy_cancelled y \<or> n \<in> fst ` set (sy_recon y)" "usable e"
proof -
  from assms have "entry_ok (fst ` set (sy_recon y)) (sy_cancelled y) n e"
    by (simp add: sys_inv_def recon_inv_def)
  then show "se_state e = ServerStateDown \<longrightarrow> sy_cancelled y \<or> n \<in> fst ` set (sy_recon y)" "usable e"
    by (auto simp: entry_ok_def)
qed

lemma sys_inv_sessions: "sys_inv y \<Longrightarrow> sessions_present (sy_mx y)"
  using sys_inv_entry(2) [of y] by (auto simp: sessions_present_def list_all_iff usable_def sys_inv_def gm_ok_def)

lemma reachable_inv:
  assumes "\<And>xs. mset (sched xs) = mset xs" "New rt bi sched c cfg opts s = (Inr (mx, gs), s')"
    "(sys_step rt c)\<^sup>*\<^sup>* (started mx gs s') y"
  shows "sys_inv y"
  by (rule live.along [OF assms(3) started_inv [OF assms(1,2)]])

text \<open>
  C4. However the goroutines, the servers' notifications, the clients, \<open>Close\<close> and a caller
  that cancels the context of \<open>New\<close> interleave: never do two goroutines reconnect the same
  server; a server that is down is always being reconnected as long as that context is not
  cancelled, by \<open>Close\<close> or by the caller; and a server that is not down always has a
  session.\<close>

theorem reconnect_invariant:
  assumes sched: "\<And>xs. mset (sched xs) = mset xs"
    and new: "New rt bi sched c cfg opts s = (Inr (mx, gs), s')"
    and run: "(sys_step rt c)\<^sup>*\<^sup>* (started mx gs s') y"
  shows "distinct (map fst (sy_recon y)) \<and>
    (\<forall>n e. gm_get (mx_servers (sy_mx y)) n = Some e \<longrightarrow>
       (se_state e = ServerStateDown \<longrightarrow> sy_cancelled y \<or> n \<in> fst ` set (sy_recon y)) \<and>
       (se_state e \<noteq> ServerStateDown \<longrightarrow> se_session e \<noteq> None)) \<and>
    sessions_present (sy_mx y)"
proof -
  note inv = reachable_inv [OF assms]
  have "distinct (map fst (sy_recon y))"
    using inv by (simp add: sys_inv_def recon_inv_def)
  with sys_inv_entry [OF inv] sys_inv_sessions [OF inv] show ?thesis
    by (simp add: usable_def)
qed

text \<open>
  C28. Every wait between two attempts to reconnect is the one its number asks for: one
  second before the first attempt, twice the last wait before each further one, and never
  more than a minute.\<close>

theorem reconnect_waits:
  assumes sched: "\<And>xs. mset (sched xs) = mset xs"
    and new: "New rt bi sched c cfg opts s = (Inr (mx, gs), s')"
    and run: "(sys_step rt c)\<^sup>*\<^sup>* (started mx gs s') y"
    and wait: "(n, RWait backoff attempt) \<in> set (sy_recon y)"
  shows "1 \<le> attempt \<and> backoff = min (2 ^ (nat attempt - 1)) 60 * second"
proof -
  note inv = reachable_inv [OF sched new run]
  with wait have "goroutine_ok (gm_get (mx_servers (sy_mx y))) (n, RWait backoff attempt)"
    by (auto simp: sys_inv_def recon_inv_def)
  then show ?thesis
    by (auto simp: goroutine_ok_def wait_of_def split: option.splits)
qed

section \<open>The steps of Close are Close\<close>

lemma closeAll_append: "closeAll rt opts (ps @ qs) s = closeAll rt opts qs (closeAll rt opts ps s)"
  by (induction ps arbitrary: s) (auto simp: Let_def split: option.split prod.split)

lemma closeSteps_closeAll:
  "\<forall>(n, e) \<in> set ps. gm_get (mx_servers mx) n = Some e \<Longrightarrow>
   fold (closeStep rt mx) (map fst ps) s = closeAll rt (mx_opts mx) ps s"
proof (induction ps arbitrary: s)
  case (Cons p ps)
  then show ?case
    using closeAll_append [of rt "mx_opts mx" "[p]" ps s] by (cases p) (simp add: closeStep_def)
qed simp

lemma closeSteps_Close: "gm_ok (mx_servers mx) \<Longrightarrow> fold (closeStep rt mx) (map fst (mx_servers mx)) s = Close rt mx s"
  unfolding Close_def by (rule closeSteps_closeAll) (auto simp: gm_ok_def)

text \<open>Nothing comes in between: a \<open>Close\<close> that is not interrupted.\<close>

lemma close_run:
  "sy_closing y = Some names \<Longrightarrow>
   (sys_step rt c)\<^sup>*\<^sup>* y (y\<lparr>sy_st := fold (closeStep rt (sy_mx y)) names (sy_st y), sy_closing := None\<rparr>)"
proof (induction names arbitrary: y)
  case Nil
  then show ?case using sys_step.close_end [of y rt c] by (simp add: r_into_rtranclp)
next
  case (Cons n ns)
  let ?y = "y\<lparr>sy_st := closeStep rt (sy_mx y) n (sy_st y), sy_closing := Some ns\<rparr>"
  have "sys_step rt c y ?y" using Cons.prems by (rule sys_step.close_go)
  with Cons.IH [of ?y] show ?case by (simp add: converse_rtranclp_into_rtranclp)
qed

lemma close_uninterrupted:
  assumes "sy_closing y = None" "gm_ok (mx_servers (sy_mx y))"
  shows "(sys_step rt c)\<^sup>*\<^sup>* y (y\<lparr>sy_cancelled := True, sy_st := Close rt (sy_mx y) (sy_st y)\<rparr>)"
proof -
  let ?y1 = "y\<lparr>sy_cancelled := True\<rparr>"
  let ?y2 = "?y1\<lparr>sy_closing := Some (map fst (mx_servers (sy_mx y)))\<rparr>"
  have "sys_step rt c y ?y1" by (rule sys_step.cancelled)
  moreover have "sys_step rt c ?y1 ?y2"
    using assms(1) sys_step.close_lock [of ?y1 "map fst (mx_servers (sy_mx y))" rt c] by simp
  moreover have "(sys_step rt c)\<^sup>*\<^sup>* ?y2 (y\<lparr>sy_cancelled := True, sy_st := Close rt (sy_mx y) (sy_st y)\<rparr>)"
    using close_run [of ?y2 "map fst (mx_servers (sy_mx y))" rt c] assms by (cases y) (simp add: closeSteps_Close)
  ultimately show ?thesis by (meson converse_rtranclp_into_rtranclp)
qed

section \<open>The options never change\<close>

lemma reconStep_opts: "reconStep rt c d n pc mx s = (pc', mx', s') \<Longrightarrow> mx_opts mx' = mx_opts mx"
  by (auto simp: reconStep_def Let_def split: option.splits reconPc.splits if_splits prod.splits sum.splits)

lemma refStep_opts: "refStep rt c n pc mx s = (pc', mx', s') \<Longrightarrow> mx_opts mx' = mx_opts mx"
  by (auto simp: refStep_def Let_def split: option.splits refPc.splits if_splits prod.splits sum.splits)

lemma supStep_opts: "supStep rt c can pc mx s = (pc', st, mx', s') \<Longrightarrow> mx_opts mx' = mx_opts mx"
  by (auto simp: supStep_def split: option.splits supPc.splits list.splits if_splits prod.splits)

interpretation fixed_opts: kept_invariant "sys_step rt c" "\<lambda>y. mx_opts (sy_mx y) = opts" for rt c opts
proof unfold_locales
  show "sys_step rt c y y' \<Longrightarrow> mx_opts (sy_mx y) = opts \<Longrightarrow> mx_opts (sy_mx y') = opts" for y y'
    by (induction rule: sys_step.induct) (auto dest: reconStep_opts refStep_opts supStep_opts)
qed

end
