(* ===== verification/Recovery.thy ===== *)
theory Recovery
  imports Health
begin

text \<open>
  What the goroutines of \<open>Health\<close> achieve: a server that went down comes back, the
  supervisor finds it, a tool list is refreshed; and a notification that is lost while a
  server is being reconnected. The last section runs a concrete system.
\<close>

section \<open>Recovery\<close>

text \<open>The goroutine of \<open>n\<close> is at \<open>pc\<close>, and the entry of \<open>n\<close> is \<open>e\<close>.\<close>

definition recon_at :: "string \<Rightarrow> reconPc \<Rightarrow> serverEntry \<Rightarrow> 'w sys \<Rightarrow> bool" where
  "recon_at n pc e y \<longleftrightarrow> (n, pc) \<in> set (sy_recon y) \<and> gm_get (mx_servers (sy_mx y)) n = Some e"

text \<open>
  The steps of the reconnect goroutine of \<open>n\<close> alone, while its context is not cancelled.
\<close>

inductive recon_alone :: "'w rt \<Rightarrow> ctx \<Rightarrow> string \<Rightarrow> 'w sys \<Rightarrow> 'w sys \<Rightarrow> bool" for rt c n where
  go: "sy_recon y = xs @ (n, pc) # ys \<Longrightarrow> reconStep rt c False n pc (sy_mx y) (sy_st y) = (Some pc', mx', s') \<Longrightarrow>
     recon_alone rt c n y (y\<lparr>sy_mx := mx', sy_st := s', sy_recon := xs @ (n, pc') # ys\<rparr>)"
| return: "sy_recon y = xs @ (n, pc) # ys \<Longrightarrow> reconStep rt c False n pc (sy_mx y) (sy_st y) = (None, mx', s') \<Longrightarrow>
     recon_alone rt c n y (y\<lparr>sy_mx := mx', sy_st := s', sy_recon := xs @ ys\<rparr>)"

lemma recon_alone_sys_step: "recon_alone rt c n y y' \<Longrightarrow> sys_step rt c y y'"
proof (induction rule: recon_alone.induct)
  case (go y xs pc ys pc' mx' s')
  show ?case by (rule sys_step.recon_go [OF go(1) _ go(2)]) simp
next
  case (return y xs pc ys mx' s')
  show ?case by (rule sys_step.recon_end [OF return(1) _ return(2)]) simp
qed

lemma reconStep_other:
  "reconStep rt c d n pc mx s = (pc', mx', s') \<Longrightarrow> m \<noteq> n \<Longrightarrow> gm_get (mx_servers mx') m = gm_get (mx_servers mx) m"
  by (cases pc) (auto simp: reconStep_def Let_def split: option.splits if_splits prod.splits sum.splits)

lemma recon_alone_other:
  "recon_alone rt c n y y' \<Longrightarrow> m \<noteq> n \<Longrightarrow> gm_get (mx_servers (sy_mx y')) m = gm_get (mx_servers (sy_mx y)) m"
  by (induction rule: recon_alone.induct) (auto dest: reconStep_other)

lemma recon_alone_run:
  assumes "(recon_alone rt c n ^^ k) y y'"
  shows "(sys_step rt c)\<^sup>*\<^sup>* y y'"
    and "m \<noteq> n \<Longrightarrow> gm_get (mx_servers (sy_mx y')) m = gm_get (mx_servers (sy_mx y)) m"
proof -
  have "(sys_step rt c)\<^sup>*\<^sup>* y y' \<and> (m \<noteq> n \<longrightarrow> gm_get (mx_servers (sy_mx y')) m = gm_get (mx_servers (sy_mx y)) m)"
    using assms
  proof (induction k arbitrary: y')
    case (Suc k)
    then obtain y1 where "(recon_alone rt c n ^^ k) y y1" "recon_alone rt c n y1 y'" by auto
    with Suc.IH [of y1] show ?case
      using recon_alone_other [of rt c n y1 y' m] recon_alone_sys_step [of rt c n y1 y']
      by (auto intro: rtranclp.rtrancl_into_rtrancl)
  qed simp
  then show "(sys_step rt c)\<^sup>*\<^sup>* y y'"
    and "m \<noteq> n \<Longrightarrow> gm_get (mx_servers (sy_mx y')) m = gm_get (mx_servers (sy_mx y)) m" by auto
qed

text \<open>From \<open>y\<close> the server comes back with at most \<open>k\<close> steps of its goroutine.\<close>

definition recovers :: "'w rt \<Rightarrow> ctx \<Rightarrow> string \<Rightarrow> nat \<Rightarrow> 'w sys \<Rightarrow> bool" where
  "recovers rt c n k y \<longleftrightarrow> (\<exists>j y' e'. j \<le> k \<and> (recon_alone rt c n ^^ j) y y' \<and> gm_get (mx_servers (sy_mx y')) n = Some e' \<and>
     se_state e' = ServerStateConnected \<and> \<not> se_reconnecting e')"

lemma recovers_step: "recon_alone rt c n y y1 \<Longrightarrow> recovers rt c n k y1 \<Longrightarrow> recovers rt c n (Suc k) y"
  unfolding recovers_def by (meson Suc_le_mono relpowp_Suc_I2)

lemma recovers_mono: "recovers rt c n k y \<Longrightarrow> k \<le> k' \<Longrightarrow> recovers rt c n k' y"
  unfolding recovers_def by (meson le_trans)

lemma recon_at_alone:
  assumes "recon_at n pc e y" "reconStep rt c False n pc (sy_mx y) (sy_st y) = (Some pc', mx', s')"
    and "gm_get (mx_servers mx') n = Some e'"
  obtains y1 where "recon_alone rt c n y y1" "recon_at n pc' e' y1" "mx_opts (sy_mx y1) = mx_opts mx'"
proof -
  obtain xs ys where "sy_recon y = xs @ (n, pc) # ys"
    using assms(1) by (auto simp: recon_at_def dest: split_list)
  from recon_alone.go [OF this assms(2)] assms(3) that show thesis
    by (fastforce simp: recon_at_def)
qed

lemma recon_at_step:
  assumes "recon_at n pc e y" "reconStep rt c False n pc (sy_mx y) (sy_st y) = (Some pc', mx', s')"
    and "gm_get (mx_servers mx') n = Some e'"
  obtains y1 where "sys_step rt c y y1" "recon_at n pc' e' y1" "mx_opts (sy_mx y1) = mx_opts mx'"
  by (rule recon_at_alone [OF assms]) (erule that [OF recon_alone_sys_step])

text \<open>Connecting to the server of \<open>e\<close> succeeds whenever it is tried.\<close>

definition server_up :: "'w rt \<Rightarrow> 'w options \<Rightarrow> ctx \<Rightarrow> serverEntry \<Rightarrow> bool" where
  "server_up rt opts c e \<longleftrightarrow>
     (\<forall>s. \<exists>new s'. connect rt opts c (se_config e) (se_refreshCh e) s = (Inr new, s'))"

lemma recovers_RClear:
  assumes "recon_at n RClear e y" "se_state e = ServerStateConnected"
  shows "recovers rt c n 1 y"
proof -
  obtain xs ys where at: "sy_recon y = xs @ (n, RClear) # ys"
    using assms(1) by (auto simp: recon_at_def dest: split_list)
  obtain mx' s' where go: "reconStep rt c False n RClear (sy_mx y) (sy_st y) = (None, mx', s')"
      "gm_get (mx_servers mx') n = Some (e\<lparr>se_reconnecting := False\<rparr>)"
    using assms(1) by (simp add: reconStep_def recon_at_def Let_def)
  have "recovers rt c n 0 (y\<lparr>sy_mx := mx', sy_st := s', sy_recon := xs @ ys\<rparr>)"
    using go(2) assms(2) by (simp add: recovers_def)
  from recovers_step [OF recon_alone.return [OF at go(1)] this] show ?thesis by simp
qed

lemma recovers_RSwap:
  assumes "recon_at n (RSwap new) e y"
  shows "recovers rt c n 2 y"
proof -
  let ?e = "e\<lparr>se_session := se_session new, se_tools := se_tools new, se_state := ServerStateConnected\<rparr>"
  have "\<exists>mx'. reconStep rt c False n (RSwap new) (sy_mx y) (sy_st y) = (Some RClear, mx', sy_st y) \<and>
      gm_get (mx_servers mx') n = Some ?e"
    using assms by (simp add: reconStep_def recon_at_def)
  then obtain y1 where "recon_alone rt c n y y1" "recon_at n RClear ?e y1"
    by (metis recon_at_alone [OF assms])
  from recovers_step [OF this(1) recovers_RClear [OF this(2)]] show ?thesis by (simp add: numeral_2_eq_2)
qed

text \<open>The steps that change nothing but the place of the goroutine.\<close>

lemma recovers_idle:
  assumes "recon_at n pc e y" "server_up rt (mx_opts (sy_mx y)) c e"
    and "\<exists>s'. reconStep rt c False n pc (sy_mx y) (sy_st y) = (Some pc', sy_mx y, s')"
    and "\<And>y1. recon_at n pc' e y1 \<Longrightarrow> server_up rt (mx_opts (sy_mx y1)) c e \<Longrightarrow> recovers rt c n k y1"
  shows "recovers rt c n (Suc k) y"
proof -
  obtain s' where s': "reconStep rt c False n pc (sy_mx y) (sy_st y) = (Some pc', sy_mx y, s')"
    using assms(3) by blast
  obtain y1 where "recon_alone rt c n y y1" "recon_at n pc' e y1" "mx_opts (sy_mx y1) = mx_opts (sy_mx y)"
    by (rule recon_at_alone [OF assms(1) s']) (use assms(1) in \<open>simp_all add: recon_at_def\<close>)
  with assms(2,4) show ?thesis by (metis recovers_step)
qed

lemma recovers_RConnect:
  assumes "recon_at n (RConnect b a) e y" "server_up rt (mx_opts (sy_mx y)) c e"
  shows "recovers rt c n (Suc 2) y"
proof -
  obtain new s' where "connect rt (mx_opts (sy_mx y)) c (se_config e) (se_refreshCh e) (sy_st y) = (Inr new, s')"
    using assms(2) unfolding server_up_def by blast
  then have "\<exists>s'. reconStep rt c False n (RConnect b a) (sy_mx y) (sy_st y) = (Some (RSwap new), sy_mx y, s')"
    using assms(1) by (simp add: reconStep_def recon_at_def)
  from recovers_idle [OF assms this recovers_RSwap] show ?thesis .
qed

lemma recovers_RWait:
  assumes "recon_at n (RWait b a) e y" "server_up rt (mx_opts (sy_mx y)) c e"
  shows "recovers rt c n (Suc (Suc 2)) y"
  using assms
  by (rule recovers_idle [where pc' = "RConnect b a"])
     (use assms(1) in \<open>simp add: reconStep_def recon_at_def\<close>, rule recovers_RConnect)

lemma recovers_RLoop:
  assumes "recon_at n (RLoop b a) e y" "server_up rt (mx_opts (sy_mx y)) c e"
  shows "recovers rt c n (Suc (Suc (Suc 2))) y"
  using assms
  by (rule recovers_idle [where pc' = "RWait (nextBackoff b) (a + 1)"])
     (use assms(1) in \<open>simp add: reconStep_def recon_at_def\<close>, rule recovers_RWait)

lemma recovers_RClose:
  assumes "recon_at n (RClose old) e y" "server_up rt (mx_opts (sy_mx y)) c e"
  shows "recovers rt c n (Suc (Suc (Suc (Suc 2)))) y"
  using assms
  by (rule recovers_idle [where pc' = "RLoop 0 0"])
     (use assms(1) in \<open>simp add: reconStep_def recon_at_def\<close>, rule recovers_RLoop)

lemma recovers_RStart:
  assumes "recon_at n RStart e y" "server_up rt (mx_opts (sy_mx y)) c e"
  shows "recovers rt c n (Suc (Suc (Suc (Suc (Suc 2))))) y"
proof -
  let ?e = "e\<lparr>se_state := ServerStateDown\<rparr>"
  obtain mx' where s: "reconStep rt c False n RStart (sy_mx y) (sy_st y) = (Some (RClose (se_session e)), mx', sy_st y)"
      "gm_get (mx_servers mx') n = Some ?e" "mx_opts mx' = mx_opts (sy_mx y)"
    using assms(1) by (simp add: reconStep_def recon_at_def)
  obtain y1 where "recon_alone rt c n y y1" "recon_at n (RClose (se_session e)) ?e y1" "mx_opts (sy_mx y1) = mx_opts mx'"
    by (rule recon_at_alone [OF assms(1) s(1,2)])
  moreover have "server_up rt (mx_opts (sy_mx y)) c ?e"
    using assms(2) by (simp add: server_up_def)
  ultimately show ?thesis
    using s(3) by (metis recovers_step recovers_RClose)
qed

lemma recon_at_recovers:
  assumes "sys_inv y" "recon_at n pc e y" "server_up rt (mx_opts (sy_mx y)) c e"
  shows "recovers rt c n 7 y"
proof (cases pc)
  case RClear
  have "goroutine_ok (gm_get (mx_servers (sy_mx y))) (n, pc)"
    using assms(1,2) by (auto simp: sys_inv_def recon_inv_def recon_at_def)
  then have "se_state e = ServerStateConnected"
    using assms(2) RClear by (simp add: goroutine_ok_def recon_at_def)
  with assms(2) RClear recovers_mono [OF recovers_RClear, of n e y 7 rt c] show ?thesis by simp
qed (use assms(2,3) in \<open>auto intro: recovers_mono [OF recovers_RStart] recovers_mono [OF recovers_RClose]
      recovers_mono [OF recovers_RLoop] recovers_mono [OF recovers_RWait] recovers_mono [OF recovers_RConnect]
      recovers_mono [OF recovers_RSwap]\<close>)

text \<open>
  C18. No server is given up: in every reachable state in which the context of the goroutines
  is not cancelled, neither by \<open>Close\<close> nor by the caller of \<open>New\<close>, a server that is down comes
  back through the steps of its own reconnect goroutine alone, at most seven, if connecting
  to it succeeds; then it is connected, has a session and is free for the next health check,
  and no other server was touched.\<close>

theorem reconnect_recovers:
  assumes sched: "\<And>xs. mset (sched xs) = mset xs"
    and new: "New rt bi sched c cfg opts s = (Inr (mx, gs), s')"
    and run: "(sys_step rt c)\<^sup>*\<^sup>* (started mx gs s') y"
    and down: "\<not> sy_cancelled y" "gm_get (mx_servers (sy_mx y)) n = Some e" "se_state e = ServerStateDown"
    and up: "server_up rt (mx_opts (sy_mx y)) c e"
  shows "\<exists>k y' e'. k \<le> 7 \<and> (recon_alone rt c n ^^ k) y y' \<and> gm_get (mx_servers (sy_mx y')) n = Some e' \<and>
    se_state e' = ServerStateConnected \<and> se_session e' \<noteq> None \<and> \<not> se_reconnecting e' \<and>
    (\<forall>m. m \<noteq> n \<longrightarrow> gm_get (mx_servers (sy_mx y')) m = gm_get (mx_servers (sy_mx y)) m)"
proof -
  note inv = reachable_inv [OF sched new run]
  have "n \<in> fst ` set (sy_recon y)"
    using sys_inv_entry(1) [OF inv down(2)] down(1,3) by blast
  then obtain pc where "recon_at n pc e y"
    using down(2) by (force simp: recon_at_def)
  from recon_at_recovers [OF inv this up] obtain k y' e' where
    y': "k \<le> 7" "(recon_alone rt c n ^^ k) y y'" "gm_get (mx_servers (sy_mx y')) n = Some e'"
      "se_state e' = ServerStateConnected" "\<not> se_reconnecting e'"
    by (auto simp: recovers_def)
  have "usable e'"
    by (rule sys_inv_entry(2) [OF live.along [OF recon_alone_run(1) [OF y'(2)] inv] y'(3)])
  with y' recon_alone_run(2) [OF y'(2)] show ?thesis
    by (intro exI [of _ k] exI [of _ y'] exI [of _ e']) (simp add: usable_def)
qed

section \<open>Tool refresh\<close>

lemma toolListsEqual_iff:
  "toolListsEqual a b \<longleftrightarrow> map (\<lambda>t. (ti_Server t, ti_Name t)) a = map (\<lambda>t. (ti_Server t, ti_Name t)) b"
proof -
  have "map (\<lambda>t. (ti_Server t, ti_Name t)) a = map (\<lambda>t. (ti_Server t, ti_Name t)) b \<longleftrightarrow> length a = length b \<and>
      (\<forall>i < length a. ti_Server (a ! i) = ti_Server (b ! i) \<and> ti_Name (a ! i) = ti_Name (b ! i))"
    by (subst list_eq_iff_nth_eq) auto
  then show ?thesis
    by (auto simp: toolListsEqual_def list_all_iff)
qed

fun refSteps :: "'w rt \<Rightarrow> ctx \<Rightarrow> string \<Rightarrow> nat \<Rightarrow> refPc \<times> 'w mx \<times> 'w st \<Rightarrow> refPc \<times> 'w mx \<times> 'w st" where
  "refSteps rt c name 0 x = x"
| "refSteps rt c name (Suc k) (pc, mx, s) =
     (if pc = RefIdle then (pc, mx, s) else refSteps rt c name k (refStep rt c name pc mx s))"


text \<open>The steps of the refresh goroutine of \<open>n\<close> alone.\<close>

inductive ref_alone :: "'w rt \<Rightarrow> ctx \<Rightarrow> string \<Rightarrow> 'w sys \<Rightarrow> 'w sys \<Rightarrow> bool" for rt c n where
  go: "sy_ref y = xs @ (n, pc) # ys \<Longrightarrow> refStep rt c n pc (sy_mx y) (sy_st y) = (pc', mx', s') \<Longrightarrow>
     ref_alone rt c n y (y\<lparr>sy_mx := mx', sy_st := s', sy_ref := xs @ (n, pc') # ys\<rparr>)"

lemma ref_alone_sys_step: "ref_alone rt c n y y' \<Longrightarrow> sys_step rt c y y'"
  by (induction rule: ref_alone.induct) (rule sys_step.ref_go)

lemma refresh_run:
  assumes at: "sy_ref y = xs @ (n, RefIdle) # ys"
    and e: "gm_get (mx_servers (sy_mx y)) n = Some e" "se_refreshCh e = Some True" "\<not> se_reconnecting e" "se_session e = Some sess"
    and fetch: "fetchTools rt (mx_opts (sy_mx y)) (ctx_WithTimeout c (rt_now rt (st_env (sy_st y))) (o_callTimeout (mx_opts (sy_mx y))))
      n sess (sy_st y) = (Inr tools, s1)"
  shows "\<exists>y' e'. (ref_alone rt c n ^^ 4) y y' \<and> gm_get (mx_servers (sy_mx y')) n = Some e' \<and> se_tools e' = tools"
proof -
  let ?mx1 = "upd_entry n (\<lambda>e. e\<lparr>se_refreshCh := Some False\<rparr>) (sy_mx y)"
  let ?y1 = "y\<lparr>sy_mx := ?mx1, sy_st := sy_st y, sy_ref := xs @ (n, RefCheck) # ys\<rparr>"
  let ?y2 = "?y1\<lparr>sy_mx := ?mx1, sy_st := sy_st y, sy_ref := xs @ (n, RefFetch sess) # ys\<rparr>"
  let ?y3 = "?y2\<lparr>sy_mx := ?mx1, sy_st := s1, sy_ref := xs @ (n, RefStore tools) # ys\<rparr>"
  let ?mx4 = "upd_entry n (\<lambda>e. e\<lparr>se_tools := tools\<rparr>) ?mx1"
  let ?s4 = "fireToolsChanged (mx_opts (sy_mx y)) n (se_tools e) tools s1"
  let ?y4 = "?y3\<lparr>sy_mx := ?mx4, sy_st := ?s4, sy_ref := xs @ (n, RefIdle) # ys\<rparr>"
  have "ref_alone rt c n y ?y1" by (rule ref_alone.go [OF at]) (simp add: refStep_def e)
  moreover have "ref_alone rt c n ?y1 ?y2"
    by (rule ref_alone.go [of _ xs _ RefCheck ys]) (simp_all add: refStep_def e)
  moreover have "ref_alone rt c n ?y2 ?y3"
    by (rule ref_alone.go [of _ xs _ "RefFetch sess" ys]) (simp_all add: refStep_def e fetch)
  moreover have "ref_alone rt c n ?y3 ?y4"
    by (rule ref_alone.go [of _ xs _ "RefStore tools" ys]) (simp_all add: refStep_def e)
  ultimately have "(ref_alone rt c n ^^ Suc (Suc (Suc (Suc 0)))) y ?y4"
    by (intro relpowp_Suc_I2) (assumption | simp)+
  then show ?thesis
    by (intro exI [of _ ?y4] exI [of _ "e\<lparr>se_refreshCh := Some False, se_tools := tools\<rparr>"]) (simp add: e eval_nat_numeral)
qed

section \<open>The supervisor\<close>

lemma supervisor_starts:
  assumes "sy_sup y = SupIdle" "\<not> sy_cancelled y"
    and n: "gm_get (mx_servers (sy_mx y)) n = Some e" "\<not> se_reconnecting e"
    and fails: "\<And>s. fst (probeServer rt (sy_mx y) c n (o_healthCheckInterval (mx_opts (sy_mx y))) s) \<noteq> None"
  shows "\<exists>y1. (sys_step rt c)\<^sup>*\<^sup>* y y1 \<and> recon_at n RStart (e\<lparr>se_reconnecting := True\<rparr>) y1 \<and>
    sy_cancelled y1 = sy_cancelled y \<and> mx_opts (sy_mx y1) = mx_opts (sy_mx y)"
proof -
  obtain ps qs where ps: "map fst (mx_servers (sy_mx y)) = ps @ n # qs"
    using map_of_SomeD [OF n(1)] by (metis fst_conv image_eqI set_map split_list)
  let ?y1 = "y\<lparr>sy_sup := SupVisit (n # ps @ qs)\<rparr>"
  have tick: "sys_step rt c y ?y1"
    using assms(1) by (intro sys_step.sup_tick) (simp_all add: ps)
  let ?y2 = "?y1\<lparr>sy_sup := SupProbe n (ps @ qs)\<rparr>"
  have visit: "sys_step rt c ?y1 ?y2"
    using sys_step.sup_go [of rt c ?y1 "SupProbe n (ps @ qs)" None "sy_mx y" "sy_st y"] n by (simp add: supStep_def)
  obtain err s1 where pr: "probeServer rt (sy_mx y) c n (o_healthCheckInterval (mx_opts (sy_mx y))) (sy_st y) = (Some err, s1)"
    using fails [of "sy_st y"] by (metis not_None_eq prod.collapse)
  let ?y3 = "?y2\<lparr>sy_st := s1, sy_sup := SupFailed n (ps @ qs)\<rparr>"
  have probe: "sys_step rt c ?y2 ?y3"
    using sys_step.sup_go [of rt c ?y2 "SupFailed n (ps @ qs)" None "sy_mx y" s1] pr assms(2)
    by (simp add: supStep_def)
  let ?mx = "upd_entry n (\<lambda>e. e\<lparr>se_reconnecting := True\<rparr>) (sy_mx y)"
  let ?y4 = "y\<lparr>sy_mx := ?mx, sy_st := s1, sy_sup := SupVisit (ps @ qs), sy_recon := sy_recon y @ [(n, RStart)]\<rparr>"
  have "sys_step rt c ?y3 ?y4"
    using sys_step.sup_go [of rt c ?y3 "SupVisit (ps @ qs)" "Some n" ?mx s1] n by (simp add: supStep_def)
  with tick visit probe have "(sys_step rt c)\<^sup>*\<^sup>* y ?y4"
    by (meson converse_rtranclp_into_rtranclp r_into_rtranclp)
  then show ?thesis
    using n by (intro exI [of _ ?y4]) (simp add: recon_at_def)
qed

text \<open>
  The program counters of the supervisor when its \<open>i\<close>-th step finds the multiplexer and
  the world as \<open>env i\<close> says: the other goroutines may have changed them at will.
\<close>

primrec supPcs :: "'w rt \<Rightarrow> ctx \<Rightarrow> (nat \<Rightarrow> bool \<times> 'w mx \<times> 'w st) \<Rightarrow> supPc \<Rightarrow> nat \<Rightarrow> supPc" where
  "supPcs rt c env pc 0 = pc"
| "supPcs rt c env pc (Suc i) =
     (let (cancelled, mx, s) = env i in fst (supStep rt c cancelled (supPcs rt c env pc i) mx s))"

fun work :: "supPc \<Rightarrow> nat" where
  "work (SupVisit ns) = 3 * length ns + 1"
| "work (SupProbe n ns) = 3 * length ns + 3"
| "work (SupFailed n ns) = 3 * length ns + 2"
| "work _ = 0"

lemma work_decreases: "work pc \<noteq> 0 \<Longrightarrow> work (fst (supStep rt c can pc mx s)) < work pc"
  by (cases pc) (auto simp: supStep_def split: list.split option.split prod.split)

lemma work_idle: "work pc = 0 \<longleftrightarrow> pc = SupIdle \<or> pc = SupDone"
  by (cases pc) simp_all

lemma work_zero_stays: "work pc = 0 \<Longrightarrow> work (fst (supStep rt c can pc mx s)) = 0"
  by (cases pc) (simp_all add: supStep_def)

lemma work_bound: "work (supPcs rt c env pc i) \<le> work pc - i"
proof (induction i)
  case (Suc i)
  then show ?case
    using work_decreases [of "supPcs rt c env pc i" rt c "fst (env i)" "fst (snd (env i))" "snd (snd (env i))"]
      work_zero_stays [of "supPcs rt c env pc i" rt c "fst (env i)" "fst (snd (env i))" "snd (snd (env i))"]
    by (cases "work (supPcs rt c env pc i) = 0") (auto simp: Let_def case_prod_beta)
qed simp

text \<open>
  C20. A round of the supervisor ends: after three steps for every name it started with, and one
  more, it is back at its timer or has returned, whatever the servers answer and whatever
  the other goroutines do in between.\<close>

theorem supervisor_round_ends:
  "supPcs rt c env (SupVisit names) (3 * length names + 1) \<in> {SupIdle, SupDone}"
  using work_bound [of rt c env "SupVisit names" "3 * length names + 1"]
    work_idle [of "supPcs rt c env (SupVisit names) (3 * length names + 1)"]
  by (auto simp del: supPcs.simps)

text \<open>The name the supervisor is about to decide on, and how its decision can turn out.\<close>

definition found_down :: "'w rt \<Rightarrow> ctx \<Rightarrow> (nat \<Rightarrow> bool \<times> 'w mx \<times> 'w st) \<Rightarrow> string list \<Rightarrow> string \<Rightarrow> nat \<Rightarrow> bool" where
  "found_down rt c env names n i \<longleftrightarrow>
     (let (cancelled, mx, s) = env i; pc = supPcs rt c env (SupVisit names) i in
      ((\<exists>ns. pc = SupVisit (n # ns)) \<or> (\<exists>ns. pc = SupFailed n ns)) \<and>
      (case gm_get (mx_servers mx) n of
         None \<Rightarrow> False
       | Some e \<Rightarrow>
           (if se_reconnecting e then True
            else (\<exists>pc' mx' s'. supStep rt c cancelled pc mx s = (pc', Some n, mx', s') \<and>
                    gm_get (mx_servers mx') n = Some (e\<lparr>se_reconnecting := True\<rparr>)))))"

lemma supPcs_add: "supPcs rt c env pc (i + j) = supPcs rt c (\<lambda>k. env (i + k)) (supPcs rt c env pc i) j"
  by (induction j) simp_all

text \<open>Without a cancellation every name is passed after at most three steps.\<close>

lemma supervisor_passes:
  assumes "\<forall>i. \<not> fst (env i)"
  shows "\<exists>k \<le> 3. 0 < k \<and> supPcs rt c env (SupVisit (m # ns)) k = SupVisit ns"
proof -
  obtain mx0 s0 mx1 s1 mx2 s2 where e: "env 0 = (False, mx0, s0)" "env 1 = (False, mx1, s1)" "env 2 = (False, mx2, s2)"
    using assms by (metis (full_types) prod.collapse)
  note e' = e(1) e(2) [unfolded One_nat_def] e(3) [unfolded numeral_2_eq_2]
  have "supPcs rt c env (SupVisit (m # ns)) 1 = SupVisit ns \<or> supPcs rt c env (SupVisit (m # ns)) 1 = SupProbe m ns"
    using e' by (simp add: supStep_def split: option.split)
  then show ?thesis
  proof
    assume "supPcs rt c env (SupVisit (m # ns)) 1 = SupProbe m ns"
    then have "supPcs rt c env (SupVisit (m # ns)) 2 = SupVisit ns \<or> supPcs rt c env (SupVisit (m # ns)) 2 = SupFailed m ns"
      using e' supPcs.simps(2) [of rt c env "SupVisit (m # ns)" 1]
      by (simp add: supStep_def numeral_2_eq_2 split: option.split prod.split del: supPcs.simps)
    then show ?thesis
    proof
      assume "supPcs rt c env (SupVisit (m # ns)) 2 = SupFailed m ns"
      then have "supPcs rt c env (SupVisit (m # ns)) 3 = SupVisit ns"
        using e' supPcs.simps(2) [of rt c env "SupVisit (m # ns)" 2]
        by (simp add: supStep_def numeral_3_eq_3 numeral_2_eq_2 split: option.split del: supPcs.simps)
      then show ?thesis by (intro exI [of _ 3]) simp
    qed (auto intro!: exI [of _ 2])
  qed (auto intro!: exI [of _ 1])
qed

lemma supervisor_reaches:
  assumes "\<forall>i. \<not> fst (env i)"
  shows "\<exists>k \<le> 3 * length pre. supPcs rt c env (SupVisit (pre @ n # ns)) k = SupVisit (n # ns)"
  using assms
proof (induction pre arbitrary: env)
  case Nil
  then show ?case by (intro exI [of _ 0]) simp
next
  case (Cons m pre)
  obtain k where k: "k \<le> 3" "supPcs rt c env (SupVisit ((m # pre) @ n # ns)) k = SupVisit (pre @ n # ns)"
    using supervisor_passes [OF Cons.prems, of rt c m "pre @ n # ns"] by auto
  obtain j where "j \<le> 3 * length pre" "supPcs rt c (\<lambda>i. env (k + i)) (SupVisit (pre @ n # ns)) j = SupVisit (n # ns)"
    using Cons.IH [of "\<lambda>i. env (k + i)"] Cons.prems by auto
  with k show ?case by (intro exI [of _ "k + j"]) (simp add: supPcs_add)
qed


section \<open>A notification that is lost\<close>

text \<open>
  The reconnect goroutine lists the tools of the new session before it installs them. A
  notification that arrives in between finds the server still being reconnected, so the
  refresh goroutine drops it, and then the list from before the notification is installed.
\<close>

text \<open>
  A tool list change announced by the new session between its first listing and the swap
  is dropped: there is a run in which the notification is delivered and consumed, the older
  list is installed, and nothing was listed again, so the multiplexer keeps a stale list
  until the next notification.\<close>

theorem refresh_dropped_during_swap:
  assumes r: "sy_recon y = xs @ (n, RSwap new) # ys" and f: "sy_ref y = us @ (n, RefIdle) # vs"
    and e: "gm_get (mx_servers (sy_mx y)) n = Some e" "se_reconnecting e" "se_refreshCh e = Some q"
  shows "\<exists>y1 y'. y1 = y\<lparr>sy_mx := upd_entry n (\<lambda>e. e\<lparr>se_refreshCh := signal (se_refreshCh e)\<rparr>) (sy_mx y)\<rparr> \<and>
    sys_step rt c y y1 \<and> (sys_step rt c)\<^sup>*\<^sup>* y1 y' \<and> sy_st y' = sy_st y \<and> sy_ref y' = sy_ref y \<and>
    (\<exists>e'. gm_get (mx_servers (sy_mx y')) n = Some e' \<and> se_state e' = ServerStateConnected \<and>
       se_tools e' = se_tools new \<and> se_refreshCh e' = Some False)"
proof -
  let ?y1 = "y\<lparr>sy_mx := upd_entry n (\<lambda>e. e\<lparr>se_refreshCh := signal (se_refreshCh e)\<rparr>) (sy_mx y)\<rparr>"
  have s1: "sys_step rt c y ?y1" by (rule sys_step.notified)
  let ?mx2 = "upd_entry n (\<lambda>e. e\<lparr>se_refreshCh := Some False\<rparr>) (sy_mx ?y1)"
  let ?y2 = "?y1\<lparr>sy_mx := ?mx2, sy_ref := us @ (n, RefCheck) # vs\<rparr>"
  have s2: "sys_step rt c ?y1 ?y2"
    using sys_step.ref_go [of ?y1 us n RefIdle vs rt c RefCheck ?mx2 "sy_st y"] f e by (simp add: refStep_def signal_def)
  let ?y3 = "?y2\<lparr>sy_ref := us @ (n, RefIdle) # vs\<rparr>"
  have s3: "sys_step rt c ?y2 ?y3"
    using sys_step.ref_go [of ?y2 us n RefCheck vs rt c RefIdle ?mx2 "sy_st y"] e by (simp add: refStep_def)
  let ?mx4 = "upd_entry n (\<lambda>e. e\<lparr>se_session := se_session new, se_tools := se_tools new,
      se_state := ServerStateConnected\<rparr>) ?mx2"
  let ?y4 = "?y3\<lparr>sy_mx := ?mx4, sy_recon := xs @ (n, RClear) # ys\<rparr>"
  have s4: "sys_step rt c ?y3 ?y4"
    using sys_step.recon_go [of ?y3 xs n "RSwap new" ys False rt c RClear ?mx4 "sy_st y"] r e
    by (simp add: reconStep_def)
  from s2 s3 s4 have "(sys_step rt c)\<^sup>*\<^sup>* ?y1 ?y4"
    by (meson converse_rtranclp_into_rtranclp r_into_rtranclp)
  with s1 show ?thesis
    using e f by (intro exI [of _ ?y1] exI [of _ ?y4]) simp
qed

section \<open>A session that Close misses\<close>

text \<open>
  \<open>Close\<close> closes the sessions the entries hold at that moment. When a reconnect goroutine
  has opened a new session and not yet installed it, there is a run in which \<open>Close\<close>
  returns, the goroutine installs the session and marks the server connected, and the
  session is never closed.\<close>

theorem Close_misses_new_session:
  assumes r: "sy_recon y = xs @ (n, RSwap new) # ys" "se_session new = Some sess"
    and e: "gm_get (mx_servers (sy_mx y)) n = Some e"
    and fresh: "\<forall>e \<in> snd ` set (mx_servers (sy_mx y)). se_session e \<noteq> Some sess"
    and idle: "sy_closing y = None" "gm_ok (mx_servers (sy_mx y))"
  shows "\<exists>y'. (sys_step rt c)\<^sup>*\<^sup>* y y' \<and> sy_cancelled y' \<and> sy_recon y' = xs @ ys \<and>
    (\<exists>e'. gm_get (mx_servers (sy_mx y')) n = Some e' \<and> se_state e' = ServerStateConnected \<and> se_session e' = Some sess) \<and>
    count_list (traced {KClose} (sy_st y')) (EvClose sess) = count_list (traced {KClose} (sy_st y)) (EvClose sess)"
proof -
  let ?y1 = "y\<lparr>sy_cancelled := True, sy_st := Close rt (sy_mx y) (sy_st y)\<rparr>"
  let ?mx2 = "upd_entry n (\<lambda>e. e\<lparr>se_session := se_session new, se_tools := se_tools new,
      se_state := ServerStateConnected\<rparr>) (sy_mx y)"
  let ?y2 = "?y1\<lparr>sy_mx := ?mx2, sy_st := sy_st ?y1, sy_recon := xs @ (n, RClear) # ys\<rparr>"
  let ?mx3 = "upd_entry n (\<lambda>e. e\<lparr>se_reconnecting := False\<rparr>) ?mx2"
  let ?s3 = "fireOnReconnect (mx_opts (sy_mx y)) n None
      (log_at (mx_opts (sy_mx y)) Info ''mcpx: reconnected'' [F ''server'' (FStr n)] (sy_st ?y1))"
  let ?y3 = "?y2\<lparr>sy_mx := ?mx3, sy_st := ?s3, sy_recon := xs @ ys\<rparr>"
  have "(sys_step rt c)\<^sup>*\<^sup>* y ?y1" by (rule close_uninterrupted [OF idle])
  moreover have "sys_step rt c ?y1 ?y2"
    using sys_step.recon_go [of ?y1 xs n "RSwap new" ys False rt c RClear ?mx2 "sy_st ?y1"] r e
    by (simp add: reconStep_def)
  moreover have "sys_step rt c ?y2 ?y3"
    using sys_step.recon_end [of ?y2 xs n RClear ys False rt c ?mx3 ?s3] e by (simp add: reconStep_def Let_def)
  ultimately have "(sys_step rt c)\<^sup>*\<^sup>* y ?y3" by (meson rtranclp.rtrancl_into_rtrancl)
  moreover have "count_list (concat (map (\<lambda>(n, e). case se_session e of None \<Rightarrow> [] | Some x \<Rightarrow> [EvClose x]) ps)) (EvClose sess) = 0"
    if "\<forall>e \<in> snd ` set ps. se_session e \<noteq> Some sess" for ps :: "(string, serverEntry) gomap"
    using that by (auto simp: count_list_0_iff split: option.splits)
  ultimately show ?thesis
    using e r(2) fresh
    by (intro exI [of _ ?y3]) (simp add: fireOnReconnect_def Close_def closeAll_traced Let_def split: option.split)
qed

section \<open>A concrete system\<close>

text \<open>
  One server that can always be connected but never answers a request with a deadline, so
  every health check finds it down.
\<close>

definition hl_rt :: "int rt" where
  "hl_rt = demo_rt\<lparr>rt_Connect := (\<lambda>c tp a b w. (Inr 5, w)),
     rt_ListTools := (\<lambda>sess c w. (if ctx_deadline c = None then Inr [mux_tool] else Inl (ErrText ''timeout''), w))\<rparr>"

definition hl_cfg :: MultiplexerConfig where
  "hl_cfg = mux_cfg\<lparr>mc_Servers := [hd (mc_Servers mux_cfg)]\<rparr>"

definition hl_new :: "(err + int mx \<times> goroutine list) \<times> int st" where
  "hl_new = New hl_rt None id ctx_Background hl_cfg [WithHealthCheck second] demo_st"

definition hl_mx :: "int mx" where
  "hl_mx = (case fst hl_new of Inr (mx, gs) \<Rightarrow> mx | Inl e \<Rightarrow> demo_mx (defaultOptions None))"

definition hl_gs :: "goroutine list" where
  "hl_gs = (case fst hl_new of Inr (mx, gs) \<Rightarrow> gs | Inl e \<Rightarrow> [])"

lemma hl_new: "New hl_rt None id ctx_Background hl_cfg [WithHealthCheck second] demo_st = (Inr (hl_mx, hl_gs), snd hl_new)"
proof -
  have "\<not> isl (fst hl_new)" by code_simp
  then obtain mx gs where "fst hl_new = Inr (mx, gs)"
    by (metis isl_def sum.exhaust prod.exhaust)
  then show ?thesis
    by (cases hl_new) (simp add: hl_mx_def hl_gs_def hl_new_def)
qed

abbreviation hl_start :: "int sys" where
  "hl_start \<equiv> started hl_mx hl_gs (snd hl_new)"

lemma hl_facts:
  "GoSupervisor \<in> set hl_gs" "GoReconnect ''a'' \<notin> set hl_gs"
  "0 < length hl_gs"
  by code_simp+

lemma hl_sched: "mset (id xs) = mset xs" by simp

lemma hl_entry: "\<exists>e. gm_get (mx_servers hl_mx) ''a'' = Some e \<and> \<not> se_reconnecting e \<and> se_session e \<noteq> None \<and>
    se_config e = hd (mc_Servers hl_cfg)"
proof -
  have "\<exists>e. gm_get (mx_servers hl_mx) ''a'' = Some e"
  proof -
    have "gm_get (mx_servers hl_mx) ''a'' \<noteq> None \<longleftrightarrow> ''a'' \<in> fst ` set (mx_servers hl_mx)"
      by (simp add: map_of_eq_None_iff)
    moreover have "fst ` set (mx_servers hl_mx) = sc_Name ` set (mc_Servers hl_cfg)"
      using New_entries [OF hl_sched hl_new] by blast
    ultimately show ?thesis by (simp add: hl_cfg_def mux_cfg_def)
  qed
  then obtain e where e: "gm_get (mx_servers hl_mx) ''a'' = Some e" by blast
  then have "(\<exists>sc \<in> set (mc_Servers hl_cfg). ''a'' = sc_Name sc \<and> se_config e = kindDefaults hl_cfg sc) \<and>
      se_session e \<noteq> None \<and> \<not> se_reconnecting e"
    using New_entries [OF hl_sched hl_new] hl_facts(2) by presburger
  with e show ?thesis by (auto simp: hl_cfg_def mux_cfg_def kindDefaults_def)
qed

lemma hl_probe_fails:
  "fst (probeServer hl_rt hl_mx ctx_Background ''a'' (o_healthCheckInterval (mx_opts hl_mx)) s) \<noteq> None"
  using hl_entry by (auto simp: probeServer_def hl_rt_def ctx_WithTimeout_def Let_def)

lemma hl_connects: "se_config e = hd (mc_Servers hl_cfg) \<Longrightarrow> server_up hl_rt opts ctx_Background e"
  by (simp add: server_up_def connect_def newTransport_def hl_cfg_def mux_cfg_def hl_rt_def Let_def
        fetchTools_def ctx_Background_def case_prod_beta)

lemma hl_sup: "sy_sup hl_start = SupIdle" "\<not> sy_cancelled hl_start" "sy_mx hl_start = hl_mx"
  using hl_facts(1) by (simp_all add: started_def)

text \<open>The run in which the server is found down, and its entry there.\<close>

lemma hl_down:
  "\<exists>y e. (sys_step hl_rt ctx_Background)\<^sup>*\<^sup>* hl_start y \<and> recon_at ''a'' RStart e y \<and> \<not> sy_cancelled y \<and>
     se_config e = hd (mc_Servers hl_cfg)"
proof -
  obtain e where e: "gm_get (mx_servers hl_mx) ''a'' = Some e" "\<not> se_reconnecting e" "se_config e = hd (mc_Servers hl_cfg)"
    using hl_entry by blast
  have "gm_get (mx_servers (sy_mx hl_start)) ''a'' = Some e"
    using e(1) hl_sup(3) by simp
  from supervisor_starts [OF hl_sup(1,2) this e(2), of hl_rt ctx_Background] hl_probe_fails hl_sup e(3) show ?thesis
    by (metis serverEntry.simps(1) serverEntry.select_convs(1) serverEntry.update_convs(5) serverEntry.surjective)
qed

lemma reaches_wait:
  assumes "recon_at n RStart e y"
  shows "\<exists>y'. (sys_step rt c)\<^sup>*\<^sup>* y y' \<and> (n, RWait (wait_of 1) 1) \<in> set (sy_recon y')"
proof -
  let ?e = "e\<lparr>se_state := ServerStateDown\<rparr>"
  have "\<exists>mx'. reconStep rt c False n RStart (sy_mx y) (sy_st y) = (Some (RClose (se_session e)), mx', sy_st y) \<and>
      gm_get (mx_servers mx') n = Some ?e"
    using assms by (simp add: reconStep_def recon_at_def)
  then obtain y1 where y1: "sys_step rt c y y1" "recon_at n (RClose (se_session e)) ?e y1"
    using recon_at_step [OF assms] by metis
  obtain s2 where s2: "reconStep rt c False n (RClose (se_session e)) (sy_mx y1) (sy_st y1) =
      (Some (RLoop 0 0), sy_mx y1, s2)"
    using y1(2) by (simp add: reconStep_def recon_at_def)
  obtain y2 where y2: "sys_step rt c y1 y2" "recon_at n (RLoop 0 0) ?e y2"
    by (rule recon_at_step [OF y1(2) s2]) (use y1(2) in \<open>simp_all add: recon_at_def\<close>)
  have s3: "reconStep rt c False n (RLoop 0 0) (sy_mx y2) (sy_st y2) = (Some (RWait (wait_of 1) 1), sy_mx y2, sy_st y2)"
    using y2(2) by (simp add: reconStep_def recon_at_def nextBackoff_first)
  obtain y3 where "sys_step rt c y2 y3" "recon_at n (RWait (wait_of 1) 1) ?e y3"
    by (rule recon_at_step [OF y2(2) s3]) (use y2(2) in \<open>simp_all add: recon_at_def\<close>)
  with y1(1) y2(1) show ?thesis
    by (intro exI [of _ y3]) (auto simp: recon_at_def intro: converse_rtranclp_into_rtranclp)
qed

theorem reconnect_invariant_witness:
  "(sys_step hl_rt ctx_Background)\<^sup>*\<^sup>* hl_start hl_start \<and> sessions_present (sy_mx hl_start)"
  using reconnect_invariant [OF hl_sched hl_new rtranclp.rtrancl_refl] by blast

theorem reconnect_waits_witness:
  "\<exists>y. (sys_step hl_rt ctx_Background)\<^sup>*\<^sup>* hl_start y \<and> (''a'', RWait second 1) \<in> set (sy_recon y)"
proof -
  obtain y e where y: "(sys_step hl_rt ctx_Background)\<^sup>*\<^sup>* hl_start y" "recon_at ''a'' RStart e y"
    using hl_down by blast
  obtain y' where y': "(sys_step hl_rt ctx_Background)\<^sup>*\<^sup>* y y'" "(''a'', RWait (wait_of 1) 1) \<in> set (sy_recon y')"
    using reaches_wait [OF y(2)] by blast
  have "(sys_step hl_rt ctx_Background)\<^sup>*\<^sup>* hl_start y'"
    using y(1) y'(1) by (rule rtranclp_trans)
  from reconnect_waits [OF hl_sched hl_new this y'(2)] this y'(2) show ?thesis
    by (auto simp: second_def)
qed

theorem reconnect_recovers_witness:
  "\<exists>y k y' e'. (sys_step hl_rt ctx_Background)\<^sup>*\<^sup>* hl_start y \<and> k \<le> 7 \<and> (recon_alone hl_rt ctx_Background ''a'' ^^ k) y y' \<and>
     gm_get (mx_servers (sy_mx y')) ''a'' = Some e' \<and> se_state e' = ServerStateConnected \<and> \<not> se_reconnecting e'"
proof -
  obtain y e where y: "(sys_step hl_rt ctx_Background)\<^sup>*\<^sup>* hl_start y" "recon_at ''a'' RStart e y"
      "\<not> sy_cancelled y" "se_config e = hd (mc_Servers hl_cfg)"
    using hl_down by blast
  let ?e = "e\<lparr>se_state := ServerStateDown\<rparr>"
  have "\<exists>mx'. reconStep hl_rt ctx_Background False ''a'' RStart (sy_mx y) (sy_st y) =
      (Some (RClose (se_session e)), mx', sy_st y) \<and> gm_get (mx_servers mx') ''a'' = Some ?e"
    using y(2) by (simp add: reconStep_def recon_at_def)
  then obtain mx' where mx': "reconStep hl_rt ctx_Background False ''a'' RStart (sy_mx y) (sy_st y) =
      (Some (RClose (se_session e)), mx', sy_st y)" "gm_get (mx_servers mx') ''a'' = Some ?e"
    by blast
  obtain xs ys where "sy_recon y = xs @ (''a'', RStart) # ys"
    using y(2) by (auto simp: recon_at_def dest: split_list)
  from sys_step.recon_go [OF this _ mx'(1)]
  have step: "sys_step hl_rt ctx_Background y (y\<lparr>sy_mx := mx', sy_recon := xs @ (''a'', RClose (se_session e)) # ys\<rparr>)"
    (is "sys_step _ _ y ?y") by simp
  then have run: "(sys_step hl_rt ctx_Background)\<^sup>*\<^sup>* hl_start ?y"
    using y(1) by (rule rtranclp.rtrancl_into_rtrancl [rotated])
  have "server_up hl_rt (mx_opts (sy_mx ?y)) ctx_Background ?e"
    using y(4) by (intro hl_connects) simp
  from reconnect_recovers [OF hl_sched hl_new run _ _ _ this] y(3) mx'(2) run show ?thesis
    by fastforce
qed



definition swap_entry :: serverEntry where
  "swap_entry = demo_entry\<lparr>se_state := ServerStateDown, se_reconnecting := True\<rparr>"

definition swap_sys :: "int sys" where
  "swap_sys = \<lparr>sy_mx = (demo_mx watched)\<lparr>mx_servers := [(''s'', swap_entry)]\<rparr>, sy_st = demo_st, sy_cancelled = False,
     sy_recon = [(''s'', RSwap (demo_entry\<lparr>se_tools := []\<rparr>))], sy_ref = [(''s'', RefIdle)], sy_sup = SupIdle,
     sy_closing = None\<rparr>"

theorem refresh_dropped_during_swap_witness:
  "\<exists>(y :: int sys) e'. gm_get (mx_servers (sy_mx y)) ''s'' = Some e' \<and> se_tools e' = [] \<and> se_refreshCh e' = Some False \<and>
     se_state e' = ServerStateConnected \<and> sy_st y = sy_st swap_sys"
proof -
  have "sy_recon swap_sys = [] @ (''s'', RSwap (demo_entry\<lparr>se_tools := []\<rparr>)) # []"
      "sy_ref swap_sys = [] @ (''s'', RefIdle) # []"
      "gm_get (mx_servers (sy_mx swap_sys)) ''s'' = Some swap_entry" "se_reconnecting swap_entry"
      "se_refreshCh swap_entry = Some False"
    by (simp_all add: swap_sys_def swap_entry_def demo_entry_def)
  from refresh_dropped_during_swap [OF this, of demo_rt ctx_Background]
  obtain y :: "int sys" and e' where "gm_get (mx_servers (sy_mx y)) ''s'' = Some e'" "se_tools e' = se_tools (demo_entry\<lparr>se_tools := []\<rparr>)"
      "se_refreshCh e' = Some False" "se_state e' = ServerStateConnected" "sy_st y = sy_st swap_sys"
    by blast
  then show ?thesis
    by (intro exI [of _ y] exI [of _ e']) simp
qed

theorem Close_misses_new_session_witness:
  "\<exists>y :: int sys. (sys_step demo_rt ctx_Background)\<^sup>*\<^sup>* (swap_sys\<lparr>sy_recon := [(''s'', RSwap (demo_entry\<lparr>se_session := Some 9\<rparr>))]\<rparr>) y \<and>
     sy_cancelled y \<and> sy_recon y = [] \<and> count_list (traced {KClose} (sy_st y)) (EvClose 9) = 0"
  using Close_misses_new_session [of "swap_sys\<lparr>sy_recon := [(''s'', RSwap (demo_entry\<lparr>se_session := Some 9\<rparr>))]\<rparr>" "[]" "''s''"
      "demo_entry\<lparr>se_session := Some 9\<rparr>" "[]" 9 swap_entry demo_rt ctx_Background]
  by (auto simp: swap_sys_def swap_entry_def demo_entry_def demo_st_def traced_def gm_ok_def)

end
