(* ===== verification/Float64.thy ===== *)
theory Float64
  imports Complex_Main "HOL-Library.Log_Nat"
begin

text \<open>
  Go's \<open>float64\<close>, IEEE 754 binary64 with rounding to nearest, ties to even, as far as the
  rate limiter of \<open>policy/policy.go\<close> computes with it. A finite value is its rational
  number. The two zeros are one value: the only divisor of the program that may be zero is
  the float of an integer zero, which is \<open>+0\<close>, and nothing else tells the zeros apart.
\<close>

section \<open>Definitions\<close>

subsection \<open>Rounding\<close>

text \<open>The binary exponent of a positive rational.\<close>

definition ilog2 :: "rat \<Rightarrow> int" where
  "ilog2 x = (let (p, q) = quotient_of x; k = bitlen p - bitlen q
              in if 2 powi k \<le> x then k else k - 1)"

text \<open>
  The exponent of the unit in the last place: 53 significant bits, and no unit below the
  smallest subnormal number.
\<close>

definition ulp :: "rat \<Rightarrow> int" where
  "ulp x = max (ilog2 x - 52) (- 1074)"

definition round_even :: "rat \<Rightarrow> int" where
  "round_even x = (let n = \<lfloor>x\<rfloor>; d = x - of_int n
                   in if d < 1 / 2 then n else if 1 / 2 < d then n + 1 else if even n then n else n + 1)"

definition rnd_pos :: "rat \<Rightarrow> rat" where
  "rnd_pos x = of_int (round_even (x / 2 powi ulp x)) * 2 powi ulp x"

definition rnd :: "rat \<Rightarrow> rat" where
  "rnd x = (if x = 0 then 0 else if x < 0 then - rnd_pos (- x) else rnd_pos x)"

subsection \<open>Values and operations\<close>

datatype f64 = Fin rat | PosInf | NegInf | NaN

definition to_f64 :: "rat \<Rightarrow> f64" where
  "to_f64 x = (let r = rnd x in if 2 ^ 1024 \<le> r then PosInf else if r \<le> - (2 ^ 1024) then NegInf else Fin r)"

text \<open>An infinity with the sign of a number that is not zero.\<close>

definition f_inf :: "rat \<Rightarrow> f64" where
  "f_inf x = (if 0 < x then PosInf else if x < 0 then NegInf else NaN)"

definition f_of_int :: "int \<Rightarrow> f64" where
  "f_of_int n = to_f64 (of_int n)"

fun f_neg :: "f64 \<Rightarrow> f64" where
  "f_neg (Fin x) = Fin (- x)"
| "f_neg PosInf = NegInf"
| "f_neg NegInf = PosInf"
| "f_neg NaN = NaN"

fun f_add :: "f64 \<Rightarrow> f64 \<Rightarrow> f64" where
  "f_add NaN _ = NaN"
| "f_add _ NaN = NaN"
| "f_add (Fin x) (Fin y) = to_f64 (x + y)"
| "f_add PosInf NegInf = NaN"
| "f_add NegInf PosInf = NaN"
| "f_add PosInf _ = PosInf"
| "f_add _ PosInf = PosInf"
| "f_add NegInf _ = NegInf"
| "f_add _ NegInf = NegInf"

definition f_sub :: "f64 \<Rightarrow> f64 \<Rightarrow> f64" where
  "f_sub a b = f_add a (f_neg b)"

fun f_mul :: "f64 \<Rightarrow> f64 \<Rightarrow> f64" where
  "f_mul NaN _ = NaN"
| "f_mul _ NaN = NaN"
| "f_mul (Fin x) (Fin y) = to_f64 (x * y)"
| "f_mul PosInf (Fin y) = f_inf y"
| "f_mul NegInf (Fin y) = f_inf (- y)"
| "f_mul (Fin x) PosInf = f_inf x"
| "f_mul (Fin x) NegInf = f_inf (- x)"
| "f_mul PosInf PosInf = PosInf"
| "f_mul PosInf NegInf = NegInf"
| "f_mul NegInf PosInf = NegInf"
| "f_mul NegInf NegInf = PosInf"

fun f_div :: "f64 \<Rightarrow> f64 \<Rightarrow> f64" where
  "f_div NaN _ = NaN"
| "f_div _ NaN = NaN"
| "f_div (Fin x) (Fin y) = (if y = 0 then f_inf x else to_f64 (x / y))"
| "f_div PosInf (Fin y) = (if y < 0 then NegInf else PosInf)"
| "f_div NegInf (Fin y) = (if y < 0 then PosInf else NegInf)"
| "f_div (Fin x) _ = Fin 0"
| "f_div _ _ = NaN"

fun f_lt :: "f64 \<Rightarrow> f64 \<Rightarrow> bool" where
  "f_lt NaN _ = False"
| "f_lt _ NaN = False"
| "f_lt (Fin x) (Fin y) = (x < y)"
| "f_lt NegInf b = (b \<noteq> NegInf)"
| "f_lt (Fin _) b = (b = PosInf)"
| "f_lt PosInf _ = False"

text \<open>The built-in \<open>min\<close>: NaN if an argument is NaN.\<close>

definition f_min :: "f64 \<Rightarrow> f64 \<Rightarrow> f64" where
  "f_min a b = (if a = NaN \<or> b = NaN then NaN else if f_lt b a then b else a)"

section \<open>Exponents\<close>

lemma powi_pos [simp]: "(0 :: rat) < 2 powi k"
  by (simp add: zero_less_power_int)

lemma powi_not_neg [simp]: "\<not> (2 :: rat) powi k < 0"
  using powi_pos [of k] by linarith

lemma powi_le_iff [simp]: "(2 :: rat) powi a \<le> 2 powi b \<longleftrightarrow> a \<le> b"
  by (meson linorder_not_le one_less_numeral_iff power_int_increasing power_int_strict_increasing
      order_less_imp_le semiring_norm(76))

lemma ilog2_bounds:
  assumes "0 < x"
  shows "2 powi ilog2 x \<le> x" "x < 2 powi (ilog2 x + 1)"
proof -
  obtain p q where pq: "quotient_of x = (p, q)" by fastforce
  then have q: "0 < q" and x: "x = of_int p / of_int q"
    by (auto simp: quotient_of_denom_pos quotient_of_div)
  with assms have p: "0 < p" by (simp add: zero_less_divide_iff)
  have bl: "of_int n < (2 :: rat) powi bitlen n" "(2 :: rat) powi (bitlen n - 1) \<le> of_int n" if "0 < n" for n
  proof -
    have "0 < bitlen n" using that bitlen_nonneg [of n] bitlen_eq_zero_iff [of n] by linarith
    then have "2 powi bitlen n = (of_int (2 ^ nat (bitlen n)) :: rat)"
      "2 powi (bitlen n - 1) = (of_int (2 ^ nat (bitlen n - 1)) :: rat)"
      by (simp_all add: power_int_def)
    with bitlen_bounds [OF that] show "of_int n < (2 :: rat) powi bitlen n"
      "(2 :: rat) powi (bitlen n - 1) \<le> of_int n"
      by (simp_all only: of_int_less_iff of_int_le_iff)
  qed
  let ?k = "bitlen p - bitlen q"
  have "x < 2 powi bitlen p / 2 powi (bitlen q - 1)"
    unfolding x using bl [OF p] bl [OF q] p q by (intro frac_less) auto
  also have "\<dots> = 2 powi (?k + 1)"
    by (simp flip: power_int_diff add: algebra_simps)
  finally have u: "x < 2 powi (?k + 1)" .
  have "2 powi (?k - 1) = 2 powi (bitlen p - 1) / (2 :: rat) powi bitlen q"
    by (simp flip: power_int_diff add: algebra_simps)
  also have "\<dots> \<le> x"
    unfolding x using bl [OF p] bl [OF q] p q by (intro frac_le) auto
  finally have l: "2 powi (?k - 1) \<le> x" .
  show "2 powi ilog2 x \<le> x" "x < 2 powi (ilog2 x + 1)"
    using u l by (auto simp: ilog2_def pq Let_def)
qed

lemma ilog2_mono:
  assumes "0 < x" "x \<le> y"
  shows "ilog2 x \<le> ilog2 y"
proof -
  have "2 powi ilog2 x < (2 :: rat) powi (ilog2 y + 1)"
    using ilog2_bounds [of x] ilog2_bounds [of y] assms by linarith
  then have "\<not> ilog2 y + 1 \<le> ilog2 x"
    by (simp flip: powi_le_iff add: not_le del: powi_le_iff)
  then show ?thesis by simp
qed

lemma ulp_mono: "0 < x \<Longrightarrow> x \<le> y \<Longrightarrow> ulp x \<le> ulp y"
  using ilog2_mono by (fastforce simp: ulp_def)

lemma below_ulp: "0 < x \<Longrightarrow> x < 2 powi (ulp x + 53)"
  using ilog2_bounds(2) [of x] powi_le_iff [of "ilog2 x + 1" "ulp x + 53"]
  unfolding ulp_def by linarith

lemma above_ulp: "0 < x \<Longrightarrow> - 1074 < ulp x \<Longrightarrow> 2 powi (ulp x + 52) \<le> x"
  using ilog2_bounds(1) [of x] by (auto simp: ulp_def max_def split: if_splits)

section \<open>Rounding\<close>

lemma round_even_of_int [simp]: "round_even (of_int n) = n"
  by (simp add: round_even_def)

lemma round_even_mono:
  assumes "x \<le> y"
  shows "round_even x \<le> round_even y"
proof (cases "\<lfloor>x\<rfloor> = \<lfloor>y\<rfloor>")
  case True
  with assms show ?thesis by (auto simp: round_even_def Let_def)
next
  case False
  with floor_mono [OF assms] have "\<lfloor>x\<rfloor> + 1 \<le> \<lfloor>y\<rfloor>" by simp
  moreover have "round_even x \<le> \<lfloor>x\<rfloor> + 1" "\<lfloor>y\<rfloor> \<le> round_even y"
    by (auto simp: round_even_def Let_def)
  ultimately show ?thesis by linarith
qed

text \<open>A multiple of the unit is not changed.\<close>

lemma rnd_pos_exact: "x = of_int m * 2 powi ulp x \<Longrightarrow> rnd_pos x = x"
  unfolding rnd_pos_def by (metis nonzero_mult_div_cancel_right powi_pos less_numeral_extra(3) round_even_of_int)

lemma rnd_pos_le_powi:
  assumes "0 < x"
  shows "rnd_pos x \<le> 2 powi (ulp x + 53)"
proof -
  have "x / 2 powi ulp x \<le> of_int (2 ^ 53)"
    using below_ulp [OF assms] by (simp add: power_int_add field_simps)
  then have "round_even (x / 2 powi ulp x) \<le> 2 ^ 53"
    using round_even_mono round_even_of_int by metis
  then have "(of_int (round_even (x / 2 powi ulp x)) :: rat) \<le> of_int (2 ^ 53)"
    by (simp only: of_int_le_iff)
  then show ?thesis
    by (simp add: rnd_pos_def power_int_add mult.commute [of _ "2 powi ulp x"] mult_left_mono less_imp_le)
qed

lemma rnd_pos_ge_powi:
  assumes "0 < x" "- 1074 < ulp x"
  shows "2 powi (ulp x + 52) \<le> rnd_pos x"
proof -
  have "of_int (2 ^ 52) \<le> x / 2 powi ulp x"
    using above_ulp [OF assms] by (simp add: power_int_add field_simps)
  then have "2 ^ 52 \<le> round_even (x / 2 powi ulp x)"
    using round_even_mono round_even_of_int by metis
  then have "of_int (2 ^ 52) \<le> (of_int (round_even (x / 2 powi ulp x)) :: rat)"
    by (simp only: of_int_le_iff)
  then show ?thesis
    by (simp add: rnd_pos_def power_int_add mult.commute [of _ "2 powi ulp x"] mult_left_mono less_imp_le)
qed

lemma rnd_pos_nonneg: "0 < x \<Longrightarrow> 0 \<le> rnd_pos x"
  using round_even_mono [of 0 "x / 2 powi ulp x"] round_even_of_int [of 0]
  by (auto simp: rnd_pos_def intro!: mult_nonneg_nonneg less_imp_le [OF powi_pos])

lemma rnd_pos_mono:
  assumes "0 < x" "x \<le> y"
  shows "rnd_pos x \<le> rnd_pos y"
proof (cases "ulp x = ulp y")
  case True
  with assms have "round_even (x / 2 powi ulp x) \<le> round_even (y / 2 powi ulp y)"
    by (intro round_even_mono) (simp add: divide_right_mono less_imp_le)
  with True show ?thesis by (simp add: rnd_pos_def mult_right_mono less_imp_le)
next
  case False
  with ulp_mono [OF assms] have "ulp x + 53 \<le> ulp y + 52" by simp
  moreover from False ulp_mono [OF assms] have "- 1074 < ulp y" by (simp add: ulp_def)
  ultimately show ?thesis
    using rnd_pos_le_powi [of x] rnd_pos_ge_powi [of y] assms powi_le_iff [of "ulp x + 53" "ulp y + 52"]
    by linarith
qed

section \<open>The laws of rounding\<close>

lemma rnd_0 [simp]: "rnd 0 = 0"
  by (simp add: rnd_def)

lemma rnd_minus: "rnd (- x) = - rnd x"
  by (simp add: rnd_def)

lemma rnd_mono: "x \<le> y \<Longrightarrow> rnd x \<le> rnd y"
  using rnd_pos_mono [of x y] rnd_pos_mono [of "- y" "- x"] rnd_pos_nonneg [of y] rnd_pos_nonneg [of "- x"]
  by (auto simp: rnd_def)

lemma rnd_pos_scaled:
  assumes "0 < n" "n \<le> 2 ^ 53" "- 1074 \<le> k"
  shows "rnd_pos (of_int n * 2 powi k) = of_int n * 2 powi k"
proof (cases "n = 2 ^ 53")
  case True
  let ?x = "of_int n * (2 :: rat) powi k"
  have x: "?x = 2 powi (k + 53)" using True by (simp add: power_int_add)
  then have "2 powi ilog2 ?x \<le> (2 :: rat) powi (k + 53)"
    using ilog2_bounds(1) [of ?x] by (simp del: powi_le_iff)
  then have "ulp ?x \<le> k + 53" using assms(3) by (simp add: ulp_def)
  moreover have "2 powi (k + 53) = (of_int (2 ^ nat (k + 53 - ulp ?x)) :: rat) * 2 powi ulp ?x"
    using \<open>ulp ?x \<le> k + 53\<close> by (simp flip: power_int_nonneg_exp power_int_add)
  ultimately show ?thesis using x by (metis rnd_pos_exact)
next
  case False
  let ?x = "of_int n * (2 :: rat) powi k"
  have "of_int n < (2 :: rat) powi 53" using False assms(2)
    by (metis of_int_less_iff of_int_numeral of_int_power order_le_less power_int_numeral)
  then have "?x < 2 powi (k + 53)" by (simp add: power_int_add mult.commute)
  moreover have "2 powi ilog2 ?x \<le> ?x" using assms(1) by (intro ilog2_bounds(1)) simp
  ultimately have "\<not> (2 :: rat) powi (k + 53) \<le> 2 powi ilog2 ?x" by linarith
  then have "ulp ?x \<le> k" using assms(3) by (simp add: ulp_def)
  then have "?x = of_int (n * 2 ^ nat (k - ulp ?x)) * 2 powi ulp ?x"
    by (simp flip: power_int_nonneg_exp power_int_add add: mult.assoc)
  then show ?thesis by (rule rnd_pos_exact)
qed

lemma rnd_scaled: "\<bar>n\<bar> \<le> 2 ^ 53 \<Longrightarrow> - 1074 \<le> k \<Longrightarrow> rnd (of_int n * 2 powi k) = of_int n * 2 powi k"
  using rnd_pos_scaled [of n k] rnd_pos_scaled [of "- n" k]
  by (auto simp: rnd_def zero_less_mult_iff mult_less_0_iff)

lemma rnd_of_int: "\<bar>n\<bar> \<le> 2 ^ 53 \<Longrightarrow> rnd (of_int n) = of_int n"
  using rnd_scaled [of n 0] by simp

lemma rnd_powi: "- 1074 \<le> k \<Longrightarrow> rnd (2 powi k) = 2 powi k"
  using rnd_scaled [of 1 k] by simp

text \<open>
  What clients need of rounding: it is monotone and leaves the integers up to \<open>2\<^sup>5\<^sup>3\<close> and
  the powers of two alone, so a bound by one of these survives an operation.
\<close>

locale rounding =
  fixes r :: "rat \<Rightarrow> rat"
  assumes mono: "x \<le> y \<Longrightarrow> r x \<le> r y"
    and of_int: "\<bar>n\<bar> \<le> 2 ^ 53 \<Longrightarrow> r (of_int n) = of_int n"
    and powi: "- 1074 \<le> k \<Longrightarrow> r (2 powi k) = 2 powi k"
begin

lemma zero: "r 0 = 0"
  using of_int [of 0] by simp

lemma one: "r 1 = 1"
  using of_int [of 1] by simp

lemma nonneg: "0 \<le> x \<Longrightarrow> 0 \<le> r x"
  using mono [of 0 x] zero by simp

lemma ge_one: "1 \<le> x \<Longrightarrow> 1 \<le> r x"
  using mono [of 1 x] one by simp

lemma le_one: "x \<le> 1 \<Longrightarrow> r x \<le> 1"
  using mono [of x 1] one by simp

lemma le_int: "x \<le> of_int n \<Longrightarrow> \<bar>n\<bar> \<le> 2 ^ 53 \<Longrightarrow> r x \<le> of_int n"
  using mono [of x "of_int n"] of_int [of n] by simp

lemma ge_int: "of_int n \<le> x \<Longrightarrow> \<bar>n\<bar> \<le> 2 ^ 53 \<Longrightarrow> of_int n \<le> r x"
  using mono [of "of_int n" x] of_int [of n] by simp

lemma le_powi: "x \<le> 2 powi k \<Longrightarrow> - 1074 \<le> k \<Longrightarrow> r x \<le> 2 powi k"
  using mono [of x "2 powi k"] powi [of k] by simp

lemma ge_powi: "2 powi k \<le> x \<Longrightarrow> - 1074 \<le> k \<Longrightarrow> 2 powi k \<le> r x"
  using mono [of "2 powi k" x] powi [of k] by simp

end

interpretation binary64: rounding rnd
  by unfold_locales (simp_all only: rnd_mono rnd_of_int rnd_powi)

section \<open>The rounding error\<close>

text \<open>A normal number is off by at most half a unit, \<open>2\<^sup>-\<^sup>5\<^sup>3\<close> of its size.\<close>

lemma round_even_error: "\<bar>of_int (round_even x) - x\<bar> \<le> 1 / 2"
  using of_int_floor_le [of x] floor_correct [of x]
  unfolding round_even_def Let_def abs_if by (simp split: if_splits) linarith?

lemma rnd_pos_error: "\<bar>rnd_pos x - x\<bar> \<le> 2 powi (ulp x - 1)"
proof -
  have "rnd_pos x - x = (of_int (round_even (x / 2 powi ulp x)) - x / 2 powi ulp x) * 2 powi ulp x"
    by (simp add: rnd_pos_def left_diff_distrib)
  then have "\<bar>rnd_pos x - x\<bar> \<le> 1 / 2 * 2 powi ulp x"
    using mult_right_mono [OF round_even_error [of "x / 2 powi ulp x"], of "2 powi ulp x"]
    by (simp add: abs_mult less_imp_le)
  then show ?thesis by (simp add: power_int_diff)
qed

definition normal :: "rat \<Rightarrow> bool" where
  "normal x \<longleftrightarrow> x = 0 \<or> 2 powi - 1022 \<le> x"

definition roundoff :: rat where
  "roundoff = 1 / 2 ^ 53"

lemma roundoff_pos: "0 < roundoff" "roundoff < 1"
  by (simp_all add: roundoff_def)

lemma rnd_error:
  assumes "normal x"
  shows "\<bar>rnd x - x\<bar> \<le> x * roundoff"
proof (cases "x = 0")
  case False
  with assms have x: "2 powi - 1022 \<le> x" by (simp add: normal_def)
  have x0: "0 < x" using x powi_pos [of "- 1022"] by linarith
  have "2 powi - 1022 < (2 :: rat) powi (ilog2 x + 1)" using x ilog2_bounds(2) [OF x0] by linarith
  then have "\<not> ilog2 x + 1 \<le> - 1022" by (metis linorder_not_le powi_le_iff)
  then have u: "ulp x - 1 = ilog2 x - 53" unfolding ulp_def by linarith
  have "2 powi (ulp x - 1) = 2 powi ilog2 x / (2 :: rat) ^ 53"
    unfolding u using power_int_diff [of "2 :: rat" "ilog2 x" 53] by simp
  also have "\<dots> = 2 powi ilog2 x * roundoff" by (simp add: roundoff_def)
  also have "\<dots> \<le> x * roundoff" using ilog2_bounds(1) [OF x0] roundoff_pos by (intro mult_right_mono) auto
  finally show ?thesis using rnd_pos_error [of x] x0 by (simp add: rnd_def)
qed simp

lemma rnd_rel:
  "normal x \<Longrightarrow> rnd x \<le> x * (1 + roundoff)" "normal x \<Longrightarrow> x * (1 - roundoff) \<le> rnd x"
  using rnd_error [of x] unfolding abs_le_iff distrib_left right_diff_distrib by linarith+

lemma normal_powi: "2 powi k \<le> x \<Longrightarrow> - 1022 \<le> k \<Longrightarrow> normal x"
  unfolding normal_def by (meson order_trans powi_le_iff)

text \<open>In general there is a second error, of the size of the smallest normal number.\<close>

lemma rnd_upper:
  assumes "0 \<le> x"
  shows "rnd x \<le> x * (1 + roundoff) + roundoff"
proof (cases "normal x")
  case True
  then show ?thesis using rnd_rel(1) [of x] roundoff_pos by linarith
next
  case False
  then have "x \<le> 2 powi - 53" unfolding normal_def using powi_le_iff [of "- 1022" "- 53"] by linarith
  then have "rnd x \<le> 2 powi - 53" by (rule binary64.le_powi) simp
  also have "\<dots> = roundoff" by (simp add: roundoff_def)
  finally show ?thesis
    using mult_nonneg_nonneg [OF assms, of "1 + roundoff"] roundoff_pos by linarith
qed

section \<open>Finite results\<close>

lemma to_f64_Fin:
  assumes "\<bar>x\<bar> \<le> 2 powi 200"
  shows "to_f64 x = Fin (rnd x)"
proof -
  have "x \<le> 2 powi 200" "- x \<le> 2 powi 200" using assms by linarith+
  then have "rnd x \<le> 2 powi 200" "rnd (- x) \<le> 2 powi 200"
    by (simp_all only: binary64.le_powi)
  moreover have "(2 :: rat) powi 200 < 2 ^ 1024" by (simp add: power_strict_increasing)
  ultimately show ?thesis by (simp add: to_f64_def Let_def rnd_minus)
qed

lemma f_of_int_Fin: "\<bar>n\<bar> \<le> 2 ^ 53 \<Longrightarrow> f_of_int n = Fin (of_int n)"
proof -
  assume n: "\<bar>n\<bar> \<le> 2 ^ 53"
  then have "\<bar>of_int n :: rat\<bar> \<le> of_int (2 ^ 53)" by (simp only: of_int_le_iff flip: of_int_abs)
  also have "\<dots> \<le> 2 powi 200" by (simp add: power_increasing)
  finally show ?thesis using n by (simp only: f_of_int_def to_f64_Fin rnd_of_int)
qed

lemma f_ops_Fin:
  "\<bar>x + y\<bar> \<le> 2 powi 200 \<Longrightarrow> f_add (Fin x) (Fin y) = Fin (rnd (x + y))"
  "\<bar>x - y\<bar> \<le> 2 powi 200 \<Longrightarrow> f_sub (Fin x) (Fin y) = Fin (rnd (x - y))"
  "\<bar>x * y\<bar> \<le> 2 powi 200 \<Longrightarrow> f_mul (Fin x) (Fin y) = Fin (rnd (x * y))"
  "y \<noteq> 0 \<Longrightarrow> \<bar>x / y\<bar> \<le> 2 powi 200 \<Longrightarrow> f_div (Fin x) (Fin y) = Fin (rnd (x / y))"
  by (simp_all add: f_sub_def to_f64_Fin del: power_int_numeral)

lemma f_min_Fin [simp]: "f_min (Fin x) (Fin y) = Fin (min x y)"
  by (auto simp: f_min_def min_def)

end
