(* ===== verification/Limiter.thy ===== *)
theory Limiter
  imports Prelude Float64 "HOL-Library.Signed_Division"
begin

text \<open>
  The token bucket of \<open>policy/policy.go\<close>, with its floating-point arithmetic, and the
  parts of package \<open>time\<close> it computes with. A limiter is changed under its mutex, so its
  operations are a sequence; the clock is read inside the critical section and does not run
  backwards, since \<open>time.Now\<close> carries a monotonic reading.
\<close>

section \<open>Definitions\<close>

subsection \<open>Package time\<close>

text \<open>\<open>(Time).Sub\<close> saturates; division of integers truncates.\<close>

definition time_Sub :: "gotime \<Rightarrow> gotime \<Rightarrow> duration" where
  "time_Sub t u = max (- (2 ^ 63)) (min (2 ^ 63 - 1) (t - u))"

definition Seconds :: "duration \<Rightarrow> f64" where
  "Seconds d = f_add (f_of_int (d sdiv 1000000000)) (f_div (f_of_int (d smod 1000000000)) (Fin 1000000000))"

definition Milliseconds :: "duration \<Rightarrow> int" where
  "Milliseconds d = d sdiv 1000000"

subsection \<open>The bucket\<close>

record tbucket =
  b_tokens :: f64
  b_lastTime :: gotime

record tokenBucket =
  tb_buckets :: "(string, tbucket) gomap"
  tb_per :: duration
  tb_burst :: int

definition newTokenBucket :: "duration \<Rightarrow> int \<Rightarrow> tokenBucket" where
  "newTokenBucket per burst = \<lparr>tb_buckets = [], tb_per = per, tb_burst = burst\<rparr>"

definition allow :: "gotime \<Rightarrow> tokenBucket \<Rightarrow> string \<Rightarrow> bool \<times> tokenBucket" where
  "allow now tb key =
     (case gm_get (tb_buckets tb) key of
        None \<Rightarrow>
          (True, tb\<lparr>tb_buckets := gm_set key
             \<lparr>b_tokens = f_sub (f_of_int (tb_burst tb)) (Fin 1), b_lastTime = now\<rparr> (tb_buckets tb)\<rparr>)
      | Some b \<Rightarrow>
          (let elapsed = time_Sub now (b_lastTime b);
               refill = f_mul (f_div (Seconds elapsed) (Seconds (tb_per tb))) (f_of_int (tb_burst tb));
               b = b\<lparr>b_tokens := f_min (f_of_int (tb_burst tb)) (f_add (b_tokens b) refill)\<rparr>;
               b = b\<lparr>b_lastTime := now\<rparr>
           in if f_lt (b_tokens b) (Fin 1)
              then (False, tb\<lparr>tb_buckets := gm_set key b (tb_buckets tb)\<rparr>)
              else (let b = b\<lparr>b_tokens := f_sub (b_tokens b) (Fin 1)\<rparr>
                    in (True, tb\<lparr>tb_buckets := gm_set key b (tb_buckets tb)\<rparr>))))"

text \<open>A history of calls: the time and the key of each, and the answers.\<close>

fun allows :: "(gotime \<times> string) list \<Rightarrow> tokenBucket \<Rightarrow> bool list \<times> tokenBucket" where
  "allows [] tb = ([], tb)"
| "allows ((now, key) # calls) tb =
     (let (ok, tb) = allow now tb key; (oks, tb) = allows calls tb in (ok # oks, tb))"

section \<open>Seconds\<close>

definition secs :: "duration \<Rightarrow> rat" where
  "secs d = rnd (of_int (d div 1000000000) + rnd (of_int (d mod 1000000000) / 1000000000))"

lemma frac_rnd: "0 \<le> rnd (of_int (d mod 1000000000) / 1000000000)"
  "rnd (of_int (d mod 1000000000) / 1000000000) \<le> 1"
proof -
  have "of_int (d mod 1000000000) \<le> (of_int 1000000000 :: rat)"
    by (simp only: of_int_le_iff)
  then show "rnd (of_int (d mod 1000000000) / 1000000000) \<le> 1"
    by (intro binary64.le_one) simp
  show "0 \<le> rnd (of_int (d mod 1000000000) / 1000000000)"
    by (intro binary64.nonneg) simp
qed

lemma secs_mono:
  assumes "d \<le> d'"
  shows "secs d \<le> secs d'"
proof (cases "d div 1000000000 = d' div 1000000000")
  case True
  with assms have "d mod 1000000000 \<le> d' mod 1000000000"
    using div_mult_mod_eq [of d 1000000000] div_mult_mod_eq [of d' 1000000000] by linarith
  with True show ?thesis
    unfolding secs_def by (intro binary64.mono add_mono divide_right_mono) simp_all
next
  case False
  with assms have "d div 1000000000 + 1 \<le> d' div 1000000000"
    using zdiv_mono1 [of d d' 1000000000] by linarith
  then have "of_int (d div 1000000000) + 1 \<le> (of_int (d' div 1000000000) :: rat)"
    by (metis of_int_1 of_int_add of_int_le_iff)
  with frac_rnd(1) [of d'] frac_rnd(2) [of d] show ?thesis
    unfolding secs_def by (intro binary64.mono) linarith
qed

lemma secs_0 [simp]: "secs 0 = 0"
  by (simp add: secs_def)

lemma secs_lower: "1 \<le> d \<Longrightarrow> 2 powi - 30 \<le> secs d"
proof -
  assume d: "1 \<le> d"
  have "(2 :: rat) powi - 30 \<le> rnd (1 / 1000000000)"
    by (rule binary64.ge_powi) simp_all
  then have "2 powi - 30 \<le> secs 1"
    unfolding secs_def by (intro binary64.ge_powi) simp_all
  with secs_mono [OF d] show ?thesis by linarith
qed

lemma div_billion: "0 \<le> (d :: int) \<Longrightarrow> d < 2 ^ 63 \<Longrightarrow> 0 \<le> d div 1000000000 \<and> d div 1000000000 < 2 ^ 34 - 1"
  using zdiv_mono1 [of d "2 ^ 63 - 1" 1000000000] by (simp add: pos_imp_zdiv_nonneg_iff)

lemma secs_upper:
  assumes "0 \<le> d" "d < 2 ^ 63"
  shows "secs d \<le> 2 powi 34"
proof -
  have "d div 1000000000 + 1 \<le> 2 ^ 34" using div_billion [OF assms] by simp
  then have "of_int (d div 1000000000 + 1) \<le> (of_int (2 ^ 34) :: rat)" by (simp only: of_int_le_iff)
  with frac_rnd(2) [of d] have "of_int (d div 1000000000) + rnd (of_int (d mod 1000000000) / 1000000000) \<le> 2 powi 34"
    by simp
  then show ?thesis unfolding secs_def by (rule binary64.le_powi) simp
qed

lemma secs_nonneg: "0 \<le> d \<Longrightarrow> 0 \<le> secs d"
  using secs_mono [of 0 d] by simp

lemma small_le: "x \<le> 2 powi k \<Longrightarrow> 0 \<le> x \<Longrightarrow> k \<le> 200 \<Longrightarrow> \<bar>x :: rat\<bar> \<le> 2 powi 200"
  using powi_le_iff [of k 200] by (simp del: powi_le_iff power_int_numeral)

lemma Seconds_Fin:
  assumes "0 \<le> d" "d < 2 ^ 63"
  shows "Seconds d = Fin (secs d)"
proof -
  let ?a = "d div 1000000000" and ?b = "d mod 1000000000"
  have ab: "0 \<le> ?a" "?a + 1 \<le> 2 ^ 34" "0 \<le> ?b" "?b < 1000000000"
    using div_billion [OF assms] by auto
  have "of_int ?b / (1000000000 :: rat) \<le> 2 powi 0"
    using ab(4) by (metis divide_le_eq_1_pos less_imp_le of_int_le_iff of_int_numeral power_int_0_right zero_less_numeral)
  then have "\<bar>of_int ?b / (1000000000 :: rat)\<bar> \<le> 2 powi 200"
    using ab by (intro small_le) auto
  then have div: "f_div (Fin (of_int ?b)) (Fin 1000000000) = Fin (rnd (of_int ?b / 1000000000))"
    by (simp add: f_ops_Fin del: f_div.simps)
  have "of_int (?a + 1) \<le> (of_int (2 ^ 34) :: rat)" using ab(2) by (simp only: of_int_le_iff)
  then have "of_int ?a + rnd (of_int ?b / 1000000000) \<le> 2 powi 34"
    using frac_rnd(2) [of d] by simp
  then have "\<bar>of_int ?a + rnd (of_int ?b / 1000000000)\<bar> \<le> 2 powi 200"
    using frac_rnd(1) [of d] ab by (intro small_le) auto
  then show ?thesis
    using ab assms by (simp add: Seconds_def secs_def signed_divide_int_def signed_modulo_int_def
        f_of_int_Fin div f_ops_Fin sgn_if del: f_div.simps f_add.simps)
qed

lemma Seconds_0: "Seconds 0 = Fin 0"
  using Seconds_Fin [of 0] by simp

section \<open>One call\<close>

text \<open>The tokens that a waiting time of \<open>e\<close> earns, as the program rounds them.\<close>

definition refill :: "duration \<Rightarrow> duration \<Rightarrow> int \<Rightarrow> rat" where
  "refill e per burst = rnd (rnd (secs e / secs per) * of_int burst)"

text \<open>Limits for which no operation overflows or loses an integer.\<close>

definition limits_ok :: "duration \<Rightarrow> int \<Rightarrow> bool" where
  "limits_ok per burst \<longleftrightarrow> 0 < per \<and> per < 2 ^ 63 \<and> 1 \<le> burst \<and> burst \<le> 2 ^ 53"

lemma secs_pos: "limits_ok per burst \<Longrightarrow> 0 < secs per"
  using secs_lower [of per] powi_pos [of "- 30"] by (simp add: limits_ok_def)

lemma ratio_upper:
  assumes "limits_ok per burst" "0 \<le> e" "e < 2 ^ 63"
  shows "secs e / secs per \<le> 2 powi 64"
proof -
  have "secs e / secs per \<le> 2 powi 34 / 2 powi - 30"
    using assms secs_upper [of e] secs_lower [of per] secs_nonneg [of e]
    by (intro frac_le) (auto simp: limits_ok_def)
  also have "\<dots> = 2 powi 64" by (simp flip: power_int_diff)
  finally show ?thesis .
qed

lemma refill_nonneg: "limits_ok per burst \<Longrightarrow> 0 \<le> e \<Longrightarrow> 0 \<le> refill e per burst"
  unfolding refill_def using secs_pos [of per burst] secs_nonneg [of e]
  by (intro binary64.nonneg mult_nonneg_nonneg) (simp_all add: limits_ok_def)

lemma refill_Fin:
  assumes ok: "limits_ok per burst" and e: "0 \<le> e" "e < 2 ^ 63"
  shows "f_mul (f_div (Seconds e) (Seconds per)) (f_of_int burst) = Fin (refill e per burst)"
    and "refill e per burst \<le> 2 powi 117"
proof -
  let ?q = "secs e / secs per"
  note q = ratio_upper [OF assms]
  have q0: "0 \<le> ?q" using secs_pos [OF ok] secs_nonneg [OF e(1)] by simp
  have rq: "rnd ?q \<le> 2 powi 64" "0 \<le> rnd ?q"
    using q q0 by (simp_all only: binary64.le_powi binary64.nonneg)
  have b: "of_int burst \<le> (2 :: rat) powi 53" "(0 :: rat) \<le> of_int burst"
    using ok of_int_le_iff [of burst "2 ^ 53"] by (auto simp: limits_ok_def)
  have "rnd ?q * of_int burst \<le> 2 powi 64 * 2 powi 53"
    using rq b by (intro mult_mono) auto
  also have "\<dots> = (2 :: rat) powi 117" by simp
  finally have m: "rnd ?q * of_int burst \<le> 2 powi 117" .
  then show "refill e per burst \<le> 2 powi 117"
    unfolding refill_def by (rule binary64.le_powi) simp
  have "\<bar>?q\<bar> \<le> 2 powi 200" using q q0 by (rule small_le) simp
  then have "f_div (Seconds e) (Seconds per) = Fin (rnd ?q)"
    using Seconds_Fin [of e] Seconds_Fin [of per] ok e secs_pos [OF ok]
    by (simp add: f_ops_Fin limits_ok_def del: f_div.simps power_int_numeral)
  moreover have "\<bar>rnd ?q * of_int burst\<bar> \<le> 2 powi 200"
    using m rq b by (intro small_le [of _ 117]) auto
  moreover have "f_of_int burst = Fin (of_int burst)"
    using ok by (intro f_of_int_Fin) (simp add: limits_ok_def)
  ultimately show "f_mul (f_div (Seconds e) (Seconds per)) (f_of_int burst) = Fin (refill e per burst)"
    by (simp add: f_ops_Fin refill_def del: f_mul.simps power_int_numeral)
qed

text \<open>The tokens of a key right before a call is decided.\<close>

definition avail :: "rat \<Rightarrow> duration \<Rightarrow> duration \<Rightarrow> int \<Rightarrow> rat" where
  "avail x e per burst = min (of_int burst) (rnd (x + refill e per burst))"

lemma elapsed_bounds:
  "b_lastTime b \<le> now \<Longrightarrow> 0 \<le> time_Sub now (b_lastTime b) \<and> time_Sub now (b_lastTime b) < 2 ^ 63"
  by (simp add: time_Sub_def)

lemma allow_known:
  assumes ok: "limits_ok (tb_per tb) (tb_burst tb)"
    and b: "gm_get (tb_buckets tb) key = Some b" "b_tokens b = Fin x" "0 \<le> x" "x \<le> of_int (tb_burst tb)"
    and now: "b_lastTime b \<le> now" and y: "y = avail x (time_Sub now (b_lastTime b)) (tb_per tb) (tb_burst tb)"
  shows "allow now tb key = (1 \<le> y, tb\<lparr>tb_buckets := gm_set key
           \<lparr>b_tokens = Fin (if 1 \<le> y then rnd (y - 1) else y), b_lastTime = now\<rparr> (tb_buckets tb)\<rparr>)"
proof -
  let ?e = "time_Sub now (b_lastTime b)" and ?n = "tb_burst tb"
  note e = elapsed_bounds [OF now]
  note r = refill_Fin [OF ok conjunct1 [OF e] conjunct2 [OF e]]
  have n: "f_of_int ?n = Fin (of_int ?n)" "of_int ?n \<le> (2 :: rat) powi 53"
    using ok of_int_le_iff [of ?n "2 ^ 53"] by (auto simp: limits_ok_def intro: f_of_int_Fin)
  have r0: "0 \<le> refill ?e (tb_per tb) ?n" using refill_nonneg [OF ok] e by simp
  have "x + refill ?e (tb_per tb) ?n \<le> 2 powi 118"
    using r(2) b(4) n(2) by simp
  then have "\<bar>x + refill ?e (tb_per tb) ?n\<bar> \<le> 2 powi 200"
    using b(3) r0 by (intro small_le) auto
  then have m: "f_min (f_of_int ?n) (f_add (b_tokens b) (Fin (refill ?e (tb_per tb) ?n))) = Fin y"
    using n(1) b(2) y by (simp add: f_ops_Fin avail_def del: f_add.simps power_int_numeral)
  have "y \<le> 2 powi 53" using y n(2) by (simp add: avail_def)
  then have "1 \<le> y \<Longrightarrow> \<bar>y - 1\<bar> \<le> 2 powi 200" by (intro small_le [of _ 53]) auto
  then have "1 \<le> y \<Longrightarrow> f_sub (Fin y) (Fin 1) = Fin (rnd (y - 1))" by (rule f_ops_Fin(2))
  then show ?thesis
    using b(1) m r(1) by (cases b) (auto simp: allow_def Let_def)
qed

text \<open>The first call for a key is admitted whatever the burst, also one of zero.\<close>

lemma allow_first: "gm_get (tb_buckets tb) key = None \<Longrightarrow> fst (allow now tb key)"
  by (simp add: allow_def)

lemma allow_new:
  assumes "limits_ok (tb_per tb) (tb_burst tb)" "gm_get (tb_buckets tb) key = None"
  shows "allow now tb key = (True, tb\<lparr>tb_buckets := gm_set key
           \<lparr>b_tokens = Fin (of_int (tb_burst tb - 1)), b_lastTime = now\<rparr> (tb_buckets tb)\<rparr>)"
proof -
  let ?n = "tb_burst tb"
  have n: "\<bar>?n\<bar> \<le> 2 ^ 53" "\<bar>?n - 1\<bar> \<le> 2 ^ 53" using assms(1) by (auto simp: limits_ok_def)
  have "f_sub (Fin (of_int ?n)) (Fin 1) = Fin (of_int (?n - 1))"
    using f_of_int_Fin [OF n(2)] by (simp add: f_of_int_def f_sub_def)
  with assms(2) f_of_int_Fin [OF n(1)] show ?thesis by (simp add: allow_def)
qed

section \<open>The invariant\<close>

text \<open>
  Every bucket holds between zero and \<open>burst\<close> tokens, a number, and was last touched in
  the past.
\<close>

definition bucket_ok :: "int \<Rightarrow> gotime \<Rightarrow> tbucket \<Rightarrow> bool" where
  "bucket_ok burst now b \<longleftrightarrow>
     (\<exists>x. b_tokens b = Fin x \<and> 0 \<le> x \<and> x \<le> of_int burst) \<and> b_lastTime b \<le> now"

definition limiter_ok :: "gotime \<Rightarrow> tokenBucket \<Rightarrow> bool" where
  "limiter_ok now tb \<longleftrightarrow> limits_ok (tb_per tb) (tb_burst tb) \<and>
     (\<forall>key b. gm_get (tb_buckets tb) key = Some b \<longrightarrow> bucket_ok (tb_burst tb) now b)"

lemma avail_bounds:
  assumes "limits_ok per burst" "0 \<le> x" "0 \<le> e"
  shows "0 \<le> avail x e per burst" "avail x e per burst \<le> of_int burst"
  using assms refill_nonneg [of per burst e] binary64.nonneg [of "x + refill e per burst"]
  by (auto simp: avail_def limits_ok_def)

lemma take_bounds:
  assumes "1 \<le> y" "y \<le> of_int n" "\<bar>n - 1\<bar> \<le> 2 ^ 53"
  shows "0 \<le> rnd (y - 1)" "rnd (y - 1) \<le> of_int (n - 1)"
  using assms binary64.le_int [of "y - 1" "n - 1"] binary64.nonneg [of "y - 1"] by auto

lemma allow_frame:
  "tb_per (snd (allow now tb key)) = tb_per tb" "tb_burst (snd (allow now tb key)) = tb_burst tb"
  "key' \<noteq> key \<Longrightarrow> gm_get (tb_buckets (snd (allow now tb key))) key' = gm_get (tb_buckets tb) key'"
  by (auto simp: allow_def Let_def go_maps split: option.split)

lemma allow_touches: "\<exists>b. gm_get (tb_buckets (snd (allow now tb key))) key = Some b \<and> b_lastTime b = now"
  by (auto simp: allow_def Let_def go_maps split: option.split)

text \<open>What a call leaves in the bucket of its key: one token less if it was admitted.\<close>

lemma allow_leaves:
  assumes inv: "limiter_ok t tb" and now: "t \<le> now"
  obtains x where
    "gm_get (tb_buckets (snd (allow now tb key))) key = Some \<lparr>b_tokens = Fin x, b_lastTime = now\<rparr>"
    "0 \<le> x" "x \<le> of_int (tb_burst tb - (if fst (allow now tb key) then 1 else 0))"
proof (cases "gm_get (tb_buckets tb) key")
  case None
  with assms allow_new [of tb key now] that [of "of_int (tb_burst tb - 1)"] show ?thesis
    by (auto simp: limiter_ok_def limits_ok_def go_maps)
next
  case (Some b0)
  then obtain x where x: "b_tokens b0 = Fin x" "0 \<le> x" "x \<le> of_int (tb_burst tb)" "b_lastTime b0 \<le> now"
    using assms by (force simp: limiter_ok_def bucket_ok_def)
  let ?y = "avail x (time_Sub now (b_lastTime b0)) (tb_per tb) (tb_burst tb)"
  have ok: "limits_ok (tb_per tb) (tb_burst tb)" using inv by (simp add: limiter_ok_def)
  have y: "0 \<le> ?y" "?y \<le> of_int (tb_burst tb)"
    using avail_bounds [OF ok x(2)] elapsed_bounds [OF x(4)] by auto
  have "\<bar>tb_burst tb - 1\<bar> \<le> 2 ^ 53" using ok by (auto simp: limits_ok_def)
  note take_bounds [OF _ y(2) this]
  with y allow_known [OF ok Some x refl] that [of "if 1 \<le> ?y then rnd (?y - 1) else ?y"] show ?thesis
    by (auto simp: go_maps)
qed

lemma limiter_ok_allow [mcpx_inv]:
  assumes "limiter_ok t tb" "t \<le> now"
  shows "limiter_ok now (snd (allow now tb key))"
proof -
  have "bucket_ok (tb_burst tb) now b" if "gm_get (tb_buckets (snd (allow now tb key))) k = Some b" for k b
  proof (cases "k = key")
    case True
    obtain x where "gm_get (tb_buckets (snd (allow now tb key))) key = Some \<lparr>b_tokens = Fin x, b_lastTime = now\<rparr>"
      "0 \<le> x" "x \<le> of_int (tb_burst tb - (if fst (allow now tb key) then 1 else 0))"
      by (rule allow_leaves [OF assms])
    with that True show ?thesis by (auto simp: bucket_ok_def split: if_splits)
  next
    case False
    with that assms show ?thesis by (force simp: allow_frame limiter_ok_def bucket_ok_def)
  qed
  with assms show ?thesis by (simp add: limiter_ok_def allow_frame)
qed

lemma limiter_ok_new: "limits_ok per burst \<Longrightarrow> limiter_ok t (newTokenBucket per burst)"
  by (simp add: limiter_ok_def newTokenBucket_def)

lemma allows_frame:
  "tb_per (snd (allows calls tb)) = tb_per tb" "tb_burst (snd (allows calls tb)) = tb_burst tb"
  by (induction calls arbitrary: tb) (auto simp: Let_def case_prod_beta allow_frame)

lemma limiter_ok_allows:
  "limiter_ok t tb \<Longrightarrow> sorted (map fst calls) \<Longrightarrow> (\<And>u k. (u, k) \<in> set calls \<Longrightarrow> t \<le> u \<and> u \<le> now) \<Longrightarrow> t \<le> now \<Longrightarrow>
   limiter_ok now (snd (allows calls tb))"
proof (induction calls arbitrary: t tb)
  case Nil
  then show ?case by (force simp: limiter_ok_def bucket_ok_def)
next
  case (Cons call calls)
  obtain u k where c: "call = (u, k)" by fastforce
  have "limiter_ok now (snd (allows calls (snd (allow u tb k))))"
  proof (rule Cons.IH [of u])
    show "limiter_ok u (snd (allow u tb k))" using Cons.prems c by (intro limiter_ok_allow) auto
  qed (use Cons.prems c in \<open>force+\<close>)
  then show ?case by (simp add: c Let_def case_prod_beta)
qed

text \<open>The time of the last call of a key is what its bucket remembers.\<close>

lemma allows_lastTime:
  "gm_get (tb_buckets (snd (allows calls tb))) key = Some b \<Longrightarrow>
   (b_lastTime b, key) \<in> set calls \<or> gm_get (tb_buckets tb) key = Some b"
proof (induction calls arbitrary: tb)
  case (Cons call calls)
  obtain u k where c: "call = (u, k)" by fastforce
  from Cons.prems have "gm_get (tb_buckets (snd (allows calls (snd (allow u tb k))))) key = Some b"
    by (simp add: c Let_def case_prod_beta)
  from Cons.IH [OF this] allow_touches [of u tb key] allow_frame(3) [of key k u tb] show ?case
    by (cases "k = key") (auto simp: c)
qed simp

section \<open>Bursts\<close>

text \<open>Calls at one instant: no time passes, so nothing is earned.\<close>

lemma avail_now:
  assumes "limits_ok per burst"
  shows "avail x 0 per burst = min (of_int burst) (rnd x)"
  by (simp add: avail_def refill_def)

lemma time_Sub_same [simp]: "time_Sub t t = 0"
  by (simp add: time_Sub_def)

lemma allows_Cons:
  "fst (allows ((t, k) # calls) tb) = fst (allow t tb k) # fst (allows calls (snd (allow t tb k)))"
  "snd (allows ((t, k) # calls) tb) = snd (allows calls (snd (allow t tb k)))"
  by (simp_all add: Let_def case_prod_beta)

declare allows.simps(2) [simp del]

lemma burst_exact:
  assumes "limits_ok (tb_per tb) (tb_burst tb)"
    and "gm_get (tb_buckets tb) key = Some \<lparr>b_tokens = Fin (of_int m), b_lastTime = t\<rparr>"
    and "0 \<le> m" "m \<le> tb_burst tb"
  shows "fst (allows (replicate n (t, key)) tb) = replicate (min n (nat m)) True @ replicate (n - nat m) False"
  using assms
proof (induction n arbitrary: m tb)
  case (Suc n)
  let ?tb = "snd (allow t tb key)"
  have "rnd (of_int m) = of_int m" "rnd (of_int m - 1) = of_int (m - 1)" if "1 \<le> m"
    using Suc.prems that rnd_of_int [of m] rnd_of_int [of "m - 1"] by (auto simp: limits_ok_def)
  moreover have "avail (of_int m) 0 (tb_per tb) (tb_burst tb) = of_int m"
    using Suc.prems rnd_of_int [of m] by (simp add: avail_now limits_ok_def)
  ultimately have a: "allow t tb key = (1 \<le> m, tb\<lparr>tb_buckets := gm_set key
      \<lparr>b_tokens = Fin (of_int (if 1 \<le> m then m - 1 else m)), b_lastTime = t\<rparr> (tb_buckets tb)\<rparr>)"
    using allow_known [OF Suc.prems(1,2), of "of_int m" t] Suc.prems(3,4) by (auto split: if_splits)
  let ?m = "if 1 \<le> m then m - 1 else m"
  have "fst (allows (replicate n (t, key)) ?tb) = replicate (min n (nat ?m)) True @ replicate (n - nat ?m) False"
    using Suc.prems a by (intro Suc.IH) (auto simp: go_maps)
  moreover have "nat m = (if 1 \<le> m then Suc (nat (m - 1)) else 0)" using Suc.prems(3) by auto
  ultimately show ?case by (auto simp: allows_Cons a)
qed simp

lemma burst_bound:
  assumes "limits_ok (tb_per tb) (tb_burst tb)"
    and "gm_get (tb_buckets tb) key = Some \<lparr>b_tokens = Fin x, b_lastTime = t\<rparr>"
    and "0 \<le> x" "x \<le> of_int m" "m \<le> tb_burst tb"
  shows "int (count_list (fst (allows (replicate n (t, key)) tb)) True) \<le> m"
  using assms
proof (induction n arbitrary: m x tb)
  case 0
  then have "0 \<le> m" by (metis of_int_0_le_iff order_trans)
  then show ?case by simp
next
  case (Suc n)
  let ?tb = "snd (allow t tb key)" and ?y = "avail x 0 (tb_per tb) (tb_burst tb)"
  have m: "0 \<le> m" using Suc.prems by (metis of_int_0_le_iff order_trans)
  have "x \<le> of_int (tb_burst tb)" using Suc.prems(4,5) by (meson of_int_le_iff order_trans)
  then have a: "allow t tb key = (1 \<le> ?y, tb\<lparr>tb_buckets := gm_set key
      \<lparr>b_tokens = Fin (if 1 \<le> ?y then rnd (?y - 1) else ?y), b_lastTime = t\<rparr> (tb_buckets tb)\<rparr>)"
    using allow_known [OF Suc.prems(1,2), of x t ?y] Suc.prems(3) by simp
  have y: "0 \<le> ?y" "?y \<le> of_int m"
    using Suc.prems m binary64.le_int [of x m] binary64.nonneg [of x]
    by (auto simp: avail_now limits_ok_def min_le_iff_disj)
  show ?case
  proof (cases "1 \<le> ?y")
    case True
    with y(2) have "1 \<le> (of_int m :: rat)" by linarith
    then have m1: "1 \<le> m" by simp
    then have "\<bar>m - 1\<bar> \<le> 2 ^ 53" using Suc.prems by (auto simp: limits_ok_def)
    note tk = take_bounds [OF True y(2) this]
    have "int (count_list (fst (allows (replicate n (t, key)) ?tb)) True) \<le> m - 1"
      using Suc.prems a True tk by (intro Suc.IH [of _ "rnd (?y - 1)"]) (auto simp: go_maps)
    then show ?thesis using a True by (simp add: allows_Cons)
  next
    case False
    have "int (count_list (fst (allows (replicate n (t, key)) ?tb)) True) \<le> m"
      using Suc.prems a False y by (intro Suc.IH [of _ ?y]) (auto simp: go_maps)
    then show ?thesis using a False by (simp add: allows_Cons)
  qed
qed

text \<open>A key that is new, or was idle for \<open>per\<close>, has a full bucket.\<close>

lemma refill_full:
  assumes ok: "limits_ok per burst" and "per \<le> e"
  shows "of_int burst \<le> refill e per burst"
proof -
  have "1 \<le> secs e / secs per" using secs_mono [OF assms(2)] secs_pos [OF ok] by simp
  then have "1 \<le> rnd (secs e / secs per)" by (rule binary64.ge_one)
  then have "of_int burst \<le> rnd (secs e / secs per) * of_int burst"
    using ok mult_right_mono [of 1 "rnd (secs e / secs per)" "of_int burst"] by (simp add: limits_ok_def)
  then show ?thesis
    unfolding refill_def using ok by (intro binary64.ge_int) (auto simp: limits_ok_def)
qed

lemma avail_full:
  assumes ok: "limits_ok per burst" and "per \<le> e" "0 \<le> x"
  shows "avail x e per burst = of_int burst"
proof -
  have "of_int burst \<le> rnd (x + refill e per burst)"
    using refill_full [OF ok assms(2)] assms(3) ok by (intro binary64.ge_int) (auto simp: limits_ok_def)
  then show ?thesis by (simp add: avail_def)
qed

definition idle :: "tokenBucket \<Rightarrow> string \<Rightarrow> gotime \<Rightarrow> bool" where
  "idle tb key t \<longleftrightarrow> (case gm_get (tb_buckets tb) key of None \<Rightarrow> True | Some b \<Rightarrow> b_lastTime b + tb_per tb \<le> t)"

lemma idle_first:
  assumes "limiter_ok now tb" "now \<le> t" "idle tb key t"
  shows "allow t tb key = (True, tb\<lparr>tb_buckets := gm_set key
           \<lparr>b_tokens = Fin (of_int (tb_burst tb - 1)), b_lastTime = t\<rparr> (tb_buckets tb)\<rparr>)"
proof (cases "gm_get (tb_buckets tb) key")
  case None
  with allow_new assms show ?thesis by (simp add: limiter_ok_def)
next
  case (Some b)
  then obtain x where x: "b_tokens b = Fin x" "0 \<le> x" "x \<le> of_int (tb_burst tb)" "b_lastTime b \<le> t"
    using assms by (force simp: limiter_ok_def bucket_ok_def)
  have ok: "limits_ok (tb_per tb) (tb_burst tb)" using assms by (simp add: limiter_ok_def)
  have "tb_per tb \<le> time_Sub t (b_lastTime b)"
    using assms(3) Some ok by (auto simp: idle_def time_Sub_def limits_ok_def)
  from avail_full [OF ok this x(2)] allow_known [OF ok Some x refl] ok rnd_of_int [of "tb_burst tb - 1"]
  show ?thesis by (simp add: limits_ok_def)
qed

lemma burst_idle:
  assumes "limiter_ok now tb" "now \<le> t" "idle tb key t"
  shows "fst (allows (replicate n (t, key)) tb) =
           replicate (min n (nat (tb_burst tb))) True @ replicate (n - nat (tb_burst tb)) False"
proof (cases n)
  case (Suc k)
  let ?m = "tb_burst tb - 1" and ?tb = "snd (allow t tb key)"
  have ok: "limits_ok (tb_per tb) (tb_burst tb)" using assms by (simp add: limiter_ok_def)
  then have "nat (tb_burst tb) = Suc (nat ?m)" by (auto simp: limits_ok_def)
  moreover have "fst (allows (replicate k (t, key)) ?tb) = replicate (min k (nat ?m)) True @ replicate (k - nat ?m) False"
    using ok idle_first [OF assms] by (intro burst_exact) (auto simp: go_maps limits_ok_def)
  ultimately show ?thesis using idle_first [OF assms] by (simp add: Suc allows_Cons)
qed simp

lemma count_replicate [simp]: "count_list (replicate n x) y = (if x = y then n else 0)"
  by (induction n) auto

lemma burst_at_most:
  assumes "limiter_ok now tb" "now \<le> t"
  shows "int (count_list (fst (allows (replicate n (t, key)) tb)) True) \<le> tb_burst tb"
proof (cases n)
  case (Suc k)
  let ?tb = "snd (allow t tb key)" and ?m = "tb_burst tb - (if fst (allow t tb key) then 1 else 0)"
  obtain x where "gm_get (tb_buckets ?tb) key = Some \<lparr>b_tokens = Fin x, b_lastTime = t\<rparr>" "0 \<le> x" "x \<le> of_int ?m"
    by (rule allow_leaves [OF assms])
  then have "int (count_list (fst (allows (replicate k (t, key)) ?tb)) True) \<le> ?m"
    using assms by (intro burst_bound) (auto simp: allow_frame limiter_ok_def)
  then show ?thesis by (auto simp: Suc allows_Cons split: if_splits)
qed (use assms in \<open>auto simp: limiter_ok_def limits_ok_def\<close>)

section \<open>The rate\<close>

text \<open>
  The ideal amount earned in a time \<open>e\<close> is \<open>burst * e / per\<close>. Rounding adds at most
  \<open>2\<^sup>-\<^sup>4\<^sup>9\<close> of the burst per call.
\<close>

lemma secs_split:
  assumes "0 \<le> d"
  defines "a \<equiv> of_int (d div 1000000000) :: rat" and "b \<equiv> of_int (d mod 1000000000) / (1000000000 :: rat)"
  shows "of_int d / 1000000000 = a + b" "0 \<le> a" "0 \<le> b" "secs d = rnd (a + rnd b)" "normal b" "normal (a + rnd b)"
proof -
  let ?m = "d mod 1000000000"
  have "(of_int d :: rat) = of_int (d div 1000000000) * 1000000000 + of_int ?m"
    by (metis div_mult_mod_eq of_int_add of_int_mult of_int_numeral)
  then show ab: "of_int d / 1000000000 = a + b" "0 \<le> a" "0 \<le> b" "secs d = rnd (a + rnd b)"
    using assms(1) by (simp_all add: a_def b_def secs_def add_divide_distrib pos_imp_zdiv_nonneg_iff)
  have b: "2 powi - 30 \<le> b" if "b \<noteq> 0"
  proof -
    have "1 \<le> ?m" using that pos_mod_sign [of 1000000000 d] by (auto simp: b_def)
    then have "(1 :: rat) \<le> of_int ?m" by simp
    then show ?thesis by (simp add: b_def)
  qed
  then show "normal b" using normal_powi [of "- 30" b] by (cases "b = 0") (auto simp: normal_def)
  show "normal (a + rnd b)"
  proof (cases "b = 0")
    case True
    have "a = 0 \<or> 1 \<le> a"
      using assms(1) by (auto simp: a_def pos_imp_zdiv_nonneg_iff int_one_le_iff_zero_less order_less_le)
    with True show ?thesis using normal_powi [of 0 a] by (auto simp: normal_def)
  next
    case False
    then have "2 powi - 30 \<le> rnd b" using b by (intro binary64.ge_powi) auto
    with ab(2) show ?thesis by (intro normal_powi [of "- 30"]) auto
  qed
qed

lemma secs_rel:
  assumes "0 \<le> d"
  shows "secs d \<le> of_int d / 1000000000 * (1 + roundoff)\<^sup>2" "of_int d / 1000000000 * (1 - roundoff)\<^sup>2 \<le> secs d"
proof -
  define a b where "a = (of_int (d div 1000000000) :: rat)" and "b = of_int (d mod 1000000000) / (1000000000 :: rat)"
  note s = secs_split [OF assms, folded a_def b_def]
  note u = roundoff_pos
  have "a + rnd b \<le> (a + b) * (1 + roundoff)"
    using rnd_rel(1) [OF s(5)] mult_nonneg_nonneg [OF s(2), of roundoff] u by (simp add: algebra_simps)
  then have "(a + rnd b) * (1 + roundoff) \<le> (a + b) * (1 + roundoff)\<^sup>2"
    using u by (simp add: power2_eq_square flip: mult.assoc)
  with rnd_rel(1) [OF s(6)] show "secs d \<le> of_int d / 1000000000 * (1 + roundoff)\<^sup>2" by (simp add: s)
  have "(a + b) * (1 - roundoff) \<le> a + rnd b"
    using rnd_rel(2) [OF s(5)] mult_nonneg_nonneg [OF s(2), of roundoff] u by (simp add: algebra_simps)
  then have "(a + b) * (1 - roundoff)\<^sup>2 \<le> (a + rnd b) * (1 - roundoff)"
    using u by (simp add: power2_eq_square flip: mult.assoc)
  with rnd_rel(2) [OF s(6)] show "of_int d / 1000000000 * (1 - roundoff)\<^sup>2 \<le> secs d" by (simp add: s)
qed

lemma refill_rate:
  assumes ok: "limits_ok per burst" and e: "0 \<le> e" "e < 2 ^ 63"
  shows "refill e per burst \<le> of_int burst * (of_int e / of_int per) * (1 + 8 * roundoff)"
proof -
  let ?q = "secs e / secs per" and ?u = roundoff and ?r = "of_int e / (of_int per :: rat)"
  note u = roundoff_pos
  have per: "0 < per" "per < 2 ^ 63" "1 \<le> burst" using ok by (auto simp: limits_ok_def)
  then have per0: "(0 :: rat) < of_int per" "(1 :: rat) \<le> of_int burst" by simp_all
  have q0: "?q = 0 \<or> 2 powi - 64 \<le> ?q"
  proof (cases "e = 0")
    case False
    then have "2 powi - 30 / 2 powi 34 \<le> ?q"
      using e per secs_lower [of e] secs_upper [of per] secs_pos [OF ok] by (intro frac_le) auto
    then show ?thesis by (simp flip: power_int_diff)
  qed simp
  have "?q \<le> (of_int e / 1000000000 * (1 + ?u)\<^sup>2) / (of_int per / 1000000000 * (1 - ?u)\<^sup>2)"
    using secs_rel(1) [OF e(1)] secs_rel(2) [of per] per per0 e u secs_nonneg [OF e(1)]
    by (intro frac_le) auto
  then have q: "?q \<le> ?r * ((1 + ?u)\<^sup>2 / (1 - ?u)\<^sup>2)" by simp
  have nq: "normal ?q" using q0 normal_powi [of "- 64" ?q] by (auto simp: normal_def)
  have "rnd ?q = 0 \<or> 2 powi - 64 \<le> rnd ?q" using q0 binary64.ge_powi [of "- 64" ?q] by auto
  then have "rnd ?q * of_int burst = 0 \<or> 2 powi - 64 \<le> rnd ?q * of_int burst"
    using mult_mono [of "2 powi - 64" "rnd ?q" 1 "of_int burst"] per0(2) by fastforce
  then have "normal (rnd ?q * of_int burst)" using normal_powi [of "- 64"] by (auto simp: normal_def)
  then have "refill e per burst \<le> rnd ?q * of_int burst * (1 + ?u)"
    unfolding refill_def by (rule rnd_rel(1))
  also have "\<dots> \<le> ?q * (1 + ?u) * of_int burst * (1 + ?u)"
    using rnd_rel(1) [OF nq] per0(2) u by (intro mult_right_mono) auto
  also have "\<dots> \<le> ?r * ((1 + ?u)\<^sup>2 / (1 - ?u)\<^sup>2) * (1 + ?u) * of_int burst * (1 + ?u)"
    using q per0(2) u by (intro mult_right_mono) auto
  also have "\<dots> = of_int burst * ?r * ((1 + ?u)\<^sup>2 / (1 - ?u)\<^sup>2 * (1 + ?u)\<^sup>2)" by (simp add: power2_eq_square)
  also have "\<dots> \<le> of_int burst * ?r * (1 + 8 * ?u)"
    using per0 e by (intro mult_left_mono) (simp_all add: roundoff_def power2_eq_square)
  finally show ?thesis .
qed

text \<open>The tokens before a decision, and those left after a call was admitted.\<close>

lemma avail_rate:
  assumes ok: "limits_ok per burst" and e: "0 \<le> e" "e < 2 ^ 63" and x: "0 \<le> x" "x \<le> of_int burst"
  shows "avail x e per burst \<le> x + of_int burst * (of_int e / of_int per) + 12 * roundoff * of_int burst"
proof (cases "per \<le> e")
  case True
  have "(0 :: rat) < of_int per" "(1 :: rat) \<le> of_int burst" using ok by (simp_all add: limits_ok_def)
  moreover from True have "of_int per \<le> (of_int e :: rat)" by simp
  ultimately have "1 \<le> of_int e / (of_int per :: rat)" by simp
  then have "of_int burst \<le> of_int burst * (of_int e / (of_int per :: rat))"
    using \<open>1 \<le> of_int burst\<close> mult_left_mono [of 1 "of_int e / (of_int per :: rat)" "of_int burst"] by simp
  moreover have "0 \<le> 12 * roundoff * of_int burst" using \<open>1 \<le> of_int burst\<close> roundoff_pos by simp
  ultimately show ?thesis using x(1) by (simp add: avail_def min_le_iff_disj)
next
  case False
  let ?u = roundoff and ?n = "of_int burst :: rat" and ?r = "of_int e / (of_int per :: rat)"
  have n: "1 \<le> ?n" and per: "(0 :: rat) < of_int per" using ok by (simp_all add: limits_ok_def)
  have "?r \<le> 1" "0 \<le> ?r" using False per e by auto
  then have nr: "?n * ?r \<le> ?n" "0 \<le> ?n * ?r"
    using n mult_left_le [of ?r ?n] mult_nonneg_nonneg [of ?n ?r] by linarith+
  have "refill e per burst \<le> ?n * ?r + 8 * ?u * (?n * ?r)"
    using refill_rate [OF ok e] by (simp add: algebra_simps)
  also have "\<dots> \<le> ?n * ?r + 8 * ?u * ?n"
    using nr roundoff_pos by (intro add_left_mono mult_left_mono) auto
  finally have rf: "refill e per burst \<le> ?n * ?r + 8 * ?u * ?n" .
  let ?z = "x + refill e per burst"
  have "8 * ?u * ?n \<le> ?n" using n by (simp add: roundoff_def)
  then have z: "0 \<le> ?z" "?z \<le> 3 * ?n" using rf x nr refill_nonneg [OF ok e(1)] by auto
  have "rnd ?z \<le> ?z * (1 + ?u) + ?u" by (rule rnd_upper [OF z(1)])
  also have "\<dots> = ?z + ?z * ?u + ?u" by (simp add: algebra_simps)
  also have "\<dots> \<le> ?z + 3 * ?n * ?u + ?n * ?u"
    using z(2) n roundoff_pos by (intro add_mono mult_right_mono) auto
  finally have "rnd ?z \<le> x + ?n * ?r + 12 * ?u * ?n" using rf by (simp add: algebra_simps)
  then show ?thesis by (simp add: avail_def min_le_iff_disj)
qed

lemma take_rate:
  assumes "1 \<le> y" "y \<le> of_int burst"
  shows "rnd (y - 1) \<le> y - 1 + roundoff * of_int burst"
proof -
  have "(y - 1) * roundoff \<le> (of_int burst - 1) * roundoff"
    using assms roundoff_pos by (intro mult_right_mono) auto
  with rnd_upper [of "y - 1"] assms(1) show ?thesis by (simp add: algebra_simps)
qed

lemma rate_run:
  assumes "limits_ok (tb_per tb) (tb_burst tb)"
    and "gm_get (tb_buckets tb) key = Some \<lparr>b_tokens = Fin x, b_lastTime = t\<rparr>"
    and "0 \<le> x" "x \<le> of_int (tb_burst tb)"
    and "sorted (t # ts)" "\<And>u. u \<in> set ts \<Longrightarrow> u \<le> till" "t \<le> till"
  shows "of_nat (count_list (fst (allows (map (\<lambda>u. (u, key)) ts) tb)) True) \<le>
         x + of_int (tb_burst tb) * (of_int (till - t) / of_int (tb_per tb) + of_nat (length ts) / 2 ^ 49)"
  using assms
proof (induction ts arbitrary: x t tb)
  case Nil
  then have "(0 :: rat) \<le> of_int (tb_burst tb) * (of_int (till - t) / of_int (tb_per tb))"
    by (intro mult_nonneg_nonneg divide_nonneg_nonneg) (auto simp: limits_ok_def)
  with Nil show ?case by simp
next
  case (Cons now ts)
  let ?n = "tb_burst tb" and ?e = "time_Sub now t" and ?tb = "snd (allow now tb key)"
  let ?y = "avail x ?e (tb_per tb) ?n" and ?u = roundoff
  let ?x = "if 1 \<le> ?y then rnd (?y - 1) else ?y"
  have now: "t \<le> now" "now \<le> till" using Cons.prems by auto
  then have e: "0 \<le> ?e" "?e < 2 ^ 63" "?e \<le> now - t" by (auto simp: time_Sub_def)
  have a: "allow now tb key = (1 \<le> ?y, tb\<lparr>tb_buckets := gm_set key \<lparr>b_tokens = Fin ?x, b_lastTime = now\<rparr> (tb_buckets tb)\<rparr>)"
    using allow_known [OF Cons.prems(1,2), of x now ?y] Cons.prems(3,4) now by simp
  have n: "(1 :: rat) \<le> of_int ?n" "(0 :: rat) < of_int (tb_per tb)" "\<bar>?n - 1\<bar> \<le> 2 ^ 53"
    using Cons.prems(1) by (auto simp: limits_ok_def)
  note y = avail_bounds [OF Cons.prems(1) Cons.prems(3) e(1)]
  have "of_int ?n * (of_int ?e / of_int (tb_per tb)) \<le> of_int ?n * (of_int (now - t) / (of_int (tb_per tb) :: rat))"
    using n e(3) by (intro mult_left_mono divide_right_mono) (auto simp del: of_int_diff)
  then have yr: "?y \<le> x + of_int ?n * (of_int (now - t) / of_int (tb_per tb)) + 12 * ?u * of_int ?n"
    using avail_rate [OF Cons.prems(1) e(1,2) Cons.prems(3,4)] by linarith
  have x: "0 \<le> ?x" "?x \<le> of_int ?n"
    using y take_bounds [OF _ y(2) n(3)] by (auto intro: order_trans)
  let ?c = "count_list (fst (allows (map (\<lambda>u. (u, key)) ts) ?tb)) True"
  have "of_nat ?c \<le>
        ?x + of_int (tb_burst ?tb) * (of_int (till - now) / of_int (tb_per ?tb) + of_nat (length ts) / 2 ^ 49)"
    using Cons.prems a x now by (intro Cons.IH) (auto simp: go_maps)
  then have "of_nat ?c \<le> ?x + of_int ?n * (of_int (till - now) / of_int (tb_per tb)) + of_int ?n * (of_nat (length ts) / 2 ^ 49)"
    by (simp only: allow_frame distrib_left add.assoc)
  moreover have "(if 1 \<le> ?y then 1 else 0) + ?x \<le> ?y + ?u * of_int ?n"
    using take_rate [OF _ y(2)] n roundoff_pos by auto
  moreover have "13 * ?u * of_int ?n \<le> of_int ?n / 2 ^ 49" using n by (simp add: roundoff_def)
  moreover have "of_int ?n * (of_int (till - t) / (of_int (tb_per tb) :: rat)) =
      of_int ?n * (of_int (now - t) / of_int (tb_per tb)) + of_int ?n * (of_int (till - now) / of_int (tb_per tb))"
    by (simp add: diff_divide_distrib algebra_simps)
  ultimately have "(if 1 \<le> ?y then 1 else 0) + of_nat ?c \<le>
      x + of_int ?n * (of_int (till - t) / of_int (tb_per tb)) + of_int ?n / 2 ^ 49 + of_int ?n * (of_nat (length ts) / 2 ^ 49)"
    using yr by linarith
  moreover have "(of_nat (count_list (fst (allows (map (\<lambda>u. (u, key)) (now # ts)) tb)) True) :: rat) =
      (if 1 \<le> ?y then 1 else 0) + of_nat ?c"
    by (simp add: allows_Cons a)
  ultimately show ?case by (simp add: algebra_simps add_divide_distrib)
qed

lemma rate_bound:
  assumes inv: "limiter_ok t tb" and ts: "sorted ts" "\<And>u. u \<in> set ts \<Longrightarrow> t \<le> u \<and> u \<le> till" "t \<le> till"
  shows "of_nat (count_list (fst (allows (map (\<lambda>u. (u, key)) ts) tb)) True) \<le>
         of_int (tb_burst tb) * (1 + of_int (till - t) / of_int (tb_per tb) + of_nat (length ts) / (2 :: rat) ^ 49)"
proof (cases ts)
  case Nil
  have "(0 :: rat) \<le> of_int (tb_burst tb) * (1 + of_int (till - t) / of_int (tb_per tb))"
    using inv ts(3) by (intro mult_nonneg_nonneg add_nonneg_nonneg divide_nonneg_nonneg) (auto simp: limiter_ok_def limits_ok_def)
  with Nil show ?thesis by simp
next
  case (Cons now us)
  let ?tb = "snd (allow now tb key)" and ?n = "tb_burst tb"
  have ok: "limits_ok (tb_per tb) ?n" using inv by (simp add: limiter_ok_def)
  have now: "t \<le> now" "now \<le> till" using ts Cons by auto
  obtain x where x: "gm_get (tb_buckets ?tb) key = Some \<lparr>b_tokens = Fin x, b_lastTime = now\<rparr>" "0 \<le> x"
    "x \<le> of_int (?n - (if fst (allow now tb key) then 1 else 0))"
    by (rule allow_leaves [OF inv now(1)])
  have x1: "x + (if fst (allow now tb key) then 1 else 0) \<le> of_int ?n" using x(3) by (auto split: if_splits)
  have n: "(1 :: rat) \<le> of_int ?n" "(0 :: rat) < of_int (tb_per tb)" using ok by (auto simp: limits_ok_def)
  have "of_nat (count_list (fst (allows (map (\<lambda>u. (u, key)) us) ?tb)) True) \<le>
      x + of_int (tb_burst ?tb) * (of_int (till - now) / of_int (tb_per ?tb) + of_nat (length us) / 2 ^ 49)"
    using ok x x1 ts Cons by (intro rate_run) (auto simp: allow_frame split: if_splits)
  also have "\<dots> \<le> x + of_int ?n * (of_int (till - t) / of_int (tb_per tb) + of_nat (length ts) / 2 ^ 49)"
    using now n Cons unfolding allow_frame
    by (intro add_left_mono mult_left_mono add_mono divide_right_mono) (auto simp: less_imp_le)
  finally show ?thesis
    using x1 by (auto simp: Cons allows_Cons distrib_left simp del: of_int_diff split: if_splits)
qed

section \<open>The limiter from its creation on\<close>

text \<open>A history of calls with a clock that does not run backwards, up to a time.\<close>

definition history :: "(gotime \<times> string) list \<Rightarrow> gotime \<Rightarrow> bool" where
  "history calls now \<longleftrightarrow> sorted (map fst calls @ [now])"

lemma history_ok:
  assumes "limits_ok per burst" "history hist now"
  shows "limiter_ok now (snd (allows hist (newTokenBucket per burst)))"
proof -
  let ?t = "if hist = [] then now else fst (hd hist)"
  have "limiter_ok ?t (newTokenBucket per burst)" using assms(1) by (rule limiter_ok_new)
  then show ?thesis
  proof (rule limiter_ok_allows)
    show "sorted (map fst hist)" "?t \<le> now"
      using assms(2) by (cases hist; simp add: history_def sorted_append)+
    show "?t \<le> u \<and> u \<le> now" if "(u, k) \<in> set hist" for u k
      using assms(2) that by (cases hist) (force simp: history_def sorted_append)+
  qed
qed

lemma history_idle:
  assumes "\<And>u. (u, key) \<in> set hist \<Longrightarrow> u + per \<le> t"
  shows "idle (snd (allows hist (newTokenBucket per burst))) key t"
  using assms allows_lastTime [of hist "newTokenBucket per burst" key]
  by (auto simp: idle_def allows_frame newTokenBucket_def split: option.split)

lemma burst_answers:
  assumes "limits_ok per burst" "history hist t"
  shows "let answers = fst (allows (replicate n (t, key)) (snd (allows hist (newTokenBucket per burst)))) in
      int (count_list answers True) \<le> burst \<and>
      ((\<forall>(u, k) \<in> set hist. k = key \<longrightarrow> u + per \<le> t) \<longrightarrow>
         answers = replicate (min n (nat burst)) True @ replicate (n - nat burst) False)"
  using burst_at_most [OF history_ok [OF assms], of t n key]
    burst_idle [OF history_ok [OF assms], of t key n] history_idle [of key hist per t burst]
  by (force simp: Let_def allows_frame newTokenBucket_def)

text \<open>
  A whole burst is earned in one \<open>per\<close>: when the key was not used during the last \<open>per\<close>,
  exactly the first \<open>burst\<close> of any number of calls at one instant are admitted. The comment on
  \<open>RateLimit\<close> promises one token per \<open>per\<close>.\<close>

theorem limiter_idle_refill:
  assumes "limits_ok per burst" "history hist t" "\<forall>(u, k) \<in> set hist. k = key \<longrightarrow> u + per \<le> t"
  shows "fst (allows (replicate n (t, key)) (snd (allows hist (newTokenBucket per burst)))) =
    replicate (min n (nat burst)) True @ replicate (n - nat burst) False"
  using burst_answers [OF assms(1,2), of n key] assms(3) by (simp add: Let_def)

text \<open>
  C14. For a burst of at least one and a positive period, whatever happened before: at most
  \<open>burst\<close> of any number of calls for one key at one instant are admitted; of the calls for a
  key that was never used, exactly the first \<open>burst\<close>; and the next call is admitted when the
  key was not used for one \<open>per\<close>. The floating-point arithmetic takes nothing from this.\<close>

theorem limiter_burst:
  assumes "limits_ok per burst" "history hist t"
  shows "let answers = fst (allows (replicate n (t, key)) (snd (allows hist (newTokenBucket per burst)))) in
      int (count_list answers True) \<le> burst \<and>
      (key \<notin> snd ` set hist \<longrightarrow> answers = replicate (min n (nat burst)) True @ replicate (n - nat burst) False) \<and>
      ((\<forall>(u, k) \<in> set hist. k = key \<longrightarrow> u + per \<le> t) \<and> 0 < n \<longrightarrow> hd answers)"
proof -
  have "(\<forall>(u, k) \<in> set hist. k = key \<longrightarrow> u + per \<le> t)" if "key \<notin> snd ` set hist"
    using that by force
  moreover have "0 < nat burst" using assms(1) by (simp add: limits_ok_def)
  then have "hd (replicate (min n (nat burst)) True @ replicate (n - nat burst) False)" if "0 < n"
    using that by (cases "min n (nat burst)") auto
  ultimately show ?thesis
    using burst_answers [OF assms, of n key] by (auto simp: Let_def)
qed

text \<open>
  C13. The long-run rate, for a burst of at least one and a positive period: of calls for one key between \<open>t\<close> and \<open>till\<close>, at most
  \<open>burst + burst * (till - t) / per\<close> are admitted, up to a rounding error of at most
  \<open>2\<^sup>-\<^sup>4\<^sup>9\<close> of the burst for each call.\<close>

theorem limiter_rate:
  assumes "limits_ok per burst" "history hist t" "sorted ([t] @ ts @ [till])"
  shows "of_nat (count_list (fst (allows (map (\<lambda>u. (u, key)) ts) (snd (allows hist (newTokenBucket per burst))))) True) \<le>
         of_int burst * (1 + of_int (till - t) / of_int per + of_nat (length ts) / (2 :: rat) ^ 49)"
proof -
  have "sorted ts" "t \<le> till" "\<And>u. u \<in> set ts \<Longrightarrow> t \<le> u \<and> u \<le> till"
    using assms(3) by (auto simp: sorted_append)
  from rate_bound [OF history_ok [OF assms(1,2)] this(1,3,2), of key] show ?thesis
    by (simp add: allows_frame newTokenBucket_def)
qed

section \<open>Keys are independent\<close>

definition same_bucket :: "string \<Rightarrow> tokenBucket \<Rightarrow> tokenBucket \<Rightarrow> bool" where
  "same_bucket key tb tb' \<longleftrightarrow> tb_per tb = tb_per tb' \<and> tb_burst tb = tb_burst tb' \<and>
     gm_get (tb_buckets tb) key = gm_get (tb_buckets tb') key"

lemma same_bucket_allow:
  "same_bucket key tb tb' \<Longrightarrow>
   fst (allow t tb key) = fst (allow t tb' key) \<and> same_bucket key (snd (allow t tb key)) (snd (allow t tb' key))"
  by (auto simp: same_bucket_def allow_def Let_def go_maps split: option.split)

lemma same_bucket_other:
  "same_bucket key tb tb' \<Longrightarrow> k \<noteq> key \<Longrightarrow> same_bucket key (snd (allow t tb k)) tb'"
  by (auto simp: same_bucket_def allow_frame)

lemma allows_length: "length (fst (allows calls tb)) = length calls"
  by (induction calls arbitrary: tb) (auto simp: allows_Cons)

lemma isolation:
  "same_bucket key tb tb' \<Longrightarrow>
   map fst (filter (\<lambda>(ok, t, k). k = key) (zip (fst (allows calls tb)) calls)) =
   fst (allows (filter (\<lambda>(t, k). k = key) calls) tb')"
proof (induction calls arbitrary: tb tb')
  case (Cons call calls)
  obtain t k where c: "call = (t, k)" by fastforce
  show ?case
  proof (cases "k = key")
    case True
    from Cons.IH [OF conjunct2 [OF same_bucket_allow [OF Cons.prems]], of t] same_bucket_allow [OF Cons.prems, of t]
    show ?thesis by (simp add: c True allows_Cons)
  next
    case False
    from Cons.IH [OF same_bucket_other [OF Cons.prems False], of t] False show ?thesis
      by (simp add: c allows_Cons)
  qed
qed simp

text \<open>
  C15. The answers for one key do not depend on the calls for other keys: they are the
  answers of a limiter that serves that key alone.\<close>

theorem limiter_isolation:
  "map fst (filter (\<lambda>(ok, t, k). k = key) (zip (fst (allows calls tb)) calls)) =
   fst (allows (filter (\<lambda>(t, k). k = key) calls) tb)"
  by (rule isolation) (simp add: same_bucket_def)

section \<open>A period of zero\<close>

definition unlimited :: "gotime \<Rightarrow> tokenBucket \<Rightarrow> bool" where
  "unlimited now tb \<longleftrightarrow> tb_per tb = 0 \<and> 1 \<le> tb_burst tb \<and> tb_burst tb \<le> 2 ^ 53 \<and>
     (\<forall>key b. gm_get (tb_buckets tb) key = Some b \<longrightarrow>
        b_lastTime b \<le> now \<and> (b_tokens b = NaN \<or> (\<exists>x. b_tokens b = Fin x)))"

lemma unlimited_allow:
  assumes "unlimited now tb" "now \<le> t"
  shows "fst (allow t tb key) \<and> unlimited t (snd (allow t tb key))"
proof -
  have n: "f_of_int (tb_burst tb) = Fin (of_int (tb_burst tb))"
    "f_sub (Fin (of_int (tb_burst tb))) (Fin 1) = Fin (of_int (tb_burst tb - 1))"
    using assms(1) f_of_int_Fin [of "tb_burst tb"] f_of_int_Fin [of "tb_burst tb - 1"]
    by (auto simp: unlimited_def f_of_int_def f_sub_def)
  show ?thesis
  proof (cases "gm_get (tb_buckets tb) key")
    case None
    with assms n show ?thesis by (force simp: allow_def unlimited_def go_maps)
  next
    case (Some b)
    then have b: "b_lastTime b \<le> t" "b_tokens b = NaN \<or> (\<exists>x. b_tokens b = Fin x)"
      using assms by (force simp: unlimited_def)+
    let ?r = "f_mul (f_div (Seconds (time_Sub t (b_lastTime b))) (Seconds 0)) (f_of_int (tb_burst tb))"
    have "?r = NaN \<or> ?r = PosInf"
      using Seconds_Fin [of "time_Sub t (b_lastTime b)"] elapsed_bounds [OF b(1)]
        secs_nonneg [of "time_Sub t (b_lastTime b)"] n(1) assms(1)
      by (auto simp: Seconds_0 f_inf_def unlimited_def)
    then have "f_min (f_of_int (tb_burst tb)) (f_add (b_tokens b) ?r) \<in> {NaN, Fin (of_int (tb_burst tb))}"
      using b(2) n(1) by (auto simp: f_min_def)
    with assms n Some show ?thesis
      by (fastforce simp: allow_def unlimited_def go_maps Let_def f_sub_def)
  qed
qed

text \<open>
  A period of zero never limits: the quotient of the elapsed time and the period is an
  infinity, or NaN for two calls at one instant, and NaN tokens are never below one.\<close>

theorem limiter_zero_period:
  assumes "1 \<le> burst" "burst \<le> 2 ^ 53" "sorted (map fst calls)"
  shows "fst (allows calls (newTokenBucket 0 burst)) = replicate (length calls) True"
proof -
  have "fst (allows calls tb) = replicate (length calls) True"
    if "unlimited now tb" "sorted (now # map fst calls)" for now tb
    using that
  proof (induction calls arbitrary: now tb)
    case (Cons call calls)
    then show ?case
      using unlimited_allow [OF Cons.prems(1), of "fst call" "snd call"]
        Cons.IH [of "fst call" "snd (allow (fst call) tb (snd call))"]
      by (cases call) (auto simp: allows_Cons)
  qed simp
  from this [of "if calls = [] then 0 else fst (hd calls)"] assms show ?thesis
    by (cases calls) (auto simp: unlimited_def newTokenBucket_def)
qed

section \<open>Concrete limiters\<close>

text \<open>Two calls per second: three calls at once, and three more one second later.\<close>

theorem limiter_idle_refill_witness:
  "fst (allows (replicate 3 (second, ''k'')) (snd (allows [(0, ''k''), (0, ''k''), (0, ''k'')] (newTokenBucket second 2)))) =
   [True, True, False]"
  using limiter_idle_refill [of second 2 "[(0, ''k''), (0, ''k''), (0, ''k'')]" second "''k''" 3]
  by (simp add: limits_ok_def history_def second_def eval_nat_numeral)

theorem limiter_burst_witness:
  "let tb = newTokenBucket second 2; hist = [(0, ''k''), (0, ''k''), (0, ''k'')] in
   fst (allows (replicate 3 (0, ''k'')) tb) = [True, True, False] \<and>
   hd (fst (allows (replicate 3 (second, ''k'')) (snd (allows hist tb))))"
  using limiter_burst [of second 2 "[]" 0 3 "''k''"]
    limiter_burst [of second 2 "[(0, ''k''), (0, ''k''), (0, ''k'')]" second 3 "''k''"]
  by (simp add: limits_ok_def history_def second_def Let_def eval_nat_numeral)

theorem limiter_rate_witness:
  "of_nat (count_list (fst (allows (map (\<lambda>u. (u, ''k'')) [0, 1, second]) (snd (allows [] (newTokenBucket second 2))))) True) \<le>
     (of_int 2 * (1 + of_int (second - 0) / of_int second + of_nat 3 / 2 ^ 49) :: rat)"
  using limiter_rate [of second 2 "[]" 0 "[0, 1, second]" second "''k''"]
  by (simp add: limits_ok_def history_def second_def)

theorem limiter_zero_period_witness:
  "fst (allows [(5, ''k''), (5, ''k''), (5, ''k''), (6, ''k'')] (newTokenBucket 0 1)) = [True, True, True, True]"
  using limiter_zero_period [of 1 "[(5, ''k''), (5, ''k''), (5, ''k''), (6, ''k'')]"] by (simp add: eval_nat_numeral)

end
