(* ===== verification/Policy.thy ===== *)
theory Policy
  imports CallLaws Limiter
begin

text \<open>
  The ready-made hooks of \<open>policy/policy.go\<close>. Three are BeforeCall hooks that let a call
  pass or abort it, one is an AfterCall hook. The closure of \<open>RateLimit\<close> owns a token
  bucket; like all state outside the multiplexer it is part of the world of the hooks, and
  the hook is given how to read and write it there, and the clock.
\<close>

section \<open>Definitions\<close>

definition RolesKey :: ctxkey where
  "RolesKey = PolicyKey ''mcpx-policy-roles''"

text \<open>The three results a policy hook returns: go on, or stop with an error.\<close>

definition DenyDestructive :: "'w BeforeCallHook" where
  "DenyDestructive c server tool info args w =
     (if ti_Destructive info
      then (Ret (None, None, Some (ErrText (''mcpx/policy: tool '' @ ti_Name info @ '' is marked destructive and is not allowed''))), w)
      else (Ret (None, None, None), w))"

definition rolesError :: "string list \<Rightarrow> err" where
  "rolesError roles =
     ErrText (''mcpx/policy: permission denied: required roles ['' @ str_join '' '' roles @ ''] not satisfied'')"

definition RequireRoles :: "string list \<Rightarrow> 'w BeforeCallHook" where
  "RequireRoles roles c server tool info args w =
     (case ctx_Value c RolesKey of
        Some (CtxStrings have_) \<Rightarrow>
          (if list_ex (\<lambda>required. list_ex (\<lambda>h. h = required) have_) roles
           then (Ret (None, None, None), w)
           else (Ret (None, None, Some (rolesError roles)), w))
      | _ \<Rightarrow> (Ret (None, None, Some (rolesError roles)), w))"

definition rateKey :: "string \<Rightarrow> ToolInfo \<Rightarrow> string" where
  "rateKey server info = server @ ''/'' @ ti_Name info"

definition RateLimit ::
  "('w \<Rightarrow> gotime) \<Rightarrow> ('w \<Rightarrow> tokenBucket) \<Rightarrow> (tokenBucket \<Rightarrow> 'w \<Rightarrow> 'w) \<Rightarrow> 'w BeforeCallHook" where
  "RateLimit now get put c server tool info args w =
     (let key = rateKey server info;
          (ok, tb) = allow (now w) (get w) key;
          w = put tb w
      in if \<not> ok
         then (Ret (None, None, Some (ErrText (''mcpx/policy: rate limit exceeded for '' @ server @ ''/'' @ ti_Name info))), w)
         else (Ret (None, None, None), w))"

definition AuditLog :: "'w Logger \<Rightarrow> 'w AfterCallHook" where
  "AuditLog logger c server tool info args result callErr dur w =
     (case callErr of
        Some e \<Rightarrow>
          (Ret result, logger Error ''mcpx/policy: call failed''
             [F ''server'' (FStr server), F ''tool'' (FStr tool), F ''error'' (FErr e),
              F ''duration_ms'' (FNum (Milliseconds dur))] w)
      | None \<Rightarrow>
          (Ret result, logger Info ''mcpx/policy: call''
             [F ''server'' (FStr server), F ''tool'' (FStr tool), F ''duration_ms'' (FNum (Milliseconds dur))] w))"

section \<open>Hooks that close the gate\<close>

interpretation destructive: gate_hook DenyDestructive "\<lambda>server tool info. ti_Destructive info"
  by unfold_locales (simp add: DenyDestructive_def)

interpretation no_roles: gate_hook "RequireRoles []" "\<lambda>server tool info. True"
  by unfold_locales (simp add: RequireRoles_def split: option.split ctxval.split)

text \<open>
  \<open>DenyDestructive\<close>, wherever it stands in the BeforeCall chain, keeps a call of a
  destructive tool from the server and from the cache, whatever the other hooks do.\<close>

theorem DenyDestructive_blocks:
  assumes "DenyDestructive \<in> set (o_beforeCall (mx_opts mx))"
    and "gm_get (mx_servers mx) server = Some entry"
    and "find (\<lambda>ti. ti_Name ti = tool) (se_tools entry) = Some info" and "ti_Destructive info"
  shows "traced {KUpstream, KCacheGet, KCacheSet} (snd (CallTool rt mx c server tool args s)) =
         traced {KUpstream, KCacheGet, KCacheSet} s"
  using assms by (rule destructive.blocked)

text \<open>
  \<open>RequireRoles\<close> lets a call pass exactly when the context carries, under
  \<open>RolesKey\<close>, a list of strings with one of the required roles; otherwise it aborts. It
  changes nothing, and with an empty list of roles it never lets a call pass.\<close>

theorem RequireRoles_iff:
  "RequireRoles roles c server tool info args w =
     (Ret (None, None,
           if \<exists>rs. ctx_Value c RolesKey = Some (CtxStrings rs) \<and> set rs \<inter> set roles \<noteq> {}
           then None else Some (rolesError roles)), w)"
  by (auto simp: RequireRoles_def list_ex_iff split: option.split ctxval.split)

text \<open>A first hook that aborts keeps the call from everything behind it.\<close>

lemma finish_error: "fst (finish mx c server tool info args result (Some e) d s) \<noteq> Ret (r, None)"
  by (auto simp: finish_def split: prod.split outcome.split)

lemma rejectCall_error: "fst (rejectCall rt mx c server tool info args reason e start s) \<noteq> Ret (r, None)"
  by (auto simp: rejectCall_def finishRecorded_def Let_def split: prod.split outcome.split)

lemma afterArgs_aborted:
  assumes "o_beforeCall (mx_opts mx) = hook # hooks"
    and "hook c server tool info fa (st_env s) = (Ret (nc, sr, Some e), w')"
    and "KBefore \<notin> K" "KReject \<notin> K" "KAfter \<notin> K"
  shows "traced K (snd (afterArgs rt mx entry c server tool info arguments fa start s)) = traced K s"
    and "fst (afterArgs rt mx entry c server tool info arguments fa start s) \<noteq> Ret (r, None)"
  using assms by (simp_all add: afterArgs_def Let_def finish_frame finish_error)

lemma first_hook_aborts:
  assumes "o_beforeCall (mx_opts mx) = hook # hooks"
    and "\<And>info fa w. \<exists>nc sr e w'. hook c server tool info fa w = (Ret (nc, sr, Some e), w')"
  shows "traced {KUpstream, KCacheGet, KCacheSet} (snd (CallTool rt mx c server tool args s)) =
           traced {KUpstream, KCacheGet, KCacheSet} s" (is "traced ?K _ = _")
    and "fst (CallTool rt mx c server tool args s) \<noteq> Ret (r, None)"
proof -
  have "traced ?K (snd (afterArgs rt mx entry c server tool info arguments fa start s)) = traced ?K s"
    "fst (afterArgs rt mx entry c server tool info arguments fa start s) \<noteq> Ret (r, None)"
    for entry info arguments fa start s
  proof -
    obtain nc sr e w' where "hook c server tool info fa (st_env s) = (Ret (nc, sr, Some e), w')"
      using assms(2) by blast
    note abort = afterArgs_aborted [OF assms(1) this, where K = ?K]
    show "traced ?K (snd (afterArgs rt mx entry c server tool info arguments fa start s)) = traced ?K s"
      "fst (afterArgs rt mx entry c server tool info arguments fa start s) \<noteq> Ret (r, None)"
      by (rule abort; simp)+
  qed
  then show "traced ?K (snd (CallTool rt mx c server tool args s)) = traced ?K s"
    "fst (CallTool rt mx c server tool args s) \<noteq> Ret (r, None)"
    by (auto simp: CallTool_def Let_def rejectCall_frame rejectCall_error logCall_frame
        split: option.split sum.split)
qed

text \<open>
  C23. With \<open>RequireRoles\<close> as the first hook, a caller whose context does not carry one of
  the roles reaches neither a server nor the cache and never gets a result.\<close>

theorem RequireRoles_enforced:
  assumes "o_beforeCall (mx_opts mx) = RequireRoles roles # hooks"
    and "\<not> (\<exists>rs. ctx_Value c RolesKey = Some (CtxStrings rs) \<and> set rs \<inter> set roles \<noteq> {})"
  shows "traced {KUpstream, KCacheGet, KCacheSet} (snd (CallTool rt mx c server tool args s)) =
           traced {KUpstream, KCacheGet, KCacheSet} s \<and>
         fst (CallTool rt mx c server tool args s) \<noteq> Ret (r, None)"
proof -
  have "\<exists>nc sr e w'. RequireRoles roles c server tool info fa w = (Ret (nc, sr, Some e), w')" for info fa w
    using assms(2) by (auto simp: RequireRoles_def list_ex_iff split: option.split ctxval.split)
  from first_hook_aborts [OF assms(1) this] show ?thesis by blast
qed

section \<open>Rate limits\<close>

text \<open>
  With \<open>RateLimit\<close> as the first hook, a call whose token bucket is empty when the hook
  runs is not sent: it fails with the error of the hook, is reported as aborted by a hook,
  and the only trace it leaves in the limiter is the new state of its bucket.\<close>

theorem RateLimit_enforced:
  assumes "o_beforeCall (mx_opts mx) = RateLimit now get put # hooks" "o_afterCall (mx_opts mx) = []"
    and "gm_get (mx_servers mx) server = Some entry" "se_state entry \<noteq> ServerStateDown"
    and "find (\<lambda>ti. ti_Name ti = tool) (se_tools entry) = Some info"
    and "prepareArgs rt mx entry args = Inr (arguments, fa)" "schemaErrors rt mx info fa = []"
    and "w = st_env (logCall mx server tool arguments s)"
    and "allow (now w) (get w) (rateKey server info) = (False, tb)"
  shows "\<exists>e s'. CallTool rt mx c server tool args s = (Ret (None, Some e), s') \<and>
      traced {KUpstream, KCacheGet, KCacheSet} s' = traced {KUpstream, KCacheGet, KCacheSet} s \<and>
      (o_onRejectedCall (mx_opts mx) = None \<longrightarrow> st_env s' = put tb w)"
  using assms
  by (simp add: CallTool_stages afterArgs_def Let_def RateLimit_def finish_def runAfterCall_def
      fireRejected_def logCall_frame case_prod_beta split: option.split)

text \<open>
  The key of a bucket tells servers and tools apart as long as no server name has a slash;
  \<open>a\<close> with \<open>b/c\<close> and \<open>a/b\<close> with \<open>c\<close> share one.
\<close>

lemma rateKey_inject:
  assumes "CHR ''/'' \<notin> set server" "CHR ''/'' \<notin> set server'"
  shows "rateKey server info = rateKey server' info' \<longleftrightarrow> server = server' \<and> ti_Name info = ti_Name info'"
  using sep_append_eq [OF assms] by (simp add: rateKey_def)

lemma rateKey_collision:
  "rateKey ''a'' (zeroToolInfo\<lparr>ti_Name := ''b/c''\<rparr>) = rateKey ''a/b'' (zeroToolInfo\<lparr>ti_Name := ''c''\<rparr>)"
  by (simp add: rateKey_def)

section \<open>The audit log\<close>

lemma Milliseconds_bounds: "\<bar>d - Milliseconds d * 1000000\<bar> < 1000000 \<and> \<bar>Milliseconds d\<bar> * 1000000 \<le> \<bar>d\<bar>"
proof -
  have "\<bar>d\<bar> = \<bar>d\<bar> div 1000000 * 1000000 + \<bar>d\<bar> mod 1000000" by simp
  moreover have "0 \<le> \<bar>d\<bar> mod 1000000" "\<bar>d\<bar> mod 1000000 < 1000000" by simp_all
  ultimately show ?thesis
    by (auto simp: Milliseconds_def signed_divide_int_def sgn_if abs_if split: if_splits)
qed

lemma runAfterHooks_append:
  "runAfterHooks (hooks @ hooks') c server tool info args result e d s =
     (case runAfterHooks hooks c server tool info args result e d s of
        (Panic, s) \<Rightarrow> (Panic, s)
      | (Ret result, s) \<Rightarrow> runAfterHooks hooks' c server tool info args result e d s)"
  by (induction hooks arbitrary: result s) (auto simp: Let_def split: prod.split outcome.split)

text \<open>
  Adding \<open>AuditLog\<close> behind other AfterCall hooks changes neither the result nor the
  error of a call. It writes one record, at level Error exactly when the call failed, with
  the server, the tool, the error and the duration in whole milliseconds; the record does
  not depend on the arguments or on the result.\<close>

theorem AuditLog_transparent:
  "runAfterHooks (hooks @ [AuditLog logger]) c server tool info args result callErr dur s =
     (case runAfterHooks hooks c server tool info args result callErr dur s of
        (Panic, s1) \<Rightarrow> (Panic, s1)
      | (Ret result', s1) \<Rightarrow>
          (let s2 = emit (EvAfter c server tool info args result' callErr dur) s1 in
           (Ret result', s2\<lparr>st_env := logger (if callErr = None then Info else Error)
              (if callErr = None then ''mcpx/policy: call'' else ''mcpx/policy: call failed'')
              ([(''server'', FStr server), (''tool'', FStr tool)] @
               (case callErr of None \<Rightarrow> [] | Some e \<Rightarrow> [(''error'', FErr e)]) @
               [(''duration_ms'', FNum (Milliseconds dur))]) (st_env s2)\<rparr>)))"
  by (auto simp: runAfterHooks_append AuditLog_def F_def Let_def split: prod.split outcome.split option.split)

section \<open>Concrete policies\<close>

definition pol_tool :: ToolInfo where
  "pol_tool = zeroToolInfo\<lparr>ti_Server := ''s'', ti_Name := ''rm'', ti_Destructive := True\<rparr>"

definition pol_entry :: serverEntry where
  "pol_entry = \<lparr>se_config = zeroServerConfig\<lparr>sc_Name := ''s''\<rparr>, se_session = Some 7, se_tools = [pol_tool],
     se_state = ServerStateConnected, se_reconnecting = False, se_refreshCh = Some False\<rparr>"

definition pol_mx :: "'w BeforeCallHook list \<Rightarrow> 'w mx" where
  "pol_mx hooks = \<lparr>mx_servers = [(''s'', pol_entry)], mx_kindHints = None,
     mx_opts = (defaultOptions None)\<lparr>o_beforeCall := hooks\<rparr>, mx_builtinCache = True\<rparr>"

definition pol_st :: "'w \<Rightarrow> 'w st" where
  "pol_st w = \<lparr>st_env = w, st_cache = newLRUCache 2, st_scopeWarned = False, st_ttlWarned = [], st_trace = []\<rparr>"

text \<open>A world that is nothing but the bucket of the limiter; its clock stands still.\<close>

definition pol_rt :: "tokenBucket rt" where
  "pol_rt = \<lparr>rt_now = (\<lambda>w. 0), rt_unicode = \<lparr>uniLower = id, uniTrimSpace = id\<rparr>, rt_environ = [],
     rt_unmarshal = (\<lambda>b. Inr ANil), rt_marshal = (\<lambda>a. None), rt_marshalContent = (\<lambda>a. None),
     rt_ParseDuration = (\<lambda>s. None), rt_validateSchema = (\<lambda>a b. Inl []), rt_ctxErr = (\<lambda>c w. None),
     rt_CallTool = (\<lambda>sess c tool args w. ((None, None), w)), rt_ListTools = (\<lambda>sess c w. (Inr [], w)),
     rt_Connect = (\<lambda>c tp n v w. (Inr 7, w)), rt_Close = (\<lambda>sess w. (None, w))\<rparr>"

definition pol_spent :: tokenBucket where
  "pol_spent = snd (allows [(0, ''s/rm'')] (newTokenBucket second 1))"

lemma pol_simps:
  "gm_get (mx_servers (pol_mx hooks)) ''s'' = Some pol_entry" "o_beforeCall (mx_opts (pol_mx hooks)) = hooks"
  "o_afterCall (mx_opts (pol_mx hooks)) = []" "o_onRejectedCall (mx_opts (pol_mx hooks)) = None"
  "find (\<lambda>ti. ti_Name ti = ''rm'') (se_tools pol_entry) = Some pol_tool" "ti_Destructive pol_tool"
  "prepareArgs rt mx entry [] = Inr (None, [])" "schemaErrors rt (pol_mx hooks) info fa = []"
  "logCall mx server tool None s = s" "se_state pol_entry = ServerStateConnected" "st_env (pol_st w) = w"
  "rateKey ''s'' pol_tool = ''s/rm''" "traced K (pol_st w) = []"
  by (simp_all add: pol_mx_def pol_entry_def pol_tool_def defaultOptions_def prepareArgs_def schemaErrors_def
      logCall_def pol_st_def rateKey_def traced_def)

lemma pol_spent_refuses: "allow 0 pol_spent ''s/rm'' = (False, snd (allow 0 pol_spent ''s/rm''))"
proof -
  have "fst (allows (replicate 2 (0, ''s/rm'')) (newTokenBucket second 1)) = [True, False]"
    using burst_idle [OF limiter_ok_new [of second 1 0], of 0 "''s/rm''" 2]
    by (simp add: limits_ok_def second_def idle_def newTokenBucket_def eval_nat_numeral)
  then show ?thesis
    by (intro pair_by_fst) (simp add: pol_spent_def allows_Cons eval_nat_numeral)
qed

theorem DenyDestructive_blocks_witness:
  "traced {KUpstream, KCacheGet, KCacheSet}
     (snd (CallTool pol_rt (pol_mx [DenyDestructive]) ctx_Background ''s'' ''rm'' [] (pol_st pol_spent))) = []"
  using DenyDestructive_blocks [of "pol_mx [DenyDestructive]" "''s''" pol_entry "''rm''" pol_tool pol_rt
      ctx_Background "[]" "pol_st pol_spent"]
  by (simp add: pol_simps)

theorem RequireRoles_enforced_witness:
  "let c = ctx_WithValue ctx_Background RolesKey (CtxStrings [''guest'']) in
   fst (CallTool pol_rt (pol_mx [RequireRoles [''admin'']]) c ''s'' ''rm'' [] (pol_st pol_spent)) \<noteq> Ret (None, None)"
  using RequireRoles_enforced [of "pol_mx [RequireRoles [''admin'']]" "[''admin'']" "[]"
      "ctx_WithValue ctx_Background RolesKey (CtxStrings [''guest''])" pol_rt "''s''" "''rm''" "[]" "pol_st pol_spent" None]
  by (simp add: pol_simps)

theorem RateLimit_enforced_witness:
  "\<exists>e s'. CallTool pol_rt (pol_mx [RateLimit (\<lambda>w. 0) id (\<lambda>tb w. tb)]) ctx_Background ''s'' ''rm'' [] (pol_st pol_spent) =
       (Ret (None, Some e), s') \<and> traced {KUpstream, KCacheGet, KCacheSet} s' = [] \<and>
     st_env s' = snd (allow 0 pol_spent ''s/rm'')"
  using RateLimit_enforced [of "pol_mx [RateLimit (\<lambda>w. 0) id (\<lambda>tb w. tb)]" "\<lambda>w. 0" id "\<lambda>tb w. tb" "[]" "''s''" pol_entry
      "''rm''" pol_tool pol_rt "[]" None "[]" pol_spent "pol_st pol_spent" "snd (allow 0 pol_spent ''s/rm'')" ctx_Background]
    pol_spent_refuses
  by (simp add: pol_simps)

end
