(* ===== verification/Admission.thy ===== *)
theory Admission
  imports Policy
begin

text \<open>
  Rate limits over sequences of calls. \<open>RateLimit\<close> decides on single calls; here its
  decisions are put together with \<open>CallTool\<close> and the arithmetic of the token bucket: how
  many of many calls of a tool reach its server in a time. The first part says how the world
  of the callbacks may change during a call, for any relation that every callback respects.
\<close>

section \<open>Changes of the world during a call\<close>

text \<open>
  \<open>R w w'\<close> relates a world to a later one. It is respected if no callback but the BeforeCall
  hooks leads out of it: the logger, the metrics, the other hooks, a custom cache and the
  call to the server.
\<close>

definition preorder :: "('w \<Rightarrow> 'w \<Rightarrow> bool) \<Rightarrow> bool" where
  "preorder R \<longleftrightarrow> (\<forall>w. R w w) \<and> (\<forall>a b c. R a b \<longrightarrow> R b c \<longrightarrow> R a c)"

definition respected :: "('w \<Rightarrow> 'w \<Rightarrow> bool) \<Rightarrow> 'w rt \<Rightarrow> 'w options \<Rightarrow> bool" where
  "respected R rt opts \<longleftrightarrow> preorder R \<and>
     (\<forall>lvl msg fs w. R w (o_logger opts lvl msg fs w)) \<and>
     (\<forall>sv t d e w. R w (snd (m_RecordCall (o_metrics opts) sv t d e w))) \<and>
     (\<forall>f. o_onRejectedCall opts = Some f \<longrightarrow> (\<forall>c sv t reason e w. R w (snd (f c sv t reason e w)))) \<and>
     (\<forall>h \<in> set (o_afterCall opts). \<forall>c sv t i a r e d w. R w (snd (h c sv t i a r e d w))) \<and>
     (\<forall>h \<in> set (o_resultTransform opts). \<forall>c sv t i r w. R w (snd (h c sv t i r w))) \<and>
     (\<forall>cc. o_cache opts = Some cc \<longrightarrow>
        (\<forall>c k w. R w (snd (c_Get cc c k w))) \<and> (\<forall>c k v ttl w. R w (c_Set cc c k v ttl w))) \<and>
     (\<forall>sess c t a w. R w (snd (rt_CallTool rt sess c t a w)))"

lemma respected_preorder: "respected R rt opts \<Longrightarrow> preorder R"
  by (simp add: respected_def)

lemma preorderD:
  assumes "preorder R"
  shows "R w w" and "R a b \<Longrightarrow> R b c \<Longrightarrow> R a c"
  using assms unfolding preorder_def by blast+

lemma respectedD:
  assumes "respected R rt opts"
  shows "R w (o_logger opts lvl msg fs w)" "R w (snd (m_RecordCall (o_metrics opts) sv t d e w))"
    "o_onRejectedCall opts = Some f \<Longrightarrow> R w (snd (f c1 sv t reason er w))"
    "o_cache opts = Some cc \<Longrightarrow> R w (snd (c_Get cc c2 k w))"
    "o_cache opts = Some cc \<Longrightarrow> R w (c_Set cc c2 k v ttl w)"
    "R w (snd (rt_CallTool rt sess c1 t ar w))"
  using assms by (simp_all add: respected_def)

lemmas respected_refl = preorderD(1) [OF respected_preorder]
lemmas respected_trans = preorderD(2) [OF respected_preorder]

text \<open>The stages of a call.\<close>

lemma world_log_at: "respected R rt opts \<Longrightarrow> R (st_env s) (st_env (log_at opts lvl msg fs s))"
  by (simp add: log_at_def Let_def respectedD(1))

lemma world_fireRejected:
  "respected R rt (mx_opts mx) \<Longrightarrow> R (st_env s) (st_env (fireRejected mx c server tool reason e s))"
  by (auto simp: fireRejected_def Let_def case_prod_beta respected_refl respectedD(3) split: option.split)

lemma world_logCall: "respected R rt (mx_opts mx) \<Longrightarrow> R (st_env s) (st_env (logCall mx server tool arguments s))"
  by (auto simp: logCall_def respected_refl world_log_at split: option.split)

lemma world_runAfterHooks:
  assumes "preorder R" "\<forall>h \<in> set hooks. \<forall>c sv t i a r e d w. R w (snd (h c sv t i a r e d w))"
  shows "R (st_env s) (st_env (snd (runAfterHooks hooks c server tool info args result e d s)))"
  using assms(2)
proof (induction hooks arbitrary: result s)
  case (Cons h hooks)
  let ?s = "emit (EvAfter c server tool info args result e d) s"
  obtain res w where h: "h c server tool info args result e d (st_env ?s) = (res, w)" by fastforce
  have first: "R (st_env s) w" using Cons.prems h by (metis list.set_intros(1) snd_conv emit_simps(1))
  have rest: "R w (st_env (snd (runAfterHooks hooks c server tool info args r e d (?s\<lparr>st_env := w\<rparr>))))" for r
    using Cons.IH [of "?s\<lparr>st_env := w\<rparr>" r] Cons.prems by simp
  show ?case
    using h first assms(1) rest by (cases res) (auto simp: Let_def preorder_def)
qed (use assms(1) in \<open>simp add: preorder_def\<close>)

lemma world_finish:
  assumes "respected R rt (mx_opts mx)"
  shows "R (st_env s) (st_env (snd (finish mx c server tool info args result e d s)))"
    and "R (st_env s) (st_env (snd (finishRecorded rt' mx c server tool info args result e d rd s)))"
proof -
  obtain res s' where run: "runAfterHooks (o_afterCall (mx_opts mx)) c server tool info args result e d s = (res, s')"
    by fastforce
  have "\<forall>h \<in> set (o_afterCall (mx_opts mx)). \<forall>c sv t i a r e d w. R w (snd (h c sv t i a r e d w))"
    using assms by (simp add: respected_def)
  from world_runAfterHooks [OF respected_preorder [OF assms] this, of s c server tool info args result e d]
  have after: "R (st_env s) (st_env s')" by (simp add: run)
  then show "R (st_env s) (st_env (snd (finish mx c server tool info args result e d s)))"
    by (simp add: finish_def runAfterCall_def run split: outcome.split)
  from after show "R (st_env s) (st_env (snd (finishRecorded rt' mx c server tool info args result e d rd s)))"
    using respected_trans [OF assms after respectedD(2) [OF assms]]
    by (simp add: finishRecorded_def runAfterCall_def run Let_def safeRecordCall_def case_prod_beta split: outcome.split)
qed

lemma world_rejectCall:
  assumes "respected R rt (mx_opts mx)"
  shows "R (st_env s) (st_env (snd (rejectCall rt mx c server tool info args reason e start s)))"
  unfolding rejectCall_def Let_def
  by (rule respected_trans [OF assms world_fireRejected [OF assms] world_finish(2) [OF assms]])

lemma world_runBefore:
  assumes "preorder R" "\<forall>h \<in> set hooks. \<forall>c sv t i a w. R w (snd (h c sv t i a w))"
  shows "R (st_env s) (st_env (snd (runBefore hooks c server tool info args s)))"
  using assms(2)
proof (induction hooks arbitrary: c s)
  case (Cons h hooks)
  let ?s = "emit (EvBefore c server tool info args) s"
  obtain res w where h: "h c server tool info args (st_env ?s) = (res, w)" by fastforce
  have first: "R (st_env s) w" using Cons.prems h by (metis list.set_intros(1) snd_conv emit_simps(1))
  have rest: "R w (st_env (snd (runBefore hooks c' server tool info args (?s\<lparr>st_env := w\<rparr>))))" for c'
    using Cons.IH [of "?s\<lparr>st_env := w\<rparr>" c'] Cons.prems by simp
  note through = preorderD(2) [OF assms(1) first rest]
  show ?case
    using h first through by (cases res) (auto simp: Let_def split: option.split)
qed (simp add: preorderD(1) [OF assms(1)])

lemma world_runTransforms:
  assumes "preorder R" "\<forall>h \<in> set hooks. \<forall>c sv t i r w. R w (snd (h c sv t i r w))"
  shows "R (st_env s) (st_env (snd (runTransforms hooks c server tool info r s)))"
  using assms(2)
proof (induction hooks arbitrary: r s)
  case (Cons h hooks)
  let ?s = "emit (EvTransform c server tool info r) s"
  obtain res w where h: "h c server tool info r (st_env ?s) = (res, w)" by fastforce
  have first: "R (st_env s) w" using Cons.prems h by (metis list.set_intros(1) snd_conv emit_simps(1))
  have rest: "R w (st_env (snd (runTransforms hooks c server tool info r' (?s\<lparr>st_env := w\<rparr>))))" for r'
    using Cons.IH [of "?s\<lparr>st_env := w\<rparr>" r'] Cons.prems by simp
  note through = preorderD(2) [OF assms(1) first rest]
  show ?case
    using h first through by (cases res) (auto simp: Let_def split: option.split)
qed (simp add: preorderD(1) [OF assms(1)])

lemma world_cacheLookup:
  assumes "respected R rt (mx_opts mx)"
  shows "R (st_env s) (st_env (snd (cacheLookup rt mx c server tool info fa s)))"
proof -
  have warn: "R (st_env s) (st_env (warnScope mx c s))"
    using world_log_at [OF assms, of "s\<lparr>st_scopeWarned := True\<rparr>"]
    by (simp add: warnScope_def respected_refl [OF assms])
  have get: "R (st_env t) (st_env (snd (cacheGet rt (activeCache mx) c key t)))" for key t
    by (auto simp: cacheGet_def activeCache_def Let_def case_prod_beta respected_refl [OF assms] respectedD(4) [OF assms]
        split: option.split)
  show ?thesis
    using respected_trans [OF assms warn get] by (simp add: cacheLookup_def Let_def respected_refl [OF assms])
qed

lemma world_cacheStore:
  assumes "respected R rt (mx_opts mx)"
  shows "R (st_env s) (st_env (cacheStore rt mx c server tool info fa r s))"
proof -
  have set: "R (st_env t) (st_env (cacheSet rt (activeCache mx) c key r ttl t))" for key ttl t
    by (auto simp: cacheSet_def activeCache_def Let_def respected_refl [OF assms] respectedD(5) [OF assms] split: option.split)
  have warn: "R (st_env s) (st_env (log_at (mx_opts mx) Warn msg fs (s\<lparr>st_ttlWarned := ws\<rparr>)))" for msg fs ws
    using world_log_at [OF assms, of "s\<lparr>st_ttlWarned := ws\<rparr>"] by simp
  show ?thesis
    using set [of "s\<lparr>st_ttlWarned := ws\<rparr>" for ws] respected_trans [OF assms warn set]
    by (auto simp: cacheStore_def Let_def respected_refl [OF assms] split: prod.split option.split)
qed

lemma world_afterUpstream:
  assumes "respected R rt (mx_opts mx)"
  shows "R (st_env s) (st_env (snd (afterUpstream rt mx c server tool info fa r d s)))"
proof -
  obtain res s' where run: "runTransforms (o_resultTransform (mx_opts mx)) c server tool info r s = (res, s')" by fastforce
  have "\<forall>h \<in> set (o_resultTransform (mx_opts mx)). \<forall>c sv t i r w. R w (snd (h c sv t i r w))"
    using assms by (simp add: respected_def)
  from world_runTransforms [OF respected_preorder [OF assms] this, of s c server tool info r]
  have here: "R (st_env s) (st_env s')" by (simp add: run)
  note stored = respected_trans [OF assms here world_cacheStore [OF assms]]
  show ?thesis
    using respected_trans [OF assms here world_finish(2) [OF assms]] here
      respected_trans [OF assms stored world_finish(2) [OF assms]]
    by (auto simp: afterUpstream_def run Let_def split: outcome.split option.split)
qed

lemma world_upstream:
  assumes "respected R rt (mx_opts mx)"
  shows "R (st_env s) (st_env (snd (upstream rt mx entry c server tool info arguments fa start s)))"
proof (cases "se_session entry")
  case (Some sess)
  let ?c = "ctx_WithTimeout c (rt_now rt (st_env s)) (effectiveTimeout (sc_CallTimeout (se_config entry)) (o_callTimeout (mx_opts mx)))"
  let ?s = "emit (EvUpstream sess ?c tool arguments) s"
  obtain raw err w where call: "rt_CallTool rt sess ?c tool arguments (st_env ?s) = ((raw, err), w)"
    by (metis surj_pair)
  have here: "R (st_env s) (st_env (?s\<lparr>st_env := w\<rparr>))"
    using respectedD(6) [OF assms, of "st_env s" sess ?c tool arguments] call by simp
  note lg = respected_trans [OF assms here world_log_at [OF assms]]
  show ?thesis
    using call respected_trans [OF assms here world_afterUpstream [OF assms]]
      respected_trans [OF assms lg world_finish(2) [OF assms]]
    by (cases err) (simp_all add: upstream_def Some Let_def)
qed (simp add: upstream_def respected_refl [OF assms])

lemma world_dispatch:
  assumes "respected R rt (mx_opts mx)"
  shows "R (st_env s) (st_env (snd (dispatch rt mx entry c server tool info arguments fa start s)))"
proof -
  obtain res s' where run: "cacheLookup rt mx c server tool info fa s = (res, s')" by fastforce
  have here: "R (st_env s) (st_env s')"
    using world_cacheLookup [OF assms, of s c server tool info fa] by (simp add: run)
  show ?thesis
    using respected_trans [OF assms here world_finish(1) [OF assms]] respected_trans [OF assms here world_upstream [OF assms]]
    by (cases res) (simp_all add: dispatch_def run)
qed

lemma world_afterArgs:
  assumes "respected R rt (mx_opts mx)" "o_beforeCall (mx_opts mx) = hook # rest"
    and "\<forall>h \<in> set rest. \<forall>c sv t i a w. R w (snd (h c sv t i a w))"
    and "hook c server tool info fa (st_env s) = (res, w)"
  shows "R w (st_env (snd (afterArgs rt mx entry c server tool info arguments fa start s)))"
proof -
  obtain b s1 where run: "runBefore (o_beforeCall (mx_opts mx)) c server tool info fa s = (b, s1)" by fastforce
  have "R w (st_env (snd (runBefore (o_beforeCall (mx_opts mx)) c server tool info fa s)))"
    unfolding assms(2) using assms(4) respected_refl [OF assms(1), of w]
      world_runBefore [OF respected_preorder [OF assms(1)] assms(3),
        of "(emit (EvBefore c server tool info fa) s)\<lparr>st_env := w\<rparr>" _ server tool info fa]
    by (cases res) (auto simp: Let_def split: option.split)
  then have here: "R w (st_env s1)" unfolding run by simp
  note rejected = respected_trans [OF assms(1) here world_fireRejected [OF assms(1)]]
  show ?thesis
    using here respected_trans [OF assms(1) here world_finish(1) [OF assms(1)]]
      respected_trans [OF assms(1) here world_dispatch [OF assms(1)]]
      respected_trans [OF assms(1) rejected world_finish(1) [OF assms(1)]]
    by (simp add: afterArgs_def run Let_def split: outcome.split before_result.split)
qed

section \<open>Calls under a rate limit\<close>

text \<open>Time passes, and the bucket of one key is left alone.\<close>

definition drift :: "('w \<Rightarrow> gotime) \<Rightarrow> ('w \<Rightarrow> tokenBucket) \<Rightarrow> string \<Rightarrow> 'w \<Rightarrow> 'w \<Rightarrow> bool" where
  "drift now get key w w' \<longleftrightarrow> now w \<le> now w' \<and> same_bucket key (get w') (get w)"

text \<open>The key \<open>RateLimit\<close> uses for a tool.\<close>

definition toolKey :: "string \<Rightarrow> string \<Rightarrow> string" where
  "toolKey server tool = server @ ''/'' @ tool"

definition limited ::
  "('w \<Rightarrow> gotime) \<Rightarrow> ('w \<Rightarrow> tokenBucket) \<Rightarrow> (tokenBucket \<Rightarrow> 'w \<Rightarrow> 'w) \<Rightarrow> string \<Rightarrow> 'w rt \<Rightarrow> 'w options \<Rightarrow> bool" where
  "limited now get put key rt opts \<longleftrightarrow>
     (\<exists>rest. o_beforeCall opts = RateLimit now get put # rest \<and> respected (drift now get key) rt opts \<and>
        (\<forall>h \<in> set rest. \<forall>c sv t i a w. drift now get key w (snd (h c sv t i a w))))"

lemma same_bucket_sym: "same_bucket key a b \<Longrightarrow> same_bucket key b a"
  by (simp add: same_bucket_def)

lemma same_bucket_trans: "same_bucket key a b \<Longrightarrow> same_bucket key b c \<Longrightarrow> same_bucket key a c"
  by (simp add: same_bucket_def)

lemma same_bucket_allows:
  "same_bucket key tb tb' \<Longrightarrow>
   fst (allows (map (\<lambda>u. (u, key)) ts) tb) = fst (allows (map (\<lambda>u. (u, key)) ts) tb')"
  by (induction ts arbitrary: tb tb') (auto simp: allows_Cons same_bucket_allow)

text \<open>
  One call: either the hook is not reached, and nothing is sent, or it is reached once, at
  some time during the call, and the call is sent only if the bucket allows it then.
\<close>

definition passes :: "('w \<Rightarrow> gotime) \<Rightarrow> ('w \<Rightarrow> tokenBucket) \<Rightarrow> string \<Rightarrow> 'w st \<Rightarrow> 'w st \<Rightarrow> bool" where
  "passes now get key s s' \<longleftrightarrow>
     drift now get key (st_env s) (st_env s') \<and> traced {KUpstream} s' = traced {KUpstream} s \<or>
     (\<exists>u. now (st_env s) \<le> u \<and> u \<le> now (st_env s') \<and>
        same_bucket key (get (st_env s')) (snd (allow u (get (st_env s)) key)) \<and>
        length (traced {KUpstream} s') \<le> length (traced {KUpstream} s) + (if fst (allow u (get (st_env s)) key) then 1 else 0))"

lemma passes_cases:
  assumes "passes now get key s s'"
  obtains (still) "drift now get key (st_env s) (st_env s')" "traced {KUpstream} s' = traced {KUpstream} s"
    | (asked) u where "now (st_env s) \<le> u" "u \<le> now (st_env s')"
        "same_bucket key (get (st_env s')) (snd (allow u (get (st_env s)) key))"
        "length (traced {KUpstream} s') \<le> length (traced {KUpstream} s) + (if fst (allow u (get (st_env s)) key) then 1 else 0)"
  using assms unfolding passes_def by blast

lemma passes_drift:
  assumes "drift now get key (st_env s) (st_env s0)" "traced {KUpstream} s0 = traced {KUpstream} s" "passes now get key s0 s'"
  shows "passes now get key s s'"
  using assms(3)
proof (cases rule: passes_cases)
  case still
  with assms(1,2) show ?thesis by (auto simp: passes_def drift_def same_bucket_def)
next
  case (asked u)
  have "same_bucket key (get (st_env s0)) (get (st_env s))" "now (st_env s) \<le> now (st_env s0)"
    using assms(1) by (simp_all add: drift_def)
  note same = same_bucket_allow [OF this(1), of u] this(2)
  have "same_bucket key (get (st_env s')) (snd (allow u (get (st_env s)) key))"
    using same_bucket_trans [OF asked(3)] same by blast
  with asked same assms(2) show ?thesis
    unfolding passes_def by (intro disjI2 exI [of _ u]) auto
qed

lemma passes_still:
  "drift now get key (st_env s) (st_env s') \<Longrightarrow> traced {KUpstream} s' = traced {KUpstream} s \<Longrightarrow> passes now get key s s'"
  by (simp add: passes_def)

lemma passes_afterArgs:
  assumes lim: "limited now get put key rt (mx_opts mx)" and key: "key = rateKey server info"
    and put: "\<And>tb w. get (put tb w) = tb" "\<And>tb w. now w \<le> now (put tb w)"
  shows "passes now get key s (snd (afterArgs rt mx entry c server tool info arguments fa start s))"
proof -
  let ?s' = "snd (afterArgs rt mx entry c server tool info arguments fa start s)"
  obtain rest where rest: "o_beforeCall (mx_opts mx) = RateLimit now get put # rest" "respected (drift now get key) rt (mx_opts mx)"
      "\<forall>h \<in> set rest. \<forall>c sv t i a w. drift now get key w (snd (h c sv t i a w))"
    using lim by (auto simp: limited_def)
  let ?w = "st_env s"
  obtain ok tb where allow: "allow (now ?w) (get ?w) key = (ok, tb)" by fastforce
  have hook: "RateLimit now get put c server tool info fa ?w =
      (Ret (None, None, if ok then None else Some (ErrText (''mcpx/policy: rate limit exceeded for '' @ server @ ''/'' @ ti_Name info))), put tb ?w)"
    using allow by (simp add: RateLimit_def Let_def key)
  from world_afterArgs [OF rest(2,1,3) hook] have "drift now get key (put tb ?w) (st_env ?s')" .
  then have later: "now ?w \<le> now (st_env ?s')" "same_bucket key (get (st_env ?s')) tb"
    using put(2) [of ?w tb] by (auto simp: drift_def put(1))
  moreover have "traced {KUpstream} ?s' = traced {KUpstream} s" if "\<not> ok"
    using afterArgs_aborted(1) [OF rest(1), of c server tool info fa s None None _ "put tb ?w" "{KUpstream}"] hook that by simp
  moreover have "length (traced {KUpstream} ?s') \<le> Suc (length (traced {KUpstream} s))"
    by (auto simp: afterArgs_upstream split: prod.split outcome.split before_result.split option.split)
  ultimately show ?thesis
    unfolding passes_def by (intro disjI2 exI [of _ "now ?w"]) (auto simp: allow)
qed

lemma passes_CallTool:
  assumes lim: "limited now get put (toolKey server tool) rt (mx_opts mx)"
    and put: "\<And>tb w. get (put tb w) = tb" "\<And>tb w. now w \<le> now (put tb w)"
  shows "passes now get (toolKey server tool) s (snd (CallTool rt mx c server tool args s))"
proof -
  let ?passes = "passes now get (toolKey server tool)"
  have resp: "respected (drift now get (toolKey server tool)) rt (mx_opts mx)" using lim by (auto simp: limited_def)
  have rejected: "?passes t (snd (rejectCall rt mx c server tool info args' reason e start t))" for t info args' reason e start
    by (rule passes_still [OF world_rejectCall [OF resp]]) (simp add: rejectCall_frame)
  have logged: "?passes s s'" if "?passes (logCall mx server tool arguments s) s'" for arguments s'
    by (rule passes_drift [OF world_logCall [OF resp] _ that]) (simp add: logCall_frame)
  have args: "?passes t (snd (afterArgs rt mx entry c server tool info arguments fa start t))"
    if "find (\<lambda>ti. ti_Name ti = tool) (se_tools entry) = Some info" for t entry info arguments fa start
  proof (rule passes_afterArgs [OF lim])
    from that have "ti_Name info = tool" by (auto simp: find_Some_iff)
    then show "toolKey server tool = rateKey server info" by (simp add: rateKey_def toolKey_def)
  qed (rule put)+
  show ?thesis
  proof (cases "gm_get (mx_servers mx) server")
    case (Some entry)
    show ?thesis
    proof (cases "find (\<lambda>ti. ti_Name ti = tool) (se_tools entry)")
      case info: (Some info)
      show ?thesis
        by (simp add: CallTool_def Let_def Some info rejected logged [OF rejected] logged [OF args [OF info]] split: sum.split)
    qed (simp add: CallTool_def Let_def Some rejected)
  qed (simp add: CallTool_def Let_def rejected)
qed

text \<open>
  Calls of one tool, one after the other. Between two calls the world goes on, and the
  background goroutines change the entries, so every call comes with the multiplexer it
  finds and with what happened since the last one.
\<close>

fun call_run ::
  "'w rt \<Rightarrow> string \<Rightarrow> string \<Rightarrow> ('w mx \<times> ('w \<Rightarrow> 'w) \<times> ctx \<times> bytes) list \<Rightarrow> 'w st \<Rightarrow> 'w st" where
  "call_run rt server tool [] s = s"
| "call_run rt server tool ((mx, meanwhile, c, args) # calls) s =
     call_run rt server tool calls (snd (CallTool rt mx c server tool args (s\<lparr>st_env := meanwhile (st_env s)\<rparr>)))"

lemma call_run_admits:
  assumes calls: "\<forall>(mx, meanwhile, _) \<in> set calls. limited now get put (toolKey server tool) rt (mx_opts mx) \<and>
        (\<forall>w. drift now get (toolKey server tool) w (meanwhile w))"
    and put: "\<And>tb w. get (put tb w) = tb" "\<And>tb w. now w \<le> now (put tb w)"
  shows "\<exists>ts. length ts \<le> length calls \<and>
    sorted ([now (st_env s)] @ ts @ [now (st_env (call_run rt server tool calls s))]) \<and>
    length (traced {KUpstream} (call_run rt server tool calls s)) \<le> length (traced {KUpstream} s) +
      count_list (fst (allows (map (\<lambda>u. (u, toolKey server tool)) ts) (get (st_env s)))) True"
  using calls
proof (induction rt server tool calls s rule: call_run.induct)
  case (2 rt server tool mx meanwhile c args calls s)
  let ?key = "toolKey server tool"
  let ?s0 = "s\<lparr>st_env := meanwhile (st_env s)\<rparr>"
  let ?s1 = "snd (CallTool rt mx c server tool args ?s0)"
  let ?s' = "call_run rt server tool calls ?s1"
  have one: "passes now get ?key s ?s1"
  proof (rule passes_drift)
    show "passes now get ?key ?s0 ?s1" 
    proof (rule passes_CallTool)
      show "limited now get put ?key rt (mx_opts mx)" using 2(2) by simp
    qed (rule put)+
    show "drift now get ?key (st_env s) (st_env ?s0)" using 2(2) by simp
  qed simp
  have "\<exists>ts. length ts \<le> length calls \<and> sorted ([now (st_env ?s1)] @ ts @ [now (st_env ?s')]) \<and>
      length (traced {KUpstream} ?s') \<le> length (traced {KUpstream} ?s1) +
        count_list (fst (allows (map (\<lambda>u. (u, ?key)) ts) (get (st_env ?s1)))) True"
    by (rule 2(1)) (use 2(2) in simp)
  then obtain ts where ts: "length ts \<le> length calls" "sorted ([now (st_env ?s1)] @ ts @ [now (st_env ?s')])"
      "length (traced {KUpstream} ?s') \<le> length (traced {KUpstream} ?s1) +
        count_list (fst (allows (map (\<lambda>u. (u, ?key)) ts) (get (st_env ?s1)))) True"
    by blast
  from one show ?case
  proof (cases rule: passes_cases)
    case still
    with ts same_bucket_allows [of ?key "get (st_env ?s1)" "get (st_env s)" ts] show ?thesis
      by (intro exI [of _ ts]) (auto simp: drift_def)
  next
    case (asked u)
    with ts same_bucket_allows [OF asked(3), of ts] show ?thesis
      by (intro exI [of _ "u # ts"]) (auto simp: allows_Cons split: if_splits)
  qed
qed simp

text \<open>
  C24. What a rate limit guarantees a server, for a burst of at least one and a positive
  period: with \<open>RateLimit\<close> as the first hook, of any sequence of calls of one tool, at most \<open>burst + burst * time / per\<close> reach the server,
  where \<open>time\<close> is what the clock shows to have passed, up to a rounding error of at most
  \<open>2\<^sup>-\<^sup>4\<^sup>9\<close> of the burst for each call. This holds whatever else the hooks, the servers and
  the rest of the program do, as long as the clock does not run backwards and nobody else
  touches the bucket of this tool.\<close>

theorem rate_limited_calls:
  assumes "\<forall>(mx, meanwhile, _) \<in> set calls. limited now get put (toolKey server tool) rt (mx_opts mx) \<and>
        (\<forall>w. drift now get (toolKey server tool) w (meanwhile w))"
    and "\<And>tb w. get (put tb w) = tb" "\<And>tb w. now w \<le> now (put tb w)"
    and "limits_ok per burst" "history hist (now (st_env s))"
    and "get (st_env s) = snd (allows hist (newTokenBucket per burst))"
    and "s' = call_run rt server tool calls s"
  shows "of_nat (length (traced {KUpstream} s') - length (traced {KUpstream} s)) \<le>
    of_int burst * (1 + of_int (now (st_env s') - now (st_env s)) / of_int per + of_nat (length calls) / (2 :: rat) ^ 49)"
proof -
  let ?key = "toolKey server tool" and ?tb = "get (st_env s)"
  obtain ts where ts: "length ts \<le> length calls" "sorted ([now (st_env s)] @ ts @ [now (st_env s')])"
      "length (traced {KUpstream} s') \<le> length (traced {KUpstream} s) +
        count_list (fst (allows (map (\<lambda>u. (u, ?key)) ts) ?tb)) True"
    using call_run_admits [where calls = calls and now = now and get = get and put = put and server = server and tool = tool
        and rt = rt and s = s, OF assms(1-3)] unfolding assms(7) by blast
  have tb: "tb_burst ?tb = burst" "tb_per ?tb = per" "limiter_ok (now (st_env s)) ?tb"
    using history_ok [OF assms(4,5)] by (simp_all add: assms(6) allows_frame newTokenBucket_def)
  have "sorted ts" "now (st_env s) \<le> now (st_env s')" "\<And>u. u \<in> set ts \<Longrightarrow> now (st_env s) \<le> u \<and> u \<le> now (st_env s')"
    using ts(2) by (auto simp: sorted_append)
  from rate_bound [OF tb(3) this(1,3,2), of ?key]
  have "of_nat (count_list (fst (allows (map (\<lambda>u. (u, ?key)) ts) ?tb)) True) \<le>
      of_int burst * (1 + of_int (now (st_env s') - now (st_env s)) / of_int per + of_nat (length ts) / (2 :: rat) ^ 49)"
    by (simp add: tb)
  also have "\<dots> \<le> of_int burst * (1 + of_int (now (st_env s') - now (st_env s)) / of_int per + of_nat (length calls) / (2 :: rat) ^ 49)"
    using ts(1) assms(4) by (intro mult_left_mono add_left_mono divide_right_mono) (simp_all add: limits_ok_def)
  finally have bound: "of_nat (count_list (fst (allows (map (\<lambda>u. (u, ?key)) ts) ?tb)) True) \<le>
      of_int burst * (1 + of_int (now (st_env s') - now (st_env s)) / of_int per + of_nat (length calls) / (2 :: rat) ^ 49)" .
  have "length (traced {KUpstream} s') - length (traced {KUpstream} s) \<le>
      count_list (fst (allows (map (\<lambda>u. (u, ?key)) ts) ?tb)) True"
    using ts(3) by linarith
  then show ?thesis using bound by (meson of_nat_le_iff order_trans)
qed

section \<open>A concrete limit\<close>

text \<open>Three calls at one instant under a limit of one call per second.\<close>

definition lim_opts :: "tokenBucket options" where
  "lim_opts = mx_opts (pol_mx [RateLimit (\<lambda>w. 0) id (\<lambda>tb w. tb)])"

lemma lim_limited: "limited (\<lambda>w. 0) id (\<lambda>tb w. tb) key pol_rt lim_opts"
  by (auto simp: limited_def respected_def preorder_def drift_def same_bucket_def lim_opts_def pol_mx_def pol_rt_def
      defaultOptions_def NopLogger_def nopMetrics_def)

theorem rate_limited_calls_witness:
  "of_nat (length (traced {KUpstream} (call_run pol_rt ''s'' ''rm''
      (replicate 3 (pol_mx [RateLimit (\<lambda>w. 0) id (\<lambda>tb w. tb)], id, ctx_Background, [])) (pol_st (newTokenBucket second 1))))) \<le>
   (1 + 3 / 2 ^ 49 :: rat)"
proof -
  let ?mx = "pol_mx [RateLimit (\<lambda>w. 0) id (\<lambda>tb w. tb)]"
  have "\<forall>(mx, meanwhile, _) \<in> set (replicate 3 (?mx, id, ctx_Background, [])).
      limited (\<lambda>w. 0) id (\<lambda>tb w. tb) (toolKey ''s'' ''rm'') pol_rt (mx_opts mx) \<and>
      (\<forall>w. drift (\<lambda>w. 0) id (toolKey ''s'' ''rm'') w (meanwhile w))"
    using lim_limited unfolding lim_opts_def by (auto simp: drift_def same_bucket_def)
  moreover have "limits_ok second 1" "history [] 0" by (simp_all add: limits_ok_def second_def history_def)
  ultimately show ?thesis
    using rate_limited_calls [where calls = "replicate 3 (?mx, id, ctx_Background, [])" and now = "\<lambda>w. 0" and get = id
        and put = "\<lambda>tb w. tb" and server = "''s''" and tool = "''rm''" and rt = pol_rt and per = second and burst = 1
        and hist = "[]" and s = "pol_st (newTokenBucket second 1)", OF _ _ _ _ _ _ refl]
    by (simp add: pol_simps)
qed

end
