(* ===== verification/Capture.thy ===== *)
theory Capture
  imports Options "HOL-Library.Sublist"
begin

text \<open>
  The capturing logger of the test suite, \<open>internal/testutil/capturelog/logger.go\<close>: an
  \<open>mcpx.Logger\<close> that keeps every record in memory, with the searches the privacy tests rest
  on. How a field value is printed, \<open>fmt.Sprint\<close>, runs the \<open>Error\<close> and \<open>String\<close>
  methods of the value and is a parameter.
\<close>

section \<open>Definitions\<close>

text \<open>\<open>type Level int\<close>, \<open>Debug\<close> to \<open>Error\<close> from 0 on, and its name.\<close>

type_synonym Level = int

fun level_of :: "level \<Rightarrow> Level" where
  "level_of Debug = 0"
| "level_of Info = 1"
| "level_of Warn = 2"
| "level_of Error = 3"

fun digits :: "nat \<Rightarrow> string" where
  "digits n = (if n < 10 then [char_of (48 + n)] else digits (n div 10) @ [char_of (48 + n mod 10)])"

declare digits.simps [simp del]

definition decimal :: "int \<Rightarrow> string" where
  "decimal i = (if i < 0 then CHR ''-'' # digits (nat (- i)) else digits (nat i))"

definition Level_String :: "Level \<Rightarrow> string" where
  "Level_String l =
     (if l = 0 then ''DEBUG'' else if l = 1 then ''INFO'' else if l = 2 then ''WARN''
      else if l = 3 then ''ERROR'' else ''LEVEL('' @ decimal l @ '')'')"

record Entry =
  en_Level :: Level
  en_Message :: string
  en_Fields :: "(string, fieldval) gomap"

text \<open>The logger is its list of entries, changed under its mutex.\<close>

type_synonym captured = "Entry list"

definition capture_New :: captured where
  "capture_New = []"

definition Reset :: "captured \<Rightarrow> captured" where
  "Reset l = []"

definition Entries :: "captured \<Rightarrow> Entry list" where
  "Entries l = l"

fun EntriesAtLevel :: "captured \<Rightarrow> Level \<Rightarrow> Entry list" where
  "EntriesAtLevel [] lvl = []"
| "EntriesAtLevel (e # es) lvl =
     (if en_Level e = lvl then e # EntriesAtLevel es lvl else EntriesAtLevel es lvl)"

definition str_Contains :: "string \<Rightarrow> string \<Rightarrow> bool" where
  "str_Contains s substr \<longleftrightarrow> sublist substr s"

text \<open>The loop that \<open>Contains\<close> and \<open>ContainsAtLevel\<close> run over their entries.\<close>

fun mentions :: "(fieldval \<Rightarrow> string) \<Rightarrow> Entry list \<Rightarrow> string \<Rightarrow> bool" where
  "mentions sprint [] substr = False"
| "mentions sprint (e # es) substr =
     (if str_Contains (en_Message e) substr then True
      else if list_ex (\<lambda>(k, v). str_Contains (sprint v) substr) (en_Fields e) then True
      else mentions sprint es substr)"

definition Contains :: "(fieldval \<Rightarrow> string) \<Rightarrow> captured \<Rightarrow> string \<Rightarrow> bool" where
  "Contains sprint l substr = (if substr = [] then False else mentions sprint (Entries l) substr)"

definition ContainsAtLevel :: "(fieldval \<Rightarrow> string) \<Rightarrow> captured \<Rightarrow> Level \<Rightarrow> string \<Rightarrow> bool" where
  "ContainsAtLevel sprint l lvl substr =
     (if substr = [] then False else mentions sprint (EntriesAtLevel l lvl) substr)"

fun fieldLoop :: "(fieldval \<Rightarrow> string) \<Rightarrow> Entry list \<Rightarrow> string \<Rightarrow> string \<Rightarrow> bool" where
  "fieldLoop sprint [] key target = False"
| "fieldLoop sprint (e # es) key target =
     (case gm_get (en_Fields e) key of
        Some v \<Rightarrow> (if sprint v = target then True else fieldLoop sprint es key target)
      | None \<Rightarrow> fieldLoop sprint es key target)"

definition ContainsField :: "(fieldval \<Rightarrow> string) \<Rightarrow> captured \<Rightarrow> string \<Rightarrow> fieldval \<Rightarrow> bool" where
  "ContainsField sprint l key val = fieldLoop sprint (Entries l) key (sprint val)"

definition capture_append :: "Level \<Rightarrow> string \<Rightarrow> Field list \<Rightarrow> captured \<Rightarrow> captured" where
  "capture_append lvl msg fs l =
     l @ [\<lparr>en_Level = lvl, en_Message = msg, en_Fields = gm_build fs\<rparr>]"

text \<open>The methods \<open>Debug\<close>, \<open>Info\<close>, \<open>Warn\<close> and \<open>Error\<close>.\<close>

definition capture_log :: "captured Logger" where
  "capture_log lvl msg fs l = capture_append (level_of lvl) msg fs l"

section \<open>What is captured\<close>

lemma EntriesAtLevel_filter: "EntriesAtLevel l lvl = filter (\<lambda>e. en_Level e = lvl) l"
  by (induction l) auto

lemma mentions_iff:
  "mentions sprint es substr \<longleftrightarrow>
     (\<exists>e \<in> set es. sublist substr (en_Message e) \<or> (\<exists>(k, v) \<in> set (en_Fields e). sublist substr (sprint v)))"
  by (induction es) (auto simp: str_Contains_def list_ex_iff)

lemma fieldLoop_iff:
  "fieldLoop sprint es key target \<longleftrightarrow> (\<exists>e \<in> set es. \<exists>v. gm_get (en_Fields e) key = Some v \<and> sprint v = target)"
  by (induction es) (auto split: option.split)

lemma level_of_inject: "level_of a = level_of b \<longleftrightarrow> a = b"
  by (cases a; cases b) simp_all

lemma capture_calls:
  "list_all (\<lambda>(lvl, msg, fs). distinct (map fst fs)) calls \<Longrightarrow>
   fold (\<lambda>(lvl, msg, fs). capture_log lvl msg fs) calls l =
   l @ map (\<lambda>(lvl, msg, fs). \<lparr>en_Level = level_of lvl, en_Message = msg, en_Fields = fs\<rparr>) calls"
  by (induction calls arbitrary: l) (auto simp: capture_log_def capture_append_def)

text \<open>
  The capturing logger forgets nothing: after any log calls whose field keys are
  distinct it holds one entry per call, in order. \<open>Contains\<close> finds a text exactly when it
  occurs in the message or in a printed field value of some call, and \<open>ContainsAtLevel\<close>
  when such a call was made at that level.\<close>

theorem capture_complete:
  assumes "list_all (\<lambda>(lvl, msg, fs). distinct (map fst fs)) calls" "substr \<noteq> []"
  shows "let l = fold (\<lambda>(lvl, msg, fs). capture_log lvl msg fs) calls capture_New;
             found = (\<lambda>msg fs. sublist substr msg \<or> (\<exists>(k, v) \<in> set fs. sublist substr (sprint v))) in
      map (\<lambda>e. (en_Level e, en_Message e, en_Fields e)) (Entries l) = map (\<lambda>(lvl, msg, fs). (level_of lvl, msg, fs)) calls \<and>
      (Contains sprint l substr \<longleftrightarrow> (\<exists>(lvl, msg, fs) \<in> set calls. found msg fs)) \<and>
      (ContainsAtLevel sprint l (level_of lvl) substr \<longleftrightarrow> (\<exists>(lvl', msg, fs) \<in> set calls. lvl' = lvl \<and> found msg fs))"
proof -
  have l: "fold (\<lambda>(lvl, msg, fs). capture_log lvl msg fs) calls capture_New =
      map (\<lambda>(lvl, msg, fs). \<lparr>en_Level = level_of lvl, en_Message = msg, en_Fields = fs\<rparr>) calls"
    using capture_calls [OF assms(1)] by (simp add: capture_New_def)
  have "Contains sprint (map (\<lambda>(lvl, msg, fs). \<lparr>en_Level = level_of lvl, en_Message = msg, en_Fields = fs\<rparr>) calls) substr \<longleftrightarrow>
      (\<exists>(lvl, msg, fs) \<in> set calls. sublist substr msg \<or> (\<exists>(k, v) \<in> set fs. sublist substr (sprint v)))"
    using assms(2) by (simp add: Contains_def Entries_def mentions_iff case_prod_beta)
  moreover have "ContainsAtLevel sprint (map (\<lambda>(lvl, msg, fs). \<lparr>en_Level = level_of lvl, en_Message = msg, en_Fields = fs\<rparr>) calls) (level_of lvl) substr \<longleftrightarrow>
      (\<exists>(lvl', msg, fs) \<in> set calls. lvl' = lvl \<and> (sublist substr msg \<or> (\<exists>(k, v) \<in> set fs. sublist substr (sprint v))))"
    using assms(2) by (auto simp: ContainsAtLevel_def EntriesAtLevel_filter mentions_iff case_prod_beta level_of_inject)
  ultimately show ?thesis
    unfolding Let_def l by (simp add: Entries_def case_prod_beta)
qed

theorem capture_complete_witness:
  "Contains (\<lambda>v. case v of FStr s \<Rightarrow> s | _ \<Rightarrow> [])
     (fold (\<lambda>(lvl, msg, fs). capture_log lvl msg fs) [(Info, ''connected'', [(''server'', FStr ''alpha'')])] capture_New) ''alp''"
  using capture_complete [of "[(Info, ''connected'', [(''server'', FStr ''alpha'')])]" "''alp''"
      "\<lambda>v. case v of FStr s \<Rightarrow> s | _ \<Rightarrow> []" Info]
  by (simp add: Let_def sublist_code)

text \<open>A repeated key keeps its last value, as in the Go map, so an earlier value is not searched.\<close>

lemma capture_last_field:
  "gm_get (en_Fields (last (capture_log lvl msg fs l))) k = map_of (rev fs) k"
  by (simp add: capture_log_def capture_append_def go_maps)

lemma ContainsField_iff:
  "ContainsField sprint l key val \<longleftrightarrow>
     (\<exists>e \<in> set l. \<exists>v. gm_get (en_Fields e) key = Some v \<and> sprint v = sprint val)"
  by (simp add: ContainsField_def Entries_def fieldLoop_iff)

end
