(* ===== verification/TestServer.thy ===== *)
theory TestServer
  imports Multiplexer
begin

text \<open>
  The in-process MCP servers of the test suite, \<open>internal/testutil/mcptest\<close>, and the echo
  server of \<open>internal/testutil/dockertarget\<close>, with the part of the vendored MCP server
  library they use: a set of tools by name, listed in pages of 1000 in the order of the
  names. They are servers the multiplexer meets in every test, so this is where the client
  side and the server side are put together: what a server declares is what the multiplexer
  sees, and what a handler answers is what \<open>CallTool\<close> returns.

  A JSON Schema is represented by its JSON form. Waiting for a time or for the end of a
  context, whichever comes first, is the parameter \<open>sleep\<close>, which yields the error of the
  context in the second case.
\<close>

section \<open>Definitions\<close>

subsection \<open>The tools of an MCP server\<close>

type_synonym 'w sdkHandler = "ctx \<Rightarrow> bytes \<Rightarrow> 'w \<Rightarrow> (err + mcp_result) \<times> 'w"
type_synonym 'w sdkTools = "(string, mcp_tool \<times> 'w sdkHandler) gomap"

definition schemaType :: "any \<Rightarrow> string" where
  "schemaType sch =
     (case sch of AObj m \<Rightarrow> (case gm_get m ''type'' of Some (AStr t) \<Rightarrow> t | _ \<Rightarrow> []) | _ \<Rightarrow> [])"

text \<open>\<open>(*Server).AddTool\<close> adds or replaces a tool; it panics on a schema that is no object.\<close>

definition sdk_AddTool :: "mcp_tool \<Rightarrow> 'w sdkHandler \<Rightarrow> 'w sdkTools \<Rightarrow> 'w sdkTools outcome" where
  "sdk_AddTool t h tools =
     (case mt_InputSchema t of
        None \<Rightarrow> Panic
      | Some sch \<Rightarrow> if schemaType sch \<noteq> ''object'' then Panic else Ret (gm_set (mt_Name t) (t, h) tools))"

definition sdk_RemoveTools :: "string \<Rightarrow> 'w sdkTools \<Rightarrow> 'w sdkTools" where
  "sdk_RemoveTools name tools = gm_delete name tools"

definition DefaultPageSize :: nat where
  "DefaultPageSize = 1000"

text \<open>The first page of \<open>tools/list\<close>, and whether there is another one.\<close>

definition sdk_listTools :: "'w sdkTools \<Rightarrow> mcp_tool list \<times> bool" where
  "sdk_listTools tools =
     (let features = map (fst \<circ> snd) (sort_key fst tools)
      in (take DefaultPageSize features, DefaultPageSize < length features))"

definition sdk_callTool :: "'w sdkTools \<Rightarrow> ctx \<Rightarrow> string \<Rightarrow> bytes \<Rightarrow> 'w \<Rightarrow> (err + mcp_result) \<times> 'w" where
  "sdk_callTool tools c name arguments w =
     (case gm_get tools name of
        None \<Rightarrow> (Inl (ErrText (''unknown tool '' @ [CHR 0x22] @ name @ [CHR 0x22])), w)
      | Some (t, h) \<Rightarrow> h c arguments w)"

subsection \<open>The test server\<close>

type_synonym 'w ToolHandler = "ctx \<Rightarrow> args \<Rightarrow> 'w \<Rightarrow> (string \<times> err option) \<times> 'w"

record 'w ToolSpec =
  ts_Name :: string
  ts_Description :: string
  ts_Handler :: "'w ToolHandler option"
  ts_ReadOnly :: "bool option"
  ts_Destructive :: "bool option"
  ts_Idempotent :: "bool option"
  ts_OpenWorld :: "bool option"
  ts_InputSchema :: "any option"

record 'w Server =
  sv_specs :: "'w ToolSpec list"
  sv_delays :: "(string, duration) gomap"
  sv_errors :: "(string, err option) gomap"
  sv_mcpServer :: "'w sdkTools option"
  sv_closeFns :: "session list"

text \<open>\<open>sv_closeFns\<close> holds the client sessions whose \<open>Close\<close> the registered functions call.\<close>

type_synonym 'w ServerOption = "'w Server \<Rightarrow> 'w Server"

definition WithTool :: "'w ToolSpec \<Rightarrow> 'w ServerOption" where
  "WithTool spec s = s\<lparr>sv_specs := sv_specs s @ [spec]\<rparr>"

definition WithToolDelay :: "string \<Rightarrow> duration \<Rightarrow> 'w ServerOption" where
  "WithToolDelay name d s = s\<lparr>sv_delays := gm_set name d (sv_delays s)\<rparr>"

definition WithToolError :: "string \<Rightarrow> err option \<Rightarrow> 'w ServerOption" where
  "WithToolError name e s = s\<lparr>sv_errors := gm_set name e (sv_errors s)\<rparr>"

definition NewServer :: "'w ServerOption list \<Rightarrow> 'w Server" where
  "NewServer opts =
     foldl (\<lambda>s opt. opt s) \<lparr>sv_specs = [], sv_delays = [], sv_errors = [], sv_mcpServer = None, sv_closeFns = []\<rparr> opts"

text \<open>The tool as the server advertises it: annotations only if the spec sets one of them.\<close>

definition specTool :: "'w ToolSpec \<Rightarrow> mcp_tool" where
  "specTool spec =
     \<lparr>mt_Name = ts_Name spec, mt_Description = ts_Description spec,
      mt_InputSchema = (case ts_InputSchema spec of
          None \<Rightarrow> Some (AObj [(''type'', AStr ''object'')]) | Some sch \<Rightarrow> Some sch),
      mt_Annotations =
        (if ts_ReadOnly spec \<noteq> None \<or> ts_Destructive spec \<noteq> None \<or> ts_Idempotent spec \<noteq> None \<or> ts_OpenWorld spec \<noteq> None
         then Some \<lparr>ma_ReadOnlyHint = (case ts_ReadOnly spec of Some b \<Rightarrow> b | None \<Rightarrow> False),
                    ma_DestructiveHint = ts_Destructive spec,
                    ma_IdempotentHint = (case ts_Idempotent spec of Some b \<Rightarrow> b | None \<Rightarrow> False),
                    ma_OpenWorldHint = ts_OpenWorld spec\<rparr>
         else None)\<rparr>"

definition specHandler ::
  "'w rt \<Rightarrow> (ctx \<Rightarrow> duration \<Rightarrow> 'w \<Rightarrow> err option \<times> 'w) \<Rightarrow> duration \<Rightarrow> err option \<Rightarrow> 'w ToolHandler option \<Rightarrow> 'w sdkHandler" where
  "specHandler rt sleep delay forcedErr handler c arguments w =
     (let (ended, w) = (if 0 < delay then sleep c delay w else (None, w)) in
      case ended of
        Some e \<Rightarrow> (Inl e, w)
      | None \<Rightarrow>
          (case forcedErr of
             Some e \<Rightarrow> (Inl e, w)
           | None \<Rightarrow>
               (let args = (if arguments \<noteq> []
                            then (case unmarshalMap rt arguments of Inr a \<Rightarrow> a | Inl _ \<Rightarrow> None) else None);
                    ((text, err), w) = (case handler of Some h \<Rightarrow> h c args w | None \<Rightarrow> (([], None), w))
                in case err of
                     Some e \<Rightarrow> (Inl e, w)
                   | None \<Rightarrow> (Inr \<lparr>mr_Content = [TextContent text], mr_IsError = False\<rparr>, w))))"

definition addTool ::
  "'w rt \<Rightarrow> (ctx \<Rightarrow> duration \<Rightarrow> 'w \<Rightarrow> err option \<times> 'w) \<Rightarrow> 'w Server \<Rightarrow> 'w ToolSpec \<Rightarrow> 'w sdkTools \<Rightarrow> 'w sdkTools outcome" where
  "addTool rt sleep s spec srv =
     sdk_AddTool (specTool spec)
       (specHandler rt sleep
          (case gm_get (sv_delays s) (ts_Name spec) of Some d \<Rightarrow> d | None \<Rightarrow> 0)
          (case gm_get (sv_errors s) (ts_Name spec) of Some e \<Rightarrow> e | None \<Rightarrow> None)
          (ts_Handler spec)) srv"

fun addTools_all ::
  "'w rt \<Rightarrow> (ctx \<Rightarrow> duration \<Rightarrow> 'w \<Rightarrow> err option \<times> 'w) \<Rightarrow> 'w Server \<Rightarrow> 'w ToolSpec list \<Rightarrow> 'w sdkTools \<Rightarrow> 'w sdkTools outcome" where
  "addTools_all rt sleep s [] srv = Ret srv"
| "addTools_all rt sleep s (spec # specs) srv =
     (case addTool rt sleep s spec srv of
        Panic \<Rightarrow> Panic
      | Ret srv \<Rightarrow> addTools_all rt sleep s specs srv)"

definition build ::
  "'w rt \<Rightarrow> (ctx \<Rightarrow> duration \<Rightarrow> 'w \<Rightarrow> err option \<times> 'w) \<Rightarrow> 'w Server \<Rightarrow> 'w sdkTools outcome \<times> 'w Server" where
  "build rt sleep s =
     (case sv_mcpServer s of
        Some srv \<Rightarrow> (Ret srv, s)
      | None \<Rightarrow>
          (case addTools_all rt sleep s (sv_specs s) [] of
             Panic \<Rightarrow> (Panic, s)
           | Ret srv \<Rightarrow> (Ret srv, s\<lparr>sv_mcpServer := Some srv\<rparr>)))"

definition AddLiveTool ::
  "'w rt \<Rightarrow> (ctx \<Rightarrow> duration \<Rightarrow> 'w \<Rightarrow> err option \<times> 'w) \<Rightarrow> 'w ToolSpec \<Rightarrow> 'w Server \<Rightarrow> unit outcome \<times> 'w Server" where
  "AddLiveTool rt sleep spec s =
     (case build rt sleep s of
        (Panic, s) \<Rightarrow> (Panic, s)
      | (Ret srv, s) \<Rightarrow>
          (case addTool rt sleep s spec srv of
             Panic \<Rightarrow> (Panic, s)
           | Ret srv \<Rightarrow> (Ret (), s\<lparr>sv_mcpServer := Some srv\<rparr>)))"

definition RemoveLiveTool ::
  "'w rt \<Rightarrow> (ctx \<Rightarrow> duration \<Rightarrow> 'w \<Rightarrow> err option \<times> 'w) \<Rightarrow> string \<Rightarrow> 'w Server \<Rightarrow> unit outcome \<times> 'w Server" where
  "RemoveLiveTool rt sleep name s =
     (case build rt sleep s of
        (Panic, s) \<Rightarrow> (Panic, s)
      | (Ret srv, s) \<Rightarrow> (Ret (), s\<lparr>sv_mcpServer := Some (sdk_RemoveTools name srv)\<rparr>))"

subsection \<open>Checks and clients\<close>

text \<open>The two errors wrap \<open>ErrToolNotConfigured\<close>.\<close>

datatype unknownTool = DelayAttached string | ErrorAttached string

definition ensureKnown :: "'w Server \<Rightarrow> unknownTool option" where
  "ensureKnown s =
     (let known = map ts_Name (sv_specs s) in
      case find (\<lambda>(n, d). n \<notin> set known) (sv_delays s) of
        Some (n, _) \<Rightarrow> Some (DelayAttached n)
      | None \<Rightarrow>
          (case find (\<lambda>(n, e). n \<notin> set known) (sv_errors s) of
             Some (n, _) \<Rightarrow> Some (ErrorAttached n)
           | None \<Rightarrow> None))"

definition validateOrPanic :: "'w Server \<Rightarrow> unit outcome" where
  "validateOrPanic s = (case ensureKnown s of Some e \<Rightarrow> Panic | None \<Rightarrow> Ret ())"

definition trackClose :: "session \<Rightarrow> 'w Server \<Rightarrow> 'w Server" where
  "trackClose sess s = s\<lparr>sv_closeFns := sv_closeFns s @ [sess]\<rparr>"

text \<open>The errors of \<open>ConnectClient\<close>, each wrapping the one of the library.\<close>

datatype connectFailure = ServerConnect err | ClientConnect err

text \<open>
  Connecting a client to the server over a pair of in-memory transports: \<open>serverConnect\<close>
  and \<open>clientConnect\<close> are the library's, the second yields the session of the client.
\<close>

definition ConnectClient ::
  "'w rt \<Rightarrow> (ctx \<Rightarrow> duration \<Rightarrow> 'w \<Rightarrow> err option \<times> 'w) \<Rightarrow> ('w \<Rightarrow> err option \<times> 'w) \<Rightarrow> ('w \<Rightarrow> (err + session) \<times> 'w) \<Rightarrow>
   'w Server \<Rightarrow> 'w \<Rightarrow> (connectFailure + session) outcome \<times> 'w Server \<times> 'w" where
  "ConnectClient rt sleep serverConnect clientConnect s w =
     (case validateOrPanic s of
        Panic \<Rightarrow> (Panic, s, w)
      | Ret _ \<Rightarrow>
          (case build rt sleep s of
             (Panic, s) \<Rightarrow> (Panic, s, w)
           | (Ret srv, s) \<Rightarrow>
               (case serverConnect w of
                  (Some e, w) \<Rightarrow> (Ret (Inl (ServerConnect e)), s, w)
                | (None, w) \<Rightarrow>
                    (case clientConnect w of
                       (Inl e, w) \<Rightarrow> (Ret (Inl (ClientConnect e)), s, w)
                     | (Inr cs, w) \<Rightarrow> (Ret (Inr cs), trackClose cs s, w)))))"

definition MustConnectClient ::
  "'w rt \<Rightarrow> (ctx \<Rightarrow> duration \<Rightarrow> 'w \<Rightarrow> err option \<times> 'w) \<Rightarrow> ('w \<Rightarrow> err option \<times> 'w) \<Rightarrow> ('w \<Rightarrow> (err + session) \<times> 'w) \<Rightarrow>
   'w Server \<Rightarrow> 'w \<Rightarrow> session outcome \<times> 'w Server \<times> 'w" where
  "MustConnectClient rt sleep serverConnect clientConnect s w =
     (case ConnectClient rt sleep serverConnect clientConnect s w of
        (Ret (Inr cs), s, w) \<Rightarrow> (Ret cs, s, w)
      | (_, s, w) \<Rightarrow> (Panic, s, w))"

text \<open>
  The HTTP adapters: the handlers themselves, \<open>newHandler\<close>, are the library's and serve the
  tools of the one server that was built.
\<close>

definition HTTPHandler ::
  "'w rt \<Rightarrow> (ctx \<Rightarrow> duration \<Rightarrow> 'w \<Rightarrow> err option \<times> 'w) \<Rightarrow> ('w sdkTools \<Rightarrow> 'h) \<Rightarrow> 'w Server \<Rightarrow> 'h outcome \<times> 'w Server" where
  "HTTPHandler rt sleep newStreamableHTTPHandler s =
     (case validateOrPanic s of
        Panic \<Rightarrow> (Panic, s)
      | Ret _ \<Rightarrow>
          (case build rt sleep s of
             (Panic, s) \<Rightarrow> (Panic, s)
           | (Ret srv, s) \<Rightarrow> (Ret (newStreamableHTTPHandler srv), s)))"

definition SSEHandler ::
  "'w rt \<Rightarrow> (ctx \<Rightarrow> duration \<Rightarrow> 'w \<Rightarrow> err option \<times> 'w) \<Rightarrow> ('w sdkTools \<Rightarrow> 'h) \<Rightarrow> 'w Server \<Rightarrow> 'h outcome \<times> 'w Server" where
  "SSEHandler rt sleep newSSEHandler s =
     (case validateOrPanic s of
        Panic \<Rightarrow> (Panic, s)
      | Ret _ \<Rightarrow>
          (case build rt sleep s of
             (Panic, s) \<Rightarrow> (Panic, s)
           | (Ret srv, s) \<Rightarrow> (Ret (newSSEHandler srv), s)))"

text \<open>\<open>(*Server).Close\<close>: every function registered so far is called once.\<close>

fun closeSessions :: "'w rt \<Rightarrow> session list \<Rightarrow> 'w st \<Rightarrow> 'w st" where
  "closeSessions rt [] s = s"
| "closeSessions rt (sess # rest) s = closeSessions rt rest (snd (closeSession rt sess s))"

definition Server_Close :: "'w rt \<Rightarrow> 'w Server \<Rightarrow> 'w st \<Rightarrow> 'w Server \<times> 'w st" where
  "Server_Close rt sv s =
     (let fns = sv_closeFns sv; sv = sv\<lparr>sv_closeFns := []\<rparr> in (sv, closeSessions rt fns s))"

subsection \<open>The echo server\<close>

definition echoTool :: mcp_tool where
  "echoTool = \<lparr>mt_Name = ''echo'', mt_Description = ''echoes msg'',
     mt_InputSchema = Some (AObj [(''type'', AStr ''object'')]), mt_Annotations = None\<rparr>"

definition echoHandler :: "'w rt \<Rightarrow> 'w sdkHandler" where
  "echoHandler rt c arguments w =
     (let args = (if arguments \<noteq> []
                  then (case unmarshalMap rt arguments of Inr a \<Rightarrow> a | Inl _ \<Rightarrow> None) else None);
          msg = (case gm_get (entries args) ''msg'' of Some (AStr v) \<Rightarrow> v | _ \<Rightarrow> ''ok'')
      in (Inr \<lparr>mr_Content = [TextContent msg], mr_IsError = False\<rparr>, w))"

text \<open>\<open>main\<close>: \<open>srvRun\<close> serves the tools until the transport ends; the exit code is returned.\<close>

definition dockertarget_main :: "'w rt \<Rightarrow> ('w sdkTools \<Rightarrow> 'w \<Rightarrow> err option \<times> 'w) \<Rightarrow> 'w \<Rightarrow> nat outcome \<times> 'w" where
  "dockertarget_main rt srvRun w =
     (case sdk_AddTool echoTool (echoHandler rt) [] of
        Panic \<Rightarrow> (Panic, w)
      | Ret srv \<Rightarrow> (case srvRun srv w of (Some e, w) \<Rightarrow> (Ret 1, w) | (None, w) \<Rightarrow> (Ret 0, w)))"

section \<open>What the server declares\<close>

text \<open>A spec as the multiplexer sees it: an unset hint is false, except the destructive one.\<close>

lemma specTool_info:
  "ti_Name (toolInfoOf rt n (specTool spec)) = ts_Name spec"
  "ti_Description (toolInfoOf rt n (specTool spec)) = ts_Description spec"
  "ti_ReadOnly (toolInfoOf rt n (specTool spec)) \<longleftrightarrow> ts_ReadOnly spec = Some True"
  "ti_Destructive (toolInfoOf rt n (specTool spec)) \<longleftrightarrow> ts_Destructive spec \<noteq> Some False"
  "ti_Idempotent (toolInfoOf rt n (specTool spec)) \<longleftrightarrow> ts_Idempotent spec = Some True"
  "ti_OpenWorld (toolInfoOf rt n (specTool spec)) \<longleftrightarrow> ts_OpenWorld spec = Some True"
  by (auto simp: specTool_def toolInfoOf_def zeroToolInfo_def Let_def hint_not_false split: option.splits)

lemma mt_Name_specTool [simp]: "mt_Name (specTool spec) = ts_Name spec"
  by (simp add: specTool_def)

definition spec_ok :: "'w ToolSpec \<Rightarrow> bool" where
  "spec_ok spec \<longleftrightarrow> (case ts_InputSchema spec of None \<Rightarrow> True | Some sch \<Rightarrow> schemaType sch = ''object'')"

definition served ::
  "'w rt \<Rightarrow> (ctx \<Rightarrow> duration \<Rightarrow> 'w \<Rightarrow> err option \<times> 'w) \<Rightarrow> 'w Server \<Rightarrow> 'w ToolSpec \<Rightarrow> string \<times> mcp_tool \<times> 'w sdkHandler" where
  "served rt sleep s spec =
     (ts_Name spec, specTool spec,
      specHandler rt sleep (case gm_get (sv_delays s) (ts_Name spec) of Some d \<Rightarrow> d | None \<Rightarrow> 0)
        (case gm_get (sv_errors s) (ts_Name spec) of Some e \<Rightarrow> e | None \<Rightarrow> None) (ts_Handler spec))"

lemma addTool_ok:
  "spec_ok spec \<Longrightarrow> addTool rt sleep s spec srv = Ret (gm_set (ts_Name spec) (snd (served rt sleep s spec)) srv)"
  by (simp add: addTool_def sdk_AddTool_def specTool_def spec_ok_def served_def schemaType_def split: option.splits)

lemma addTools_all_ok:
  assumes "list_all spec_ok specs" "distinct (map fst srv @ map ts_Name specs)"
  shows "addTools_all rt sleep s specs srv = Ret (srv @ map (served rt sleep s) specs)"
  using assms
proof (induction specs arbitrary: srv)
  case (Cons spec specs)
  then have "gm_set (ts_Name spec) (snd (served rt sleep s spec)) srv = srv @ [served rt sleep s spec]"
    by (subst gm_set_fresh) (auto simp: served_def)
  with Cons show ?case by (simp add: addTool_ok served_def)
qed simp

lemma sort_key_map: "sort_key f (map g xs) = map g (sort_key (f \<circ> g) xs)"
proof -
  have "insort_key f (g x) (map g xs) = map g (insort_key (f \<circ> g) x xs)" for x xs
    by (induction xs) simp_all
  then show ?thesis by (induction xs) simp_all
qed

lemma map_sort_key: "map f (sort_key f xs) = sort (map f xs)"
  using sort_key_map [of "\<lambda>x. x" f xs] by (simp add: comp_def)

lemma build_listing:
  assumes "list_all spec_ok (sv_specs s)" "distinct (map ts_Name (sv_specs s))" "sv_mcpServer s = None"
  obtains srv where "build rt sleep s = (Ret srv, s\<lparr>sv_mcpServer := Some srv\<rparr>)"
    "sdk_listTools srv = (take DefaultPageSize (map specTool (sort_key ts_Name (sv_specs s))), DefaultPageSize < length (sv_specs s))"
    "\<And>spec. spec \<in> set (sv_specs s) \<Longrightarrow> gm_get srv (ts_Name spec) = Some (snd (served rt sleep s spec))"
proof
  let ?srv = "map (served rt sleep s) (sv_specs s)"
  have all: "addTools_all rt sleep s (sv_specs s) [] = Ret ?srv"
    using addTools_all_ok [OF assms(1), of "[]"] assms(2) by simp
  then show "build rt sleep s = (Ret ?srv, s\<lparr>sv_mcpServer := Some ?srv\<rparr>)"
    by (simp add: build_def assms(3))
  have "fst \<circ> served rt sleep s = ts_Name" "fst \<circ> snd \<circ> served rt sleep s = specTool"
    by (auto simp: served_def fun_eq_iff)
  then show "sdk_listTools ?srv = (take DefaultPageSize (map specTool (sort_key ts_Name (sv_specs s))), DefaultPageSize < length (sv_specs s))"
    by (simp add: sdk_listTools_def sort_key_map Let_def)
  fix spec assume "spec \<in> set (sv_specs s)"
  moreover have "distinct (map fst ?srv)" using assms(2) \<open>fst \<circ> served rt sleep s = ts_Name\<close> by simp
  ultimately show "gm_get ?srv (ts_Name spec) = Some (snd (served rt sleep s spec))"
    by (intro map_of_is_SomeI) (force simp: served_def)+
qed


text \<open>
  \<open>fetchTools\<close> reads one page: of a server with more than 1000 tools it registers the
  first 1000 in the order of their names and drops the others, since it does not follow the
  cursor to the next page.\<close>

theorem fetchTools_first_page:
  assumes specs: "list_all spec_ok (sv_specs sv)" "distinct (map ts_Name (sv_specs sv))" "sv_mcpServer sv = None"
    and client: "build rt sleep sv = (Ret srv, sv')" "o_metaEnrichers opts = []"
      "rt_ListTools rt sess c (st_env s) = (Inr (fst (sdk_listTools srv)), w)"
  shows "\<exists>infos. fst (fetchTools rt opts c name sess s) = Inr infos \<and>
    map ti_Name infos = take 1000 (sort (map ts_Name (sv_specs sv))) \<and>
    (snd (sdk_listTools srv) \<longleftrightarrow> length infos < length (sv_specs sv))"
proof -
  obtain srv' where "build rt sleep sv = (Ret srv', sv\<lparr>sv_mcpServer := Some srv'\<rparr>)"
    "sdk_listTools srv' = (take DefaultPageSize (map specTool (sort_key ts_Name (sv_specs sv))), DefaultPageSize < length (sv_specs sv))"
    by (rule build_listing [OF specs])
  with client show ?thesis
    by (auto simp: fetchTools_def Let_def toolInfos_plain DefaultPageSize_def map_sort_key [symmetric] comp_def take_map)
qed

section \<open>Calls\<close>

text \<open>
  A session connected to a server: the client sends the arguments as JSON, an empty object
  if there are none, and returns what the server's handler answers, an error in the form
  \<open>wireErr\<close> that it has after the transport as a JSON-RPC error.
\<close>

definition wire :: "'w rt \<Rightarrow> args option \<Rightarrow> bytes option" where
  "wire rt a = (case a of None \<Rightarrow> rt_marshal rt (AObj []) | Some a \<Rightarrow> marshalMap rt a)"

definition connected :: "'w rt \<Rightarrow> (err \<Rightarrow> err) \<Rightarrow> 'w sdkTools \<Rightarrow> session \<Rightarrow> bool" where
  "connected rt wireErr srv sess \<longleftrightarrow>
     (\<forall>c tool a b w. wire rt a = Some b \<longrightarrow> rt_CallTool rt sess c tool a w =
        (case sdk_callTool srv c tool b w of
           (Inl e, w) \<Rightarrow> ((None, Some (wireErr e)), w) | (Inr r, w) \<Rightarrow> ((Some r, None), w)))"

lemma specHandler_plain:
  "unmarshalMap rt b = Inr a \<Longrightarrow> b \<noteq> [] \<Longrightarrow> h c a w = ((text, None), w') \<Longrightarrow>
   specHandler rt sleep 0 None (Some h) c b w = (Inr \<lparr>mr_Content = [TextContent text], mr_IsError = False\<rparr>, w')"
  by (simp add: specHandler_def)

lemma buildResult_text:
  "buildResult rt (Some \<lparr>mr_Content = [TextContent t], mr_IsError = e\<rparr>) =
   \<lparr>cr_Text = t, cr_Parts = [\<lparr>cp_Kind = ContentText, cp_Text = t, cp_MIMEType = [], cp_Data = None, cp_Raw = None\<rparr>],
    cr_IsError = e\<rparr>"
  by (simp add: buildResult_def)


section \<open>Configuration checks, live changes and Close\<close>

lemma find_known:
  "find (\<lambda>(n, v). n \<notin> set (map ts_Name specs)) m = None \<longleftrightarrow> fst ` set m \<subseteq> ts_Name ` set specs"
  by (force simp: find_None_iff)

lemma validateOrPanic_ok:
  "validateOrPanic s = Ret () \<longleftrightarrow>
     fst ` (set (sv_delays s)) \<union> fst ` (set (sv_errors s)) \<subseteq> ts_Name ` set (sv_specs s)"
  unfolding Un_subset_iff find_known [symmetric]
  by (auto simp: validateOrPanic_def ensureKnown_def Let_def split: option.split)

text \<open>
  A transport adapter panics exactly when a delay or an error was attached to a tool
  that is not registered.\<close>

theorem validateOrPanic_iff:
  "validateOrPanic s = Ret () \<longleftrightarrow>
     fst ` (set (sv_delays s)) \<union> fst ` (set (sv_errors s)) \<subseteq> ts_Name ` set (sv_specs s)"
  by (rule validateOrPanic_ok)

text \<open>
  The adapters of a test server all serve the same tools: after the first one built the
  server, any further adapter, of whatever kind, meets the tools built then, with the live
  changes made meanwhile, and does not build again.\<close>

theorem adapters_share_tools:
  assumes "validateOrPanic s = Ret ()" "build rt sleep s = (Ret srv, s')"
  shows "HTTPHandler rt sleep newHTTP s = (Ret (newHTTP srv), s') \<and> SSEHandler rt sleep newSSE s = (Ret (newSSE srv), s') \<and>
    HTTPHandler rt sleep newHTTP s' = (Ret (newHTTP srv), s') \<and> SSEHandler rt sleep newSSE s' = (Ret (newSSE srv), s') \<and>
    SSEHandler rt sleep newSSE (snd (RemoveLiveTool rt sleep name s')) =
      (Ret (newSSE (gm_delete name srv)), snd (RemoveLiveTool rt sleep name s'))"
proof -
  have s': "sv_mcpServer s' = Some srv"
    using assms(2) by (auto simp: build_def split: option.splits outcome.splits)
  have "sv_delays s' = sv_delays s" "sv_errors s' = sv_errors s" "sv_specs s' = sv_specs s"
    using assms(2) by (auto simp: build_def split: option.splits outcome.splits)
  then have "validateOrPanic s' = Ret ()" "validateOrPanic (s'\<lparr>sv_mcpServer := m\<rparr>) = Ret ()" for m
    using assms(1) by (simp_all add: validateOrPanic_ok)
  with s' assms show ?thesis
    by (simp add: HTTPHandler_def SSEHandler_def RemoveLiveTool_def build_def sdk_RemoveTools_def)
qed

text \<open>
  The echo server advertises one tool, which the multiplexer takes for destructive as it has
  no annotations, and answers a call with its string argument, or with ok if it has none.\<close>

theorem dockertarget_serves:
  "dockertarget_main rt srvRun w =
     (case srvRun [(''echo'', echoTool, echoHandler rt)] w of (Some e, w) \<Rightarrow> (Ret 1, w) | (None, w) \<Rightarrow> (Ret 0, w)) \<and>
   sdk_listTools [(''echo'', echoTool, echoHandler rt)] = ([echoTool], False) \<and>
   ti_Destructive (toolInfoOf rt n echoTool) \<and>
   (b \<noteq> [] \<and> unmarshalMap rt b = Inr (Some m) \<longrightarrow>
     sdk_callTool [(''echo'', echoTool, echoHandler rt)] c ''echo'' b w =
       (Inr \<lparr>mr_Content = [TextContent (case gm_get m ''msg'' of Some (AStr v) \<Rightarrow> v | _ \<Rightarrow> ''ok'')], mr_IsError = False\<rparr>, w))"
proof -
  have "sdk_AddTool echoTool (echoHandler rt) [] = Ret [(''echo'', echoTool, echoHandler rt)]"
    by (simp add: sdk_AddTool_def echoTool_def schemaType_def gm_set_def)
  moreover have "toolInfoOf rt n echoTool = toolInfoOf rt n echoTool \<and> mt_Annotations echoTool = None"
    by (simp add: echoTool_def)
  ultimately show ?thesis
    by (simp add: dockertarget_main_def sdk_listTools_def DefaultPageSize_def sdk_callTool_def echoHandler_def Let_def)
qed

text \<open>A tool added to a running server is listed and served, one that is removed is not.\<close>

lemma AddLiveTool_lists:
  assumes "sv_mcpServer s = Some srv" "spec_ok spec"
  shows "AddLiveTool rt sleep spec s =
    (Ret (), s\<lparr>sv_mcpServer := Some (gm_set (ts_Name spec) (snd (served rt sleep s spec)) srv)\<rparr>)"
  using assms by (simp add: AddLiveTool_def build_def addTool_ok)

lemma RemoveLiveTool_lists:
  assumes "sv_mcpServer s = Some srv"
  shows "RemoveLiveTool rt sleep name s = (Ret (), s\<lparr>sv_mcpServer := Some (gm_delete name srv)\<rparr>)"
  using assms by (simp add: RemoveLiveTool_def build_def sdk_RemoveTools_def)

text \<open>Every tool of a server is stored under its own name.\<close>

definition tools_ok :: "'w sdkTools \<Rightarrow> bool" where
  "tools_ok tools \<longleftrightarrow> gm_ok tools \<and> list_all (\<lambda>(n, t, h). mt_Name t = n) tools"

lemma tools_ok_set: "tools_ok tools \<Longrightarrow> mt_Name t = n \<Longrightarrow> tools_ok (gm_set n (t, h) tools)"
  using set_gm_set [of n "(t, h)" tools] by (fastforce simp: tools_ok_def list_all_iff)

lemma tools_ok_delete: "tools_ok tools \<Longrightarrow> tools_ok (gm_delete n tools)"
  by (auto simp: tools_ok_def list_all_iff gm_delete_def gm_ok_def distinct_delete AList.delete_eq distinct_map_filter)

lemma tools_ok_addTool: "tools_ok srv \<Longrightarrow> addTool rt sleep s spec srv = Ret srv' \<Longrightarrow> tools_ok srv'"
  unfolding addTool_def sdk_AddTool_def
  by (cases "mt_InputSchema (specTool spec)") (auto intro: tools_ok_set split: if_splits)

lemma tools_ok_addTools_all: "tools_ok srv \<Longrightarrow> addTools_all rt sleep s specs srv = Ret srv' \<Longrightarrow> tools_ok srv'"
  by (induction specs arbitrary: srv) (auto intro: tools_ok_addTool split: outcome.splits)

text \<open>
  The tools of a server keep this invariant through the first use and every live change.\<close>

theorem live_changes_keep_names:
  assumes "case sv_mcpServer s of None \<Rightarrow> True | Some srv \<Rightarrow> tools_ok srv"
  shows "(case sv_mcpServer (snd (AddLiveTool rt sleep spec s)) of None \<Rightarrow> True | Some srv \<Rightarrow> tools_ok srv) \<and>
    (case sv_mcpServer (snd (RemoveLiveTool rt sleep name s)) of None \<Rightarrow> True | Some srv \<Rightarrow> tools_ok srv)"
proof (cases "build rt sleep s")
  case (Pair out s')
  have nil: "tools_ok []" by (simp add: tools_ok_def gm_ok_def)
  show ?thesis
  proof (cases out)
    case Panic
    with Pair have "s' = s" by (auto simp: build_def split: option.splits outcome.splits)
    with Pair Panic assms show ?thesis by (simp add: AddLiveTool_def RemoveLiveTool_def)
  next
    case (Ret srv)
    with Pair assms have ok: "tools_ok srv" "sv_mcpServer s' = Some srv"
      using tools_ok_addTools_all [OF nil] by (auto simp: build_def split: option.splits outcome.splits)
    with Pair Ret show ?thesis
      by (cases "addTool rt sleep s' spec srv")
         (simp_all add: AddLiveTool_def RemoveLiveTool_def sdk_RemoveTools_def tools_ok_delete tools_ok_addTool [OF ok(1)])
  qed
qed

lemma find_listed:
  assumes "tools_ok tools"
  shows "find (\<lambda>t. mt_Name t = n) (map (fst \<circ> snd) (sort_key fst tools)) = map_option fst (gm_get tools n)"
proof -
  have gen: "list_all (\<lambda>(n, t, h). mt_Name t = n) xs \<Longrightarrow>
      find (\<lambda>t. mt_Name t = n) (map (fst \<circ> snd) xs) = map_option fst (map_of xs n)" for xs :: "'a sdkTools"
    by (induction xs) auto
  have "distinct (map fst tools)" using assms by (simp add: tools_ok_def gm_ok_def)
  then have "map_of (sort_key fst tools) = map_of tools"
    by (intro map_of_same_set) (simp_all add: map_sort_key)
  with gen [of "sort_key fst tools"] assms show ?thesis
    by (simp add: tools_ok_def list_all_iff)
qed

lemma closeSessions_traced: "traced {KClose} (closeSessions rt fns s) = traced {KClose} s @ map EvClose fns"
  by (induction fns arbitrary: s) (simp_all add: closeSession_traced)

text \<open>
  Closing a test server closes every client connected through it once, in the order
  they were connected; closing it again does nothing.\<close>

theorem Server_Close_once:
  "let (sv', s') = Server_Close rt sv s; (sv'', s'') = Server_Close rt sv' s' in
   traced {KClose} s' = traced {KClose} s @ map EvClose (sv_closeFns sv) \<and> s'' = s' \<and> sv'' = sv'"
  by (simp add: Server_Close_def Let_def closeSessions_traced)

section \<open>A concrete server\<close>

definition ping_spec :: "int ToolSpec" where
  "ping_spec = \<lparr>ts_Name = ''ping'', ts_Description = ''says pong'', ts_Handler = Some (\<lambda>c a w. ((''pong'', None), w)),
     ts_ReadOnly = Some True, ts_Destructive = None, ts_Idempotent = None, ts_OpenWorld = None, ts_InputSchema = None\<rparr>"

definition ping_server :: "int Server" where
  "ping_server = NewServer [WithTool ping_spec]"

definition ping_sleep :: "ctx \<Rightarrow> duration \<Rightarrow> int \<Rightarrow> err option \<times> int" where
  "ping_sleep c d w = (None, w + d)"

definition ping_tools :: "int sdkTools" where
  "ping_tools = map (served demo_rt ping_sleep ping_server) [ping_spec]"

definition ping_rt :: "int rt" where
  "ping_rt = demo_rt\<lparr>
     rt_ListTools := (\<lambda>sess c w. (Inr (fst (sdk_listTools ping_tools)), w)),
     rt_CallTool := (\<lambda>sess c tool a w. case wire demo_rt a of
        None \<Rightarrow> ((None, Some (ErrText ''json'')), w)
      | Some b \<Rightarrow> (case sdk_callTool ping_tools c tool b w of
           (Inl e, w) \<Rightarrow> ((None, Some e), w) | (Inr r, w) \<Rightarrow> ((Some r, None), w)))\<rparr>"

definition ping_entry :: serverEntry where
  "ping_entry = demo_entry\<lparr>se_tools := [toolInfoOf ping_rt ''s'' (specTool ping_spec)]\<rparr>"

definition ping_mx :: "int mx" where
  "ping_mx = (demo_mx (defaultOptions None))\<lparr>mx_servers := [(''s'', ping_entry)]\<rparr>"

lemma ping_same: "wire ping_rt = wire demo_rt" "unmarshalMap ping_rt = unmarshalMap demo_rt"
  "specHandler ping_rt = specHandler demo_rt"
proof -
  have [simp]: "rt_marshal ping_rt = rt_marshal demo_rt" "rt_unmarshal ping_rt = rt_unmarshal demo_rt"
    by (simp_all add: ping_rt_def)
  show "wire ping_rt = wire demo_rt" by (simp add: fun_eq_iff wire_def marshalMap_def split: option.split)
  show u: "unmarshalMap ping_rt = unmarshalMap demo_rt" by (simp add: fun_eq_iff unmarshalMap_def)
  show "specHandler ping_rt = specHandler demo_rt" by (intro ext) (simp only: specHandler_def u)
qed

lemma ping_server_simps: "sv_specs ping_server = [ping_spec]" "sv_mcpServer ping_server = None"
  "sv_delays ping_server = []" "sv_errors ping_server = []" "ts_Name ping_spec = ''ping''" "spec_ok ping_spec"
  by (simp_all add: ping_server_def NewServer_def WithTool_def ping_spec_def spec_ok_def)

lemma ping_build: "build ping_rt ping_sleep ping_server = (Ret ping_tools, ping_server\<lparr>sv_mcpServer := Some ping_tools\<rparr>)"
  using addTools_all_ok [of "[ping_spec]" "[]" ping_rt ping_sleep ping_server]
  by (simp add: build_def ping_server_simps ping_tools_def served_def ping_same)


theorem fetchTools_first_page_witness:
  "\<exists>infos. fst (fetchTools ping_rt (defaultOptions None) ctx_Background ''s'' 7 demo_st) = Inr infos \<and> length infos = 1"
  using fetchTools_first_page [OF _ _ _ ping_build mux_simps(3), of 7 ctx_Background demo_st "st_env demo_st" "''s''"]
  by (force simp: ping_server_simps ping_rt_def dest: arg_cong [where f = length])


end
