(* ===== verification/Results.thy ===== *)
theory Results
  imports Multiplexer
begin

text \<open>
  What a caller may rely on about the results it gets: if the ResultTransform chain ends
  with a hook that establishes a property of results, such as the absence of some pattern,
  every result a caller gets has that property, also one that the built-in cache answers.
\<close>

section \<open>The contents of the cache\<close>

definition cache_holds :: "(CallResult \<Rightarrow> bool) \<Rightarrow> lruCache \<Rightarrow> bool" where
  "cache_holds P c \<longleftrightarrow> lru_ok c \<and> list_all (\<lambda>(k, v, t). P v) (lru_abs c)"

lemma set_alru_get: "set (snd (alru_get now k xs)) \<subseteq> set xs"
  using map_of_SomeD [of xs k] by (auto simp: alru_get_def AList.delete_eq split: option.split)

lemma alru_get_hit: "fst (alru_get now k xs) = Some v \<Longrightarrow> \<exists>t. (k, v, t) \<in> set xs"
  using map_of_SomeD [of xs k] by (auto simp: alru_get_def split: option.splits if_splits)

lemma set_alru_set: "set (alru_set sz now k v ttl xs) \<subseteq> insert (k, v, now + ttl) (set xs)"
  by (auto simp: alru_set_def AList.delete_eq Let_def dest: in_set_butlastD)

lemma cache_holds_Get:
  assumes "cache_holds P c"
  shows "cache_holds P (snd (lru_Get now k c))" "fst (lru_Get now k c) = Some v \<Longrightarrow> P v"
proof -
  have c: "lru_ok c" "\<forall>(k, v, t) \<in> set (lru_abs c). P v" using assms by (auto simp: cache_holds_def list_all_iff)
  show "cache_holds P (snd (lru_Get now k c))"
    using c set_alru_get [of now k "lru_abs c"]
    by (auto simp: cache_holds_def lru_Get_ok lru_Get_refines list_all_iff)
  show "fst (lru_Get now k c) = Some v \<Longrightarrow> P v"
    using c alru_get_hit [of now k "lru_abs c" v] by (auto simp: lru_Get_refines)
qed

lemma cache_holds_Set:
  assumes "cache_holds P c" "P v"
  shows "cache_holds P (lru_Set now k (Some v) ttl c)"
  using assms set_alru_set [of "lc_size c" now k v ttl "lru_abs c"]
  by (auto simp: cache_holds_def lru_Set_ok lru_Set_refines list_all_iff)

lemma cache_holds_new: "0 < sz \<Longrightarrow> cache_holds P (newLRUCache sz)"
  by (simp add: cache_holds_def)

section \<open>Hooks that keep a property\<close>

text \<open>
  No BeforeCall hook answers a call itself, the ResultTransform chain establishes \<open>P\<close>
  whenever it succeeds, and no AfterCall hook destroys it.
\<close>

definition establishes :: "(CallResult \<Rightarrow> bool) \<Rightarrow> 'w mx \<Rightarrow> bool" where
  "establishes P mx \<longleftrightarrow>
     (\<forall>h \<in> set (o_beforeCall (mx_opts mx)). \<forall>c sv t i a w nc r e w'. h c sv t i a w = (Ret (nc, r, e), w') \<longrightarrow> r = None) \<and>
     (\<forall>c sv t i r s r' s'. runTransforms (o_resultTransform (mx_opts mx)) c sv t i r s = (Ret (r', None), s') \<longrightarrow> P r') \<and>
     (\<forall>h \<in> set (o_afterCall (mx_opts mx)). \<forall>c sv t i a r e d w r' w'.
        h c sv t i a (Some r) e d w = (Ret (Some r'), w') \<longrightarrow> P r \<longrightarrow> P r')"

text \<open>A last hook that always establishes \<open>P\<close> makes the whole chain do so.\<close>

lemma runTransforms_append:
  "runTransforms (hooks @ hooks') c server tool info r s =
     (case runTransforms hooks c server tool info r s of
        (Ret (r, None), s) \<Rightarrow> runTransforms hooks' c server tool info r s
      | out \<Rightarrow> out)"
  by (induction hooks arbitrary: r s) (auto simp: Let_def split: prod.split outcome.split option.split)

lemma last_transform:
  assumes "\<And>c sv t i r w r' w'. h c sv t i r w = (Ret (r', None), w') \<Longrightarrow> P r'"
    and "runTransforms (hooks @ [h]) c server tool info r s = (Ret (r', None), s')"
  shows "P r'"
  using assms(2)
  by (auto simp: runTransforms_append Let_def split: prod.splits outcome.splits option.splits dest: assms(1))

section \<open>Through a call\<close>

text \<open>What a call leaves behind: the cache still holds good results, and so does the answer.\<close>

definition good :: "(CallResult \<Rightarrow> bool) \<Rightarrow> 'w call_outcome \<Rightarrow> bool" where
  "good P out \<longleftrightarrow> cache_holds P (st_cache (snd out)) \<and> (\<forall>r e. fst out = Ret (Some r, e) \<longrightarrow> P r)"

lemma runAfterHooks_keeps:
  assumes keep: "\<forall>h \<in> set hooks. \<forall>c sv t i a r e d w r' w'. h c sv t i a (Some r) e d w = (Ret (Some r'), w') \<longrightarrow> P r \<longrightarrow> P r'"
    and "runAfterHooks hooks c server tool info args (Some r) e d s = (Ret (Some r'), s')" "P r"
  shows "P r'"
  using assms
proof (induction hooks arbitrary: r s)
  case (Cons h hooks)
  let ?s = "emit (EvAfter c server tool info args (Some r) e d) s"
  obtain res w where h: "h c server tool info args (Some r) e d (st_env ?s) = (res, w)" by fastforce
  show ?case
  proof (cases res)
    case Panic
    with Cons.prems(2) h show ?thesis by (simp add: Let_def)
  next
    case (Ret res')
    define r1 where "r1 = (case res' of Some r \<Rightarrow> r | None \<Rightarrow> r)"
    have "P r1"
    proof (cases res')
      case (Some r2)
      have "\<forall>c sv t i a r e d w r' w'. h c sv t i a (Some r) e d w = (Ret (Some r'), w') \<longrightarrow> P r \<longrightarrow> P r'"
        using Cons.prems(1) by (meson list.set_intros(1))
      with h Ret Some have "P r \<longrightarrow> P r2" by blast
      with Cons.prems(3) Some show ?thesis by (simp add: r1_def)
    qed (simp add: r1_def Cons.prems(3))
    moreover have "runAfterHooks hooks c server tool info args (Some r1) e d (?s\<lparr>st_env := w\<rparr>) = (Ret (Some r'), s')"
      using Cons.prems(2) h Ret by (cases res') (simp_all add: Let_def r1_def)
    moreover have "\<forall>h \<in> set hooks. \<forall>c sv t i a r e d w r' w'. h c sv t i a (Some r) e d w = (Ret (Some r'), w') \<longrightarrow> P r \<longrightarrow> P r'"
      using Cons.prems(1) by (meson list.set_intros(2))
    ultimately show ?thesis using Cons.IH by blast
  qed
qed simp

lemma runAfterHooks_nil:
  "runAfterHooks hooks c server tool info args None e d s = (Ret r, s') \<Longrightarrow> r = None"
  by (induction hooks arbitrary: s) (auto simp: Let_def split: prod.splits outcome.splits)

lemma good_finish:
  assumes "establishes P mx" "cache_holds P (st_cache s)" "\<And>r. result = Some r \<Longrightarrow> e = None \<Longrightarrow> P r"
  shows "good P (finish mx c server tool info args result e d s)"
    and "good P (finishRecorded rt mx c server tool info args result e d rd s)"
proof -
  obtain res s' where run: "runAfterHooks (o_afterCall (mx_opts mx)) c server tool info args result e d s = (res, s')"
    by fastforce
  have keep: "\<forall>h \<in> set (o_afterCall (mx_opts mx)). \<forall>c sv t i a r e d w r' w'.
      h c sv t i a (Some r) e d w = (Ret (Some r'), w') \<longrightarrow> P r \<longrightarrow> P r'"
    using assms(1) unfolding establishes_def by blast
  have "P r" if "res = Ret (Some r)" "e = None" for r
  proof (cases result)
    case (Some r0)
    with assms(3) that have "P r0" by simp
    with runAfterHooks_keeps [OF keep] run Some that show ?thesis by blast
  qed (use run that runAfterHooks_nil in blast)
  moreover have "cache_holds P (st_cache s')"
    using runAfterHooks_state [OF run] assms(2) by simp
  ultimately show
    "good P (finish mx c server tool info args result e d s)"
    "good P (finishRecorded rt mx c server tool info args result e d rd s)"
    using run by (auto simp: good_def finish_def finishRecorded_def runAfterCall_def Let_def split: outcome.split)
qed

text \<open>The stages that do not touch the cache.\<close>

lemma st_cache_frame [simp]:
  "st_cache (fireRejected mx c server tool reason e s) = st_cache s"
  "st_cache (log_at opts lvl msg fs s) = st_cache s"
  "st_cache (logCall mx server tool arguments s) = st_cache s"
  "st_cache (warnScope mx c s) = st_cache s"
  by (simp_all add: fireRejected_def log_at_def logCall_def warnScope_def Let_def case_prod_beta split: option.split)

lemma runBefore_cache:
  "runBefore hooks c server tool info args s = (res, s') \<Longrightarrow> st_cache s' = st_cache s"
  by (induction hooks arbitrary: c s) (fastforce simp: Let_def split: prod.splits outcome.splits option.splits)+

lemma runTransforms_cache:
  "runTransforms hooks c server tool info r s = (res, s') \<Longrightarrow> st_cache s' = st_cache s"
  by (induction hooks arbitrary: r s) (fastforce simp: Let_def split: prod.splits outcome.splits option.splits)+

lemma runBefore_no_short:
  assumes "\<forall>h \<in> set hooks. \<forall>c sv t i a w nc r e w'. h c sv t i a w = (Ret (nc, r, e), w') \<longrightarrow> r = None"
  shows "runBefore hooks c server tool info args s \<noteq> (Ret (BShort c' r), s')"
  using assms
proof (induction hooks arbitrary: c s)
  case (Cons h hooks)
  let ?s = "emit (EvBefore c server tool info args) s"
  have IH: "runBefore hooks c0 server tool info args s0 \<noteq> (Ret (BShort c' r), s')" for c0 s0
    using Cons.IH Cons.prems by (meson list.set_intros(2))
  have "h c server tool info args w \<noteq> (Ret (nc, Some r, e), w')" for w nc e w'
    using Cons.prems by (metis list.set_intros(1) option.distinct(1))
  with IH show ?case
    by (auto simp: Let_def split: prod.split outcome.split option.split)
qed simp

text \<open>The two stages that do.\<close>

lemma good_cacheLookup:
  assumes "cache_holds P (st_cache s)" "o_cache (mx_opts mx) = None"
    and "cacheLookup rt mx c server tool info fa s = (res, s')"
  shows "cache_holds P (st_cache s')" and "res = Some r \<Longrightarrow> P r"
proof -
  have "cache_holds P (st_cache s') \<and> (\<forall>r. res = Some r \<longrightarrow> P r)"
    using assms cache_holds_Get [of P "st_cache s"]
    by (auto simp: cacheLookup_def cacheGet_def activeCache_def Let_def case_prod_beta split: if_splits)
  then show "cache_holds P (st_cache s')" and "res = Some r \<Longrightarrow> P r" by auto
qed

lemma good_cacheStore:
  assumes "cache_holds P (st_cache s)" "o_cache (mx_opts mx) = None" "P r"
  shows "cache_holds P (st_cache (cacheStore rt mx c server tool info fa r s))"
  using assms cache_holds_Set [OF assms(1,3)]
  by (auto simp: cacheStore_def cacheSet_def activeCache_def Let_def case_prod_beta split: if_splits option.split)

lemma good_panic [simp]: "good P (Panic, s) \<longleftrightarrow> cache_holds P (st_cache s)"
  by (simp add: good_def)

lemma good_rejectCall:
  assumes "establishes P mx" "cache_holds P (st_cache s)"
  shows "good P (rejectCall rt mx c server tool info args reason e start s)"
  unfolding rejectCall_def Let_def by (rule good_finish(2) [OF assms(1)]) (simp_all add: assms(2))

lemma good_afterUpstream:
  assumes "establishes P mx" "cache_holds P (st_cache s)" "o_cache (mx_opts mx) = None"
  shows "good P (afterUpstream rt mx c server tool info fa r d s)"
proof -
  obtain res s' where run: "runTransforms (o_resultTransform (mx_opts mx)) c server tool info r s = (res, s')"
    by fastforce
  have held: "cache_holds P (st_cache s')" using runTransforms_cache [OF run] assms(2) by simp
  have ok: "P r'" if "res = Ret (r', None)" for r'
    using assms(1) run that unfolding establishes_def by blast
  show ?thesis
  proof (cases res)
    case (Ret out)
    obtain r' e where out: "out = (r', e)" by fastforce
    show ?thesis
      using run Ret out ok held assms(1) good_cacheStore [OF held assms(3)]
      by (cases e) (auto simp: afterUpstream_def Let_def intro!: good_finish(2))
  qed (simp add: afterUpstream_def run held)
qed

lemma good_upstream:
  assumes "establishes P mx" "cache_holds P (st_cache s)" "o_cache (mx_opts mx) = None"
  shows "good P (upstream rt mx entry c server tool info arguments fa start s)"
  using assms(2)
  by (auto simp: upstream_def Let_def split: option.split prod.split
        intro!: good_finish(2) [OF assms(1)] good_afterUpstream [OF assms(1) _ assms(3)])

lemma good_dispatch:
  assumes "establishes P mx" "cache_holds P (st_cache s)" "o_cache (mx_opts mx) = None"
  shows "good P (dispatch rt mx entry c server tool info arguments fa start s)"
proof -
  obtain res s' where run: "cacheLookup rt mx c server tool info fa s = (res, s')" by fastforce
  note looked = good_cacheLookup [OF assms(2,3) run]
  show ?thesis
    using run looked assms
    by (cases res) (auto simp: dispatch_def intro!: good_finish(1) good_upstream)
qed

lemma good_afterArgs:
  assumes "establishes P mx" "cache_holds P (st_cache s)" "o_cache (mx_opts mx) = None"
  shows "good P (afterArgs rt mx entry c server tool info arguments fa start s)"
proof -
  obtain res s' where run: "runBefore (o_beforeCall (mx_opts mx)) c server tool info fa s = (res, s')" by fastforce
  have held: "cache_holds P (st_cache s')" using runBefore_cache [OF run] assms(2) by simp
  have "\<forall>h \<in> set (o_beforeCall (mx_opts mx)). \<forall>c sv t i a w nc r e w'. h c sv t i a w = (Ret (nc, r, e), w') \<longrightarrow> r = None"
    using assms(1) unfolding establishes_def by (rule conjunct1)
  then have no_short: "res \<noteq> Ret (BShort c' r)" for c' r
    using runBefore_no_short [where hooks = "o_beforeCall (mx_opts mx)"] run by metis
  show ?thesis
  proof (cases res)
    case (Ret b)
    then show ?thesis
      using run no_short held assms
      by (cases b) (auto simp: afterArgs_def Let_def intro!: good_finish(1) good_dispatch)
  qed (simp add: afterArgs_def run held)
qed

lemma good_CallTool:
  assumes "establishes P mx" "cache_holds P (st_cache s)" "o_cache (mx_opts mx) = None"
  shows "good P (CallTool rt mx c server tool args s)"
  using assms
  by (auto simp: CallTool_def Let_def good_rejectCall good_afterArgs split: option.split sum.split)

section \<open>The cache and the life of a multiplexer\<close>

text \<open>\<open>New\<close> touches the cache only to create it.\<close>

lemma connect_cache: "connect rt opts c sc ch s = (res, s') \<Longrightarrow> st_cache s' = st_cache s"
  by (auto simp: connect_def fetchTools_def closeSession_def safeRecordToolList_def Let_def
      split: sum.splits prod.splits option.splits)

lemma connectOne_cache: "st_cache (snd (snd (connectOne rt opts c sc acc))) = st_cache (snd (snd acc))"
  by (auto simp: connectOne_def fireOnConnect_def Let_def split: prod.split sum.split option.split dest: connect_cache)

lemma connectAll_cache: "st_cache (snd (snd (connectAll rt opts c scs acc))) = st_cache (snd (snd acc))"
  by (induction scs arbitrary: acc) (simp_all add: connectOne_cache)

lemma New_cache:
  assumes "New rt bi sched c cfg opts s = (Inr (mx, gs), s')" "o_cache (applyOptions bi opts) = None"
    "\<not> o_cacheDisabled (applyOptions bi opts)"
  shows "st_cache s' = newLRUCache (o_cacheSize (applyOptions bi opts))"
proof -
  let ?acc = "([], [], s\<lparr>st_cache := newLRUCache (o_cacheSize (applyOptions bi opts)), st_scopeWarned := False, st_ttlWarned := []\<rparr>)"
  from assms have "s' = snd (snd (connectAll rt (applyOptions bi opts) c (sched (map (kindDefaults cfg) (mc_Servers cfg))) ?acc))"
    by (auto simp: New_def Let_def split: option.splits prod.splits)
  then show ?thesis by (simp add: connectAll_cache)
qed

lemma New_opts: "New rt bi sched c cfg opts s = (Inr (mx, gs), s') \<Longrightarrow> mx_opts mx = applyOptions bi opts"
  by (auto simp: New_def Let_def split: option.splits prod.splits)

section \<open>Sequences of calls\<close>

text \<open>
  The calls a program makes one after the other, with what each of them returned. Between
  two calls the background goroutines may have changed the entries of the servers and the
  world outside, so each call comes with the multiplexer and the world as it finds them.
\<close>

fun call_results ::
  "'w rt \<Rightarrow> ('w mx \<times> 'w \<times> ctx \<times> string \<times> string \<times> bytes) list \<Rightarrow> 'w st \<Rightarrow>
   (CallResult option \<times> err option) outcome list" where
  "call_results rt [] s = []"
| "call_results rt ((mx, w, c, server, tool, args) # calls) s =
     (let (out, s) = CallTool rt mx c server tool args (s\<lparr>st_env := w\<rparr>)
      in out # call_results rt calls s)"

lemma good_calls:
  assumes "\<forall>(mx, _) \<in> set calls. establishes P mx \<and> o_cache (mx_opts mx) = None"
    and "cache_holds P (st_cache s)" "Ret (Some r, e) \<in> set (call_results rt calls s)"
  shows "P r"
  using assms
proof (induction rt calls s rule: call_results.induct)
  case (2 rt mx w c server tool args calls s)
  obtain out s1 where one: "CallTool rt mx c server tool args (s\<lparr>st_env := w\<rparr>) = (out, s1)" by fastforce
  have "good P (out, s1)"
    using good_CallTool [of P mx "s\<lparr>st_env := w\<rparr>" rt c server tool args] 2(2,3) one by simp
  then have here: "cache_holds P (st_cache s1)" "out = Ret (Some r, e) \<Longrightarrow> P r"
    by (auto simp: good_def)
  have more: "Ret (Some r, e) \<in> set (call_results rt calls s1) \<Longrightarrow> P r"
    using 2(1) [OF one [symmetric] refl] 2(2) here(1) by auto
  show ?case using 2(4) one here(2) more by (auto simp: Let_def)
qed simp

text \<open>
  The cache is no way around the ResultTransform hooks: if the transforms of a multiplexer
  with the built-in cache end with one that establishes a property of results whenever it
  succeeds, no BeforeCall hook answers calls itself and no AfterCall hook destroys the
  property, then every result of every call has it, in any sequence of calls that starts
  with an empty cache, whatever the servers return and the entries become meanwhile.\<close>

theorem results_transformed:
  assumes "\<And>c sv t i r w r' w'. h c sv t i r w = (Ret (r', None), w') \<Longrightarrow> P r'"
    and "\<forall>(mx, _) \<in> set calls. mx_opts mx = opts" and "o_resultTransform opts = hooks @ [h]" "o_cache opts = None"
    and "\<forall>b \<in> set (o_beforeCall opts). \<forall>c sv t i a w nc r e w'. b c sv t i a w = (Ret (nc, r, e), w') \<longrightarrow> r = None"
    and "\<forall>a \<in> set (o_afterCall opts). \<forall>c sv t i args r e d w r' w'.
           a c sv t i args (Some r) e d w = (Ret (Some r'), w') \<longrightarrow> P r \<longrightarrow> P r'"
    and "st_cache s = newLRUCache sz" "0 < sz" "Ret (Some r, e) \<in> set (call_results rt calls s)"
  shows "P r"
proof -
  have chain: "P r'" if "runTransforms (hooks @ [h]) c sv t i r s = (Ret (r', None), s')" for c sv t i r s r' s'
    using that by (rule last_transform [rotated]) (erule assms(1))
  have "establishes P mx" if "mx_opts mx = opts" for mx :: "'a mx"
    unfolding establishes_def that assms(3) using assms(5,6) by (intro conjI allI impI chain)
  with assms(2,4) have "\<forall>(mx, _) \<in> set calls. establishes P mx \<and> o_cache (mx_opts mx) = None"
    by fastforce
  from good_calls [OF this _ assms(9)] show ?thesis by (simp add: assms(7,8) cache_holds_new)
qed

section \<open>A concrete transform\<close>

text \<open>A transform that hides every text.\<close>

definition hide :: "'w ResultTransformHook" where
  "hide c server tool info r w = (Ret (r\<lparr>cr_Text := ''***''\<rparr>, None), w)"

definition hidden :: "int options" where
  "hidden = (defaultOptions None)\<lparr>o_resultTransform := [hide]\<rparr>"

definition hidden_calls :: "(int mx \<times> int \<times> ctx \<times> string \<times> string \<times> bytes) list" where
  "hidden_calls = map (\<lambda>w. (demo_mx hidden, w, ctx_Background, ''s'', ''echo'', [])) [100]"

theorem results_transformed_witness:
  "call_results demo_rt hidden_calls demo_st = replicate 1 (Ret (Some (demo_answer\<lparr>cr_Text := ''***''\<rparr>), None)) \<and>
   cr_Text (demo_answer\<lparr>cr_Text := ''***''\<rparr>) = ''***''"
proof -
  have outs: "call_results demo_rt hidden_calls demo_st = replicate 1 (Ret (Some (demo_answer\<lparr>cr_Text := ''***''\<rparr>), None))"
    by code_simp
  have "o_resultTransform hidden = [] @ [hide]" "o_cache hidden = None" "o_beforeCall hidden = []" "o_afterCall hidden = []"
    "st_cache demo_st = newLRUCache 2" "\<forall>(mx, _) \<in> set hidden_calls. mx_opts mx = hidden"
    by (simp_all add: hidden_def defaultOptions_def demo_st_def hidden_calls_def demo_find)
  with results_transformed [of hide "\<lambda>r. cr_Text r = ''***''" hidden_calls hidden "[]" demo_st 2
      "demo_answer\<lparr>cr_Text := ''***''\<rparr>" None demo_rt] outs
  show ?thesis by (simp add: hide_def eval_nat_numeral)
qed

end
