(* ===== verification/Concurrent.thy ===== *)
theory Concurrent
  imports Results Recovery Policy
begin

text \<open>
  Calls that run at the same time. \<open>CallTool\<close> is split here where other goroutines can
  run: before every lock section, every callback and every call to a server. A call in
  progress is a program counter that carries the variables still in use, the snapshot of the
  entry among them. The steps of any number of calls interleave with each other and with the
  goroutines of the multiplexer. Run without interruption the steps are \<open>CallTool\<close>. A lock
  makes a section one step; that a call may have to wait for a lock is not modelled, and
  nothing is claimed here about how long it waits.
\<close>

section \<open>Definitions\<close>

subsection \<open>Program counters of a call\<close>

text \<open>The variables that live through a call.\<close>

record frame =
  fr_ctx :: ctx
  fr_server :: string
  fr_tool :: string
  fr_info :: ToolInfo
  fr_args :: bytes
  fr_start :: gotime

text \<open>Whether \<open>RecordCall\<close> follows the AfterCall hooks, and with which duration.\<close>

datatype recording = NoRecord | RecordSince | RecordDur

datatype 'w callPc =
    CEnter ctx string string bytes
  | CReject frame RejectReason err recording
  | CLog frame serverEntry "args option"
  | CBefore frame serverEntry "args option" "'w BeforeCallHook list"
  | CWarn frame serverEntry "args option"
  | CGet frame serverEntry "args option"
  | CUpstream frame serverEntry "args option"
  | CFailed frame err duration
  | CTransform frame CallResult duration "'w ResultTransformHook list"
  | CTTL frame CallResult duration
  | CSet frame CallResult duration duration
  | CAfter frame "CallResult option" "err option" duration recording "'w AfterCallHook list"
  | CDone "(CallResult option \<times> err option) outcome"

subsection \<open>Steps of a call\<close>

text \<open>The lookup under the locks, and the arguments, which no other goroutine can see.\<close>

definition enterStep ::
  "'w rt \<Rightarrow> 'w mx \<Rightarrow> ctx \<Rightarrow> string \<Rightarrow> string \<Rightarrow> bytes \<Rightarrow> gotime \<Rightarrow> 'w callPc" where
  "enterStep rt mx c server tool args start =
     (let fr = (\<lambda>info args. \<lparr>fr_ctx = c, fr_server = server, fr_tool = tool, fr_info = info, fr_args = args, fr_start = start\<rparr>) in
      case gm_get (mx_servers mx) server of
        None \<Rightarrow> CReject (fr zeroToolInfo args) RejectUnknownServer (UnknownServer server (ServerNames mx)) RecordSince
      | Some entry \<Rightarrow>
          (case find (\<lambda>ti. ti_Name ti = tool) (se_tools entry) of
             None \<Rightarrow> CReject (fr zeroToolInfo args) RejectUnknownTool (UnknownTool tool server) RecordSince
           | Some info \<Rightarrow>
               (if se_state entry = ServerStateDown
                then CReject (fr info args) RejectServerDown (DownServer server) RecordSince
                else (case prepareArgs rt mx entry args of
                        Inl e \<Rightarrow> CReject (fr info args) RejectInvalidArgs e RecordSince
                      | Inr (arguments, finalArgs) \<Rightarrow> CLog (fr info finalArgs) entry arguments))))"

definition upstreamStep ::
  "'w rt \<Rightarrow> 'w mx \<Rightarrow> frame \<Rightarrow> serverEntry \<Rightarrow> args option \<Rightarrow> 'w st \<Rightarrow> 'w callPc \<times> 'w st" where
  "upstreamStep rt mx fr entry arguments s =
     (let timeout = effectiveTimeout (sc_CallTimeout (se_config entry)) (o_callTimeout (mx_opts mx));
          callCtx = ctx_WithTimeout (fr_ctx fr) (rt_now rt (st_env s)) timeout
      in case se_session entry of
           None \<Rightarrow> (CDone Panic, s)
         | Some sess \<Rightarrow>
             (let s = emit (EvUpstream sess callCtx (fr_tool fr) arguments) s;
                  ((rawResult, callErr), w) = rt_CallTool rt sess callCtx (fr_tool fr) arguments (st_env s);
                  s = s\<lparr>st_env := w\<rparr>;
                  dur = since rt (fr_start fr) s
              in case callErr of
                   Some e \<Rightarrow>
                     (CFailed fr (if rt_ctxErr rt callCtx (st_env s) = Some DeadlineExceeded
                                  then CallTimeoutErr (fr_server fr) (fr_tool fr) timeout else ServerErr (fr_server fr) e) dur, s)
                 | None \<Rightarrow> (CTransform fr (buildResult rt rawResult) dur (o_resultTransform (mx_opts mx)), s)))"

text \<open>\<open>safeRecordCall\<close>, on the paths that have it.\<close>

definition recordStep ::
  "'w rt \<Rightarrow> 'w mx \<Rightarrow> frame \<Rightarrow> err option \<Rightarrow> duration \<Rightarrow> recording \<Rightarrow> 'w st \<Rightarrow> 'w st" where
  "recordStep rt mx fr callErr dur rc s =
     (case rc of NoRecord \<Rightarrow> s
      | RecordSince \<Rightarrow> safeRecordCall (o_metrics (mx_opts mx)) (fr_server fr) (fr_tool fr) (since rt (fr_start fr) s) callErr s
      | RecordDur \<Rightarrow> safeRecordCall (o_metrics (mx_opts mx)) (fr_server fr) (fr_tool fr) dur callErr s)"

fun callStep :: "'w rt \<Rightarrow> 'w mx \<Rightarrow> 'w callPc \<Rightarrow> 'w st \<Rightarrow> 'w callPc \<times> 'w st" where
  "callStep rt mx (CEnter c server tool args) s = (enterStep rt mx c server tool args (rt_now rt (st_env s)), s)"
| "callStep rt mx (CReject fr reason e rc) s =
     (let s = fireRejected mx (fr_ctx fr) (fr_server fr) (fr_tool fr) reason e s
      in (CAfter fr None (Some e) (since rt (fr_start fr) s) rc (o_afterCall (mx_opts mx)), s))"
| "callStep rt mx (CLog fr entry arguments) s =
     (let s = logCall mx (fr_server fr) (fr_tool fr) arguments s;
          errs = schemaErrors rt mx (fr_info fr) (fr_args fr)
      in (if errs \<noteq> [] then CReject fr RejectInvalidArgs (ErrInvalidArgs [] errs) RecordSince
          else CBefore fr entry arguments (o_beforeCall (mx_opts mx)), s))"
| "callStep rt mx (CBefore fr entry arguments []) s = (CWarn fr entry arguments, s)"
| "callStep rt mx (CBefore fr entry arguments (hook # hooks)) s =
     (let s = emit (EvBefore (fr_ctx fr) (fr_server fr) (fr_tool fr) (fr_info fr) (fr_args fr)) s;
          (res, w) = hook (fr_ctx fr) (fr_server fr) (fr_tool fr) (fr_info fr) (fr_args fr) (st_env s);
          s = s\<lparr>st_env := w\<rparr>
      in case res of
           Panic \<Rightarrow> (CDone Panic, s)
         | Ret (newCtx, shortResult, err) \<Rightarrow>
             (case err of
                Some e \<Rightarrow> (CReject fr RejectBeforeHookAbort e NoRecord, s)
              | None \<Rightarrow>
                  (case shortResult of
                     Some r \<Rightarrow> (CAfter fr (Some r) None (since rt (fr_start fr) s) NoRecord (o_afterCall (mx_opts mx)), s)
                   | None \<Rightarrow>
                       (CBefore (fr\<lparr>fr_ctx := (case newCtx of Some c' \<Rightarrow> c' | None \<Rightarrow> fr_ctx fr)\<rparr>) entry arguments hooks, s))))"
| "callStep rt mx (CWarn fr entry arguments) s =
     (if cacheActive mx (fr_info fr) then (CGet fr entry arguments, warnScope mx (fr_ctx fr) s)
      else (CUpstream fr entry arguments, s))"
| "callStep rt mx (CGet fr entry arguments) s =
     (case cacheGet rt (activeCache mx) (fr_ctx fr)
             (cacheKeyOf rt mx (fr_ctx fr) (fr_server fr) (fr_tool fr) (fr_args fr)) s of
        (Some cached, s) \<Rightarrow>
          (CAfter (fr\<lparr>fr_ctx := markCacheHit (fr_ctx fr)\<rparr>) (Some cached) None (since rt (fr_start fr) s) NoRecord
             (o_afterCall (mx_opts mx)), s)
      | (None, s) \<Rightarrow> (CUpstream fr entry arguments, s))"
| "callStep rt mx (CUpstream fr entry arguments) s = upstreamStep rt mx fr entry arguments s"
| "callStep rt mx (CFailed fr e dur) s =
     (CAfter fr None (Some e) dur RecordDur (o_afterCall (mx_opts mx)),
      log_at (mx_opts mx) Error ''mcpx: call failed''
        [F ''server'' (FStr (fr_server fr)), F ''tool'' (FStr (fr_tool fr)), F ''error'' (FErr e)] s)"
| "callStep rt mx (CTransform fr result dur []) s = (CTTL fr result dur, s)"
| "callStep rt mx (CTransform fr result dur (hook # hooks)) s =
     (let s = emit (EvTransform (fr_ctx fr) (fr_server fr) (fr_tool fr) (fr_info fr) result) s;
          (res, w) = hook (fr_ctx fr) (fr_server fr) (fr_tool fr) (fr_info fr) result (st_env s);
          s = s\<lparr>st_env := w\<rparr>
      in case res of
           Panic \<Rightarrow> (CDone Panic, s)
         | Ret (result, Some e) \<Rightarrow> (CAfter fr (Some result) (Some e) dur RecordDur (o_afterCall (mx_opts mx)), s)
         | Ret (result, None) \<Rightarrow> (CTransform fr result dur hooks, s))"
| "callStep rt mx (CTTL fr result dur) s =
     (if cacheActive mx (fr_info fr) \<and> \<not> cr_IsError result then
        (let (ttl, warned, warning) = toolTTL (rt_ParseDuration rt) (fr_info fr) (o_cacheTTL (mx_opts mx)) (st_ttlWarned s);
             s = s\<lparr>st_ttlWarned := warned\<rparr>;
             s = (case warning of None \<Rightarrow> s
                  | Some fs \<Rightarrow> log_at (mx_opts mx) Warn ''mcpx: invalid cache_ttl, using default'' fs s)
         in (CSet fr result dur ttl, s))
      else (CAfter fr (Some result) None dur RecordDur (o_afterCall (mx_opts mx)), s))"
| "callStep rt mx (CSet fr result dur ttl) s =
     (CAfter fr (Some result) None dur RecordDur (o_afterCall (mx_opts mx)),
      cacheSet rt (activeCache mx) (fr_ctx fr)
        (cacheKeyOf rt mx (fr_ctx fr) (fr_server fr) (fr_tool fr) (fr_args fr)) result ttl s)"
| "callStep rt mx (CAfter fr result callErr dur rc []) s =
     (CDone (Ret (if callErr = None then result else None, callErr)), recordStep rt mx fr callErr dur rc s)"
| "callStep rt mx (CAfter fr result callErr dur rc (hook # hooks)) s =
     (let s = emit (EvAfter (fr_ctx fr) (fr_server fr) (fr_tool fr) (fr_info fr) (fr_args fr) result callErr dur) s;
          (res, w) = hook (fr_ctx fr) (fr_server fr) (fr_tool fr) (fr_info fr) (fr_args fr) result callErr dur (st_env s);
          s = s\<lparr>st_env := w\<rparr>
      in case res of
           Panic \<Rightarrow> (CDone Panic, s)
         | Ret result' \<Rightarrow>
             (CAfter fr (case (result, result') of (Some _, Some r) \<Rightarrow> Some r | _ \<Rightarrow> result) callErr dur rc hooks, s))"
| "callStep rt mx (CDone out) s = (CDone out, s)"

subsection \<open>Calls and goroutines together\<close>

text \<open>
  The goroutines take their steps as before; what the rest of the program does may change
  the world, but neither the cache nor the log of the calls that were sent. A call may
  arrive at any time.
\<close>

definition undisturbed :: "'w st \<Rightarrow> 'w st \<Rightarrow> bool" where
  "undisturbed s s' \<longleftrightarrow> st_cache s' = st_cache s \<and> traced {KUpstream} s' = traced {KUpstream} s"

inductive joint_step :: "'w rt \<Rightarrow> ctx \<Rightarrow> 'w sys \<times> 'w callPc list \<Rightarrow> 'w sys \<times> 'w callPc list \<Rightarrow> bool" for rt c where
  background: "sys_step rt c y y' \<Longrightarrow> undisturbed (sy_st y) (sy_st y') \<Longrightarrow> joint_step rt c (y, pcs) (y', pcs)"
| arrives: "joint_step rt c (y, pcs) (y, pcs @ [CEnter c' server tool args])"
| advances: "i < length pcs \<Longrightarrow> callStep rt (sy_mx y) (pcs ! i) (sy_st y) = (pc', s') \<Longrightarrow>
     joint_step rt c (y, pcs) (y\<lparr>sy_st := s'\<rparr>, pcs[i := pc'])"

inductive_cases joint_stepE: "joint_step rt c (y, pcs) q"

section \<open>The steps are CallTool\<close>

definition solo :: "'w rt \<Rightarrow> 'w mx \<Rightarrow> 'w callPc \<times> 'w st \<Rightarrow> 'w callPc \<times> 'w st" where
  "solo rt mx p = callStep rt mx (fst p) (snd p)"

definition ends :: "'w rt \<Rightarrow> 'w mx \<Rightarrow> 'w callPc \<Rightarrow> 'w st \<Rightarrow> 'w call_outcome \<Rightarrow> bool" where
  "ends rt mx pc s out \<longleftrightarrow> (\<exists>n. (solo rt mx ^^ n) (pc, s) = (CDone (fst out), snd out))"

lemma ends_done: "ends rt mx (CDone out) s (out, s)"
  unfolding ends_def by (rule exI [of _ 0]) simp

lemma ends_step: "callStep rt mx pc s = (pc', s') \<Longrightarrow> ends rt mx pc' s' out \<Longrightarrow> ends rt mx pc s out"
  unfolding ends_def
proof (elim exE)
  fix n assume "callStep rt mx pc s = (pc', s')" "(solo rt mx ^^ n) (pc', s') = (CDone (fst out), snd out)"
  then have "(solo rt mx ^^ Suc n) (pc, s) = (CDone (fst out), snd out)"
    by (simp add: funpow_swap1 solo_def)
  then show "\<exists>n. (solo rt mx ^^ n) (pc, s) = (CDone (fst out), snd out)" ..
qed

text \<open>Each stage, run to the end of the call.\<close>

lemma ends_after_hooks:
  "ends rt mx (CAfter fr r e d rc hooks) s
     (case runAfterHooks hooks (fr_ctx fr) (fr_server fr) (fr_tool fr) (fr_info fr) (fr_args fr) r e d s of
        (Panic, s) \<Rightarrow> (Panic, s)
      | (Ret r, s) \<Rightarrow> (Ret (if e = None then r else None, e), recordStep rt mx fr e d rc s))"
proof (induction hooks arbitrary: r s)
  case Nil
  from ends_step [OF callStep.simps(14) ends_done, of rt mx fr r e d rc s] show ?case by simp
next
  case (Cons h hooks)
  let ?s = "emit (EvAfter (fr_ctx fr) (fr_server fr) (fr_tool fr) (fr_info fr) (fr_args fr) r e d) s"
  obtain res w where h: "h (fr_ctx fr) (fr_server fr) (fr_tool fr) (fr_info fr) (fr_args fr) r e d (st_env ?s) = (res, w)"
    by fastforce
  show ?case
  proof (cases res)
    case Panic
    with h have "callStep rt mx (CAfter fr r e d rc (h # hooks)) s = (CDone Panic, ?s\<lparr>st_env := w\<rparr>)" by simp
    from ends_step [OF this ends_done] h Panic show ?thesis by simp
  next
    case (Ret r')
    let ?r = "case (r, r') of (Some _, Some r) \<Rightarrow> Some r | _ \<Rightarrow> r"
    from h Ret have "callStep rt mx (CAfter fr r e d rc (h # hooks)) s = (CAfter fr ?r e d rc hooks, ?s\<lparr>st_env := w\<rparr>)"
      by simp
    from ends_step [OF this Cons.IH] h Ret show ?thesis by simp
  qed
qed

lemma ends_finish:
  "ends rt mx (CAfter fr r e d NoRecord (o_afterCall (mx_opts mx))) s
     (finish mx (fr_ctx fr) (fr_server fr) (fr_tool fr) (fr_info fr) (fr_args fr) r e d s)"
  "ends rt mx (CAfter fr r e d RecordSince (o_afterCall (mx_opts mx))) s
     (finishRecorded rt mx (fr_ctx fr) (fr_server fr) (fr_tool fr) (fr_info fr) (fr_args fr) r e d (since rt (fr_start fr)) s)"
  "ends rt mx (CAfter fr r e d RecordDur (o_afterCall (mx_opts mx))) s
     (finishRecorded rt mx (fr_ctx fr) (fr_server fr) (fr_tool fr) (fr_info fr) (fr_args fr) r e d (\<lambda>_. d) s)"
proof -
  obtain res s' where run: "runAfterHooks (o_afterCall (mx_opts mx)) (fr_ctx fr) (fr_server fr) (fr_tool fr) (fr_info fr) (fr_args fr) r e d s = (res, s')"
    by fastforce
  note all = ends_after_hooks [of rt mx fr r e d _ "o_afterCall (mx_opts mx)" s, unfolded run]
  show "ends rt mx (CAfter fr r e d NoRecord (o_afterCall (mx_opts mx))) s
     (finish mx (fr_ctx fr) (fr_server fr) (fr_tool fr) (fr_info fr) (fr_args fr) r e d s)"
    using all [of NoRecord] by (cases res) (simp_all add: finish_def runAfterCall_def run recordStep_def)
  show "ends rt mx (CAfter fr r e d RecordSince (o_afterCall (mx_opts mx))) s
     (finishRecorded rt mx (fr_ctx fr) (fr_server fr) (fr_tool fr) (fr_info fr) (fr_args fr) r e d (since rt (fr_start fr)) s)"
    using all [of RecordSince] by (cases res) (simp_all add: finishRecorded_def runAfterCall_def run recordStep_def Let_def)
  show "ends rt mx (CAfter fr r e d RecordDur (o_afterCall (mx_opts mx))) s
     (finishRecorded rt mx (fr_ctx fr) (fr_server fr) (fr_tool fr) (fr_info fr) (fr_args fr) r e d (\<lambda>_. d) s)"
    using all [of RecordDur] by (cases res) (simp_all add: finishRecorded_def runAfterCall_def run recordStep_def Let_def)
qed

lemma ends_reject:
  "ends rt mx (CReject fr reason e RecordSince) s
     (rejectCall rt mx (fr_ctx fr) (fr_server fr) (fr_tool fr) (fr_info fr) (fr_args fr) reason e (fr_start fr) s)"
  "ends rt mx (CReject fr reason e NoRecord) s
     (let s = fireRejected mx (fr_ctx fr) (fr_server fr) (fr_tool fr) reason e s
      in finish mx (fr_ctx fr) (fr_server fr) (fr_tool fr) (fr_info fr) (fr_args fr) None (Some e) (since rt (fr_start fr) s) s)"
  unfolding rejectCall_def Let_def
  by (rule ends_step [OF callStep.simps(2) [unfolded Let_def]], rule ends_finish)+

lemma ends_store:
  "ends rt mx (CTTL fr r d) s
     (let s = cacheStore rt mx (fr_ctx fr) (fr_server fr) (fr_tool fr) (fr_info fr) (fr_args fr) r s
      in finishRecorded rt mx (fr_ctx fr) (fr_server fr) (fr_tool fr) (fr_info fr) (fr_args fr) (Some r) None d (\<lambda>_. d) s)"
proof (cases "cacheActive mx (fr_info fr) \<and> \<not> cr_IsError r")
  case True
  obtain ttl warned warning where ttl:
    "toolTTL (rt_ParseDuration rt) (fr_info fr) (o_cacheTTL (mx_opts mx)) (st_ttlWarned s) = (ttl, warned, warning)"
    by (metis prod_cases3)
  let ?s = "case warning of None \<Rightarrow> s\<lparr>st_ttlWarned := warned\<rparr>
      | Some fs \<Rightarrow> log_at (mx_opts mx) Warn ''mcpx: invalid cache_ttl, using default'' fs (s\<lparr>st_ttlWarned := warned\<rparr>)"
  have "callStep rt mx (CTTL fr r d) s = (CSet fr r d ttl, ?s)"
    using True ttl by (simp add: Let_def)
  from ends_step [OF this ends_step [OF callStep.simps(13) ends_finish(3)]] True ttl show ?thesis
    by (simp add: cacheStore_def Let_def)
next
  case False
  then have "callStep rt mx (CTTL fr r d) s = (CAfter fr (Some r) None d RecordDur (o_afterCall (mx_opts mx)), s)" by auto
  from ends_step [OF this ends_finish(3)] False show ?thesis by (auto simp: cacheStore_def Let_def)
qed

lemma ends_transform:
  "ends rt mx (CTransform fr r d hooks) s
     (case runTransforms hooks (fr_ctx fr) (fr_server fr) (fr_tool fr) (fr_info fr) r s of
        (Panic, s) \<Rightarrow> (Panic, s)
      | (Ret (r, Some e), s) \<Rightarrow>
          finishRecorded rt mx (fr_ctx fr) (fr_server fr) (fr_tool fr) (fr_info fr) (fr_args fr) (Some r) (Some e) d (\<lambda>_. d) s
      | (Ret (r, None), s) \<Rightarrow>
          (let s = cacheStore rt mx (fr_ctx fr) (fr_server fr) (fr_tool fr) (fr_info fr) (fr_args fr) r s
           in finishRecorded rt mx (fr_ctx fr) (fr_server fr) (fr_tool fr) (fr_info fr) (fr_args fr) (Some r) None d (\<lambda>_. d) s))"
proof (induction hooks arbitrary: r s)
  case Nil
  from ends_step [OF callStep.simps(10) ends_store] show ?case by simp
next
  case (Cons h hooks)
  let ?s = "emit (EvTransform (fr_ctx fr) (fr_server fr) (fr_tool fr) (fr_info fr) r) s"
  obtain res w where h: "h (fr_ctx fr) (fr_server fr) (fr_tool fr) (fr_info fr) r (st_env ?s) = (res, w)" by fastforce
  show ?case
  proof (cases res)
    case Panic
    with h have "callStep rt mx (CTransform fr r d (h # hooks)) s = (CDone Panic, ?s\<lparr>st_env := w\<rparr>)" by simp
    from ends_step [OF this ends_done] h Panic show ?thesis by simp
  next
    case (Ret out)
    obtain r' e where out: "out = (r', e)" by fastforce
    show ?thesis
    proof (cases e)
      case None
      with h Ret out have "callStep rt mx (CTransform fr r d (h # hooks)) s = (CTransform fr r' d hooks, ?s\<lparr>st_env := w\<rparr>)" by simp
      from ends_step [OF this Cons.IH] h Ret out None show ?thesis by simp
    next
      case (Some er)
      with h Ret out have "callStep rt mx (CTransform fr r d (h # hooks)) s =
          (CAfter fr (Some r') (Some er) d RecordDur (o_afterCall (mx_opts mx)), ?s\<lparr>st_env := w\<rparr>)" by simp
      from ends_step [OF this ends_finish(3)] h Ret out Some show ?thesis by simp
    qed
  qed
qed

lemma ends_upstream:
  "ends rt mx (CUpstream fr entry arguments) s
     (upstream rt mx entry (fr_ctx fr) (fr_server fr) (fr_tool fr) (fr_info fr) arguments (fr_args fr) (fr_start fr) s)"
proof (cases "se_session entry")
  case None
  then have "callStep rt mx (CUpstream fr entry arguments) s = (CDone Panic, s)" by (simp add: upstreamStep_def)
  from ends_step [OF this ends_done] None show ?thesis by (simp add: upstream_def)
next
  case (Some sess)
  let ?timeout = "effectiveTimeout (sc_CallTimeout (se_config entry)) (o_callTimeout (mx_opts mx))"
  let ?c = "ctx_WithTimeout (fr_ctx fr) (rt_now rt (st_env s)) ?timeout"
  let ?s = "emit (EvUpstream sess ?c (fr_tool fr) arguments) s"
  obtain raw err w where call: "rt_CallTool rt sess ?c (fr_tool fr) arguments (st_env ?s) = ((raw, err), w)"
    by (metis surj_pair)
  let ?s1 = "?s\<lparr>st_env := w\<rparr>"
  show ?thesis
  proof (cases err)
    case None
    with Some call have "callStep rt mx (CUpstream fr entry arguments) s =
        (CTransform fr (buildResult rt raw) (since rt (fr_start fr) ?s1) (o_resultTransform (mx_opts mx)), ?s1)"
      by (simp add: upstreamStep_def Let_def)
    from ends_step [OF this ends_transform] Some call None show ?thesis by (simp add: upstream_def afterUpstream_def Let_def)
  next
    case err: (Some e)
    let ?e = "if rt_ctxErr rt ?c w = Some DeadlineExceeded
       then CallTimeoutErr (fr_server fr) (fr_tool fr) ?timeout else ServerErr (fr_server fr) e"
    from Some call err have "callStep rt mx (CUpstream fr entry arguments) s = (CFailed fr ?e (since rt (fr_start fr) ?s1), ?s1)"
      by (simp add: upstreamStep_def Let_def)
    from ends_step [OF this ends_step [OF callStep.simps(9) ends_finish(3)]] Some call err show ?thesis
      by (simp add: upstream_def Let_def)
  qed
qed

lemma ends_dispatch:
  "ends rt mx (CWarn fr entry arguments) s
     (dispatch rt mx entry (fr_ctx fr) (fr_server fr) (fr_tool fr) (fr_info fr) arguments (fr_args fr) (fr_start fr) s)"
proof (cases "cacheActive mx (fr_info fr)")
  case True
  let ?s = "warnScope mx (fr_ctx fr) s"
  let ?key = "cacheKeyOf rt mx (fr_ctx fr) (fr_server fr) (fr_tool fr) (fr_args fr)"
  obtain res s1 where get: "cacheGet rt (activeCache mx) (fr_ctx fr) ?key ?s = (res, s1)" by fastforce
  have "ends rt mx (CGet fr entry arguments) ?s
      (dispatch rt mx entry (fr_ctx fr) (fr_server fr) (fr_tool fr) (fr_info fr) arguments (fr_args fr) (fr_start fr) s)"
  proof (cases res)
    case None
    with get have "callStep rt mx (CGet fr entry arguments) ?s = (CUpstream fr entry arguments, s1)" by simp
    from ends_step [OF this ends_upstream] get None True show ?thesis by (simp add: dispatch_def cacheLookup_def Let_def)
  next
    case (Some r)
    let ?fr = "fr\<lparr>fr_ctx := markCacheHit (fr_ctx fr)\<rparr>"
    from get Some have "callStep rt mx (CGet fr entry arguments) ?s =
        (CAfter ?fr (Some r) None (since rt (fr_start fr) s1) NoRecord (o_afterCall (mx_opts mx)), s1)" by simp
    from ends_step [OF this ends_finish(1)] get Some True show ?thesis by (simp add: dispatch_def cacheLookup_def Let_def)
  qed
  moreover have "callStep rt mx (CWarn fr entry arguments) s = (CGet fr entry arguments, ?s)" using True by simp
  ultimately show ?thesis by (rule ends_step [rotated])
next
  case False
  then have "callStep rt mx (CWarn fr entry arguments) s = (CUpstream fr entry arguments, s)" by simp
  from ends_step [OF this ends_upstream] False show ?thesis by (simp add: dispatch_def cacheLookup_def)
qed

lemma ends_before:
  "ends rt mx (CBefore fr entry arguments hooks) s
     (case runBefore hooks (fr_ctx fr) (fr_server fr) (fr_tool fr) (fr_info fr) (fr_args fr) s of
        (Panic, s) \<Rightarrow> (Panic, s)
      | (Ret (BAbort c e), s) \<Rightarrow>
          (let s = fireRejected mx c (fr_server fr) (fr_tool fr) RejectBeforeHookAbort e s
           in finish mx c (fr_server fr) (fr_tool fr) (fr_info fr) (fr_args fr) None (Some e) (since rt (fr_start fr) s) s)
      | (Ret (BShort c r), s) \<Rightarrow>
          finish mx c (fr_server fr) (fr_tool fr) (fr_info fr) (fr_args fr) (Some r) None (since rt (fr_start fr) s) s
      | (Ret (BContinue c), s) \<Rightarrow>
          dispatch rt mx entry c (fr_server fr) (fr_tool fr) (fr_info fr) arguments (fr_args fr) (fr_start fr) s)"
proof (induction hooks arbitrary: fr s)
  case Nil
  from ends_step [OF callStep.simps(4) ends_dispatch] show ?case by simp
next
  case (Cons h hooks)
  let ?s = "emit (EvBefore (fr_ctx fr) (fr_server fr) (fr_tool fr) (fr_info fr) (fr_args fr)) s"
  obtain res w where h: "h (fr_ctx fr) (fr_server fr) (fr_tool fr) (fr_info fr) (fr_args fr) (st_env ?s) = (res, w)" by fastforce
  show ?case
  proof (cases res)
    case Panic
    with h have "callStep rt mx (CBefore fr entry arguments (h # hooks)) s = (CDone Panic, ?s\<lparr>st_env := w\<rparr>)" by simp
    from ends_step [OF this ends_done] h Panic show ?thesis by simp
  next
    case (Ret out)
    obtain nc sr e where out: "out = (nc, sr, e)" by (metis prod_cases3)
    consider (abort) er where "e = Some er" | (short) r where "e = None" "sr = Some r" | (go) "e = None" "sr = None"
      by (cases e; cases sr) auto
    then show ?thesis
    proof cases
      case abort
      with h Ret out have "callStep rt mx (CBefore fr entry arguments (h # hooks)) s =
          (CReject fr RejectBeforeHookAbort er NoRecord, ?s\<lparr>st_env := w\<rparr>)" by simp
      from ends_step [OF this ends_reject(2)] h Ret out abort show ?thesis by simp
    next
      case short
      with h Ret out have "callStep rt mx (CBefore fr entry arguments (h # hooks)) s =
          (CAfter fr (Some r) None (since rt (fr_start fr) (?s\<lparr>st_env := w\<rparr>)) NoRecord (o_afterCall (mx_opts mx)), ?s\<lparr>st_env := w\<rparr>)"
        by (simp add: Let_def)
      from ends_step [OF this ends_finish(1)] h Ret out short show ?thesis by simp
    next
      case go
      let ?fr = "fr\<lparr>fr_ctx := (case nc of Some c' \<Rightarrow> c' | None \<Rightarrow> fr_ctx fr)\<rparr>"
      from go h Ret out have "callStep rt mx (CBefore fr entry arguments (h # hooks)) s =
          (CBefore ?fr entry arguments hooks, ?s\<lparr>st_env := w\<rparr>)" by simp
      from ends_step [OF this Cons.IH] h Ret out go show ?thesis
        by (simp cong: prod.case_cong outcome.case_cong before_result.case_cong)
    qed
  qed
qed

lemma ends_log:
  "ends rt mx (CLog fr entry arguments) s
     (let s = logCall mx (fr_server fr) (fr_tool fr) arguments s; errs = schemaErrors rt mx (fr_info fr) (fr_args fr)
      in if errs \<noteq> [] then rejectCall rt mx (fr_ctx fr) (fr_server fr) (fr_tool fr) (fr_info fr) (fr_args fr)
             RejectInvalidArgs (ErrInvalidArgs [] errs) (fr_start fr) s
         else afterArgs rt mx entry (fr_ctx fr) (fr_server fr) (fr_tool fr) (fr_info fr) arguments (fr_args fr) (fr_start fr) s)"
  by (rule ends_step [OF callStep.simps(3) [unfolded Let_def]])
     (use ends_reject(1) [of rt mx fr] ends_before [of rt mx fr entry arguments "o_beforeCall (mx_opts mx)"] in
       \<open>simp add: Let_def afterArgs_def\<close>)

lemma ends_CallTool: "ends rt mx (CEnter c server tool args) s (CallTool rt mx c server tool args s)"
proof -
  let ?start = "rt_now rt (st_env s)"
  let ?fr = "\<lambda>info a. \<lparr>fr_ctx = c, fr_server = server, fr_tool = tool, fr_info = info, fr_args = a, fr_start = ?start\<rparr>"
  have rej: "ends rt mx (CReject (?fr info a) reason e RecordSince) s (rejectCall rt mx c server tool info a reason e ?start s)"
    for info a reason e
    using ends_reject(1) [of rt mx "?fr info a" reason e s] by simp
  have "ends rt mx (enterStep rt mx c server tool args ?start) s (CallTool rt mx c server tool args s)"
  proof (cases "gm_get (mx_servers mx) server")
    case (Some entry)
    show ?thesis
    proof (cases "find (\<lambda>ti. ti_Name ti = tool) (se_tools entry)")
      case info: (Some info)
      show ?thesis
      proof (cases "prepareArgs rt mx entry args")
        case (Inl e)
        with Some info rej show ?thesis by (simp add: enterStep_def CallTool_def Let_def)
      next
        case (Inr p)
        obtain arguments fa where p: "p = (arguments, fa)" by fastforce
        from ends_log [of rt mx "?fr info fa" entry arguments s] Some info Inr p rej show ?thesis
          by (cases "se_state entry = ServerStateDown") (simp_all add: enterStep_def CallTool_def Let_def cong: if_cong)
      qed
    qed (simp add: enterStep_def CallTool_def Let_def Some rej)
  qed (simp add: enterStep_def CallTool_def Let_def rej)
  from ends_step [OF callStep.simps(1) this] show ?thesis .
qed

section \<open>A call ends\<close>

text \<open>How many more steps a call takes at most.\<close>

fun left :: "'w options \<Rightarrow> 'w callPc \<Rightarrow> nat" where
  "left opts (CDone out) = 0"
| "left opts (CAfter fr r e d rc hooks) = length hooks + 1"
| "left opts (CReject fr reason e rc) = length (o_afterCall opts) + 2"
| "left opts (CSet fr r d ttl) = length (o_afterCall opts) + 2"
| "left opts (CTTL fr r d) = length (o_afterCall opts) + 3"
| "left opts (CTransform fr r d hooks) = length hooks + length (o_afterCall opts) + 4"
| "left opts (CFailed fr e d) = length (o_afterCall opts) + 2"
| "left opts (CUpstream fr entry a) = length (o_resultTransform opts) + length (o_afterCall opts) + 5"
| "left opts (CGet fr entry a) = length (o_resultTransform opts) + length (o_afterCall opts) + 6"
| "left opts (CWarn fr entry a) = length (o_resultTransform opts) + length (o_afterCall opts) + 7"
| "left opts (CBefore fr entry a hooks) = length hooks + length (o_resultTransform opts) + length (o_afterCall opts) + 8"
| "left opts (CLog fr entry a) = length (o_beforeCall opts) + length (o_resultTransform opts) + length (o_afterCall opts) + 9"
| "left opts (CEnter c sv t a) = length (o_beforeCall opts) + length (o_resultTransform opts) + length (o_afterCall opts) + 10"

lemma upstreamStep_left:
  "upstreamStep rt mx fr entry a s = (pc', s') \<Longrightarrow> left (mx_opts mx) pc' < left (mx_opts mx) (CUpstream fr entry a)"
  by (auto simp: upstreamStep_def Let_def split: option.splits prod.splits)

lemma enterStep_left: "left (mx_opts mx) (enterStep rt mx c sv t a start) < left (mx_opts mx) (CEnter c sv t a)"
  by (auto simp: enterStep_def Let_def split: option.split sum.split)

lemma callStep_left:
  assumes "callStep rt mx pc s = (pc', s')" "\<nexists>out. pc = CDone out"
  shows "left (mx_opts mx) pc' < left (mx_opts mx) pc"
  using assms(1)
proof (cases "(rt, mx, pc, s)" rule: callStep.cases)
  case (1 rt mx c server tool args s)
  with assms(1) show ?thesis using enterStep_left [of mx rt] by auto
next
  case (8 rt mx fr entry arguments s)
  with assms(1) show ?thesis using upstreamStep_left by auto
qed (use assms in \<open>auto simp: Let_def split: if_splits option.splits prod.splits outcome.splits\<close>)

lemma solo_done: "(solo rt mx ^^ n) (CDone out, s) = (CDone out, s)"
  by (induction n) (simp_all add: solo_def)

lemma solo_bounded:
  "left (mx_opts mx) pc \<le> n \<Longrightarrow> \<exists>out s'. (solo rt mx ^^ n) (pc, s) = (CDone out, s')"
proof (induction n arbitrary: pc s)
  case 0
  then show ?case by (cases pc) simp_all
next
  case (Suc n)
  obtain pc' s' where step: "callStep rt mx pc s = (pc', s')" by fastforce
  show ?case
  proof (cases "\<exists>out. pc = CDone out")
    case True
    then obtain out where "pc = CDone out" ..
    then show ?thesis using solo_done [of "Suc n" rt mx out s] by blast
  next
    case False
    with callStep_left [OF step] Suc.prems have "left (mx_opts mx) pc' \<le> n" by simp
    moreover have "(solo rt mx ^^ Suc n) (pc, s) = (solo rt mx ^^ n) (pc', s')"
      by (simp only: funpow_Suc_right comp_def) (simp add: solo_def step)
    ultimately show ?thesis using Suc.IH [of pc' s'] by simp
  qed
qed

lemma solo_ends:
  assumes "left (mx_opts mx) pc \<le> n" "ends rt mx pc s out"
  shows "(solo rt mx ^^ n) (pc, s) = (CDone (fst out), snd out)"
proof -
  obtain m where m: "(solo rt mx ^^ m) (pc, s) = (CDone (fst out), snd out)"
    using assms(2) by (auto simp: ends_def)
  obtain out' s' where n: "(solo rt mx ^^ n) (pc, s) = (CDone out', s')"
    using solo_bounded [OF assms(1)] by blast
  have "(solo rt mx ^^ (m + n)) (pc, s) = (CDone out', s')"
    by (simp add: funpow_add n solo_done)
  moreover have "(solo rt mx ^^ (n + m)) (pc, s) = (CDone (fst out), snd out)"
    by (simp add: funpow_add m solo_done)
  ultimately show ?thesis by (simp add: n add.commute)
qed

text \<open>
  The steps of a call are \<open>CallTool\<close>: taken without interruption, the steps from its entry, as
  many as there are hooks and ten more, give the result and the state of \<open>CallTool\<close>, on every
  path, rejections and panics included. So what is proved of the steps is about the same
  program as what is proved of \<open>CallTool\<close>.
\<close>

lemma CallTool_steps:
  assumes "n = length (o_beforeCall (mx_opts mx)) + length (o_resultTransform (mx_opts mx)) + length (o_afterCall (mx_opts mx)) + 10"
  shows "(solo rt mx ^^ n) (CEnter c server tool args, s) =
    (CDone (fst (CallTool rt mx c server tool args s)), snd (CallTool rt mx c server tool args s))"
  by (rule solo_ends [OF _ ends_CallTool]) (simp add: assms)

section \<open>Invariants of concurrent calls\<close>

text \<open>The goroutines leave the cache and the sent calls alone: only the rest of the program might not.\<close>

lemma undisturbed_simps [simp]:
  "undisturbed s s"
  "undisturbed s (s\<lparr>st_env := w\<rparr>)"
  "undisturbed s (log_at opts lvl msg fs s')  \<longleftrightarrow> undisturbed s s'"
  by (auto simp: undisturbed_def)

lemma undisturbed_trans: "undisturbed a b \<Longrightarrow> undisturbed b c \<Longrightarrow> undisturbed a c"
  by (simp add: undisturbed_def)

lemma undisturbed_closeSession: "undisturbed s (snd (closeSession rt sess s))"
  by (simp add: undisturbed_def closeSession_def Let_def case_prod_beta)

lemma undisturbed_fetchTools: "undisturbed s (snd (fetchTools rt opts c name sess s))"
  by (auto simp: undisturbed_def fetchTools_def safeRecordToolList_def Let_def split: prod.split sum.split)

lemma undisturbed_connect: "undisturbed s (snd (connect rt opts c sc ch s))"
  unfolding connect_def
  by (auto simp: undisturbed_def Let_def fetchTools_def closeSession_def safeRecordToolList_def
      split: sum.split prod.split option.split)

lemma undisturbed_callbacks [simp]:
  "undisturbed s (fireOnReconnect opts name e s') \<longleftrightarrow> undisturbed s s'"
  "undisturbed s (fireToolsChanged opts name old new s') \<longleftrightarrow> undisturbed s s'"
  by (auto simp: undisturbed_def fireOnReconnect_def fireToolsChanged_def Let_def split: option.split prod.split outcome.split)

lemma undisturbed_probe: "undisturbed s (snd (probeServer rt mx c name interval s))"
  by (auto simp: undisturbed_def probeServer_def Let_def split: option.split prod.split)

lemma undisturbed_closeAll: "undisturbed s (closeAll rt opts ps s)"
proof (induction ps arbitrary: s)
  case (Cons p ps)
  obtain n e where p: "p = (n, e)" by fastforce
  show ?case
  proof (cases "se_session e")
    case (Some sess)
    obtain er s1 where c: "closeSession rt sess s = (er, s1)" by fastforce
    have "undisturbed s s1" using undisturbed_closeSession [of s rt sess] by (simp add: c)
    then have "undisturbed s (case er of None \<Rightarrow> s1 | Some x \<Rightarrow> log_at opts Error m (fs x) s1)" for m fs
      by (simp split: option.split)
    from undisturbed_trans [OF this Cons.IH] p Some c show ?thesis by (simp add: Let_def)
  qed (simp add: p Cons.IH)
qed simp

lemma undisturbed_calls:
  "connect rt opts c sc ch s = (r1, s') \<Longrightarrow> undisturbed s s'"
  "fetchTools rt opts c name sess s = (r2, s') \<Longrightarrow> undisturbed s s'"
  "probeServer rt mx c name interval s = (r3, s') \<Longrightarrow> undisturbed s s'"
  using undisturbed_connect [of s rt opts c sc ch] undisturbed_fetchTools [of s rt opts c name sess]
    undisturbed_probe [of s rt mx c name interval] by simp_all

lemma undisturbed_reconStep: "reconStep rt c d n pc mx s = (pc', mx', s') \<Longrightarrow> undisturbed s s'"
  by (auto simp: reconStep_def Let_def undisturbed_closeSession
      split: option.splits reconPc.splits if_splits prod.splits sum.splits dest: undisturbed_calls)

lemma undisturbed_refStep: "refStep rt c n pc mx s = (pc', mx', s') \<Longrightarrow> undisturbed s s'"
  by (auto simp: refStep_def Let_def split: option.splits refPc.splits if_splits prod.splits sum.splits dest: undisturbed_calls)

lemma undisturbed_supStep: "supStep rt c can pc mx s = (pc', st, mx', s') \<Longrightarrow> undisturbed s s'"
  by (auto simp: supStep_def split: option.splits supPc.splits list.splits if_splits prod.splits dest: undisturbed_calls)

lemma goroutines_undisturbed:
  "sys_step rt c y y' \<Longrightarrow> undisturbed (sy_st y) (sy_st y') \<or> (\<exists>s'. y' = y\<lparr>sy_st := s'\<rparr>)"
proof (induction rule: sys_step.induct)
  case (close_go y name names)
  have "undisturbed (sy_st y) (closeStep rt (sy_mx y) name (sy_st y))"
    by (simp add: closeStep_def undisturbed_closeAll del: closeAll.simps split: option.split)
  then show ?case by simp
qed (auto dest: undisturbed_reconStep undisturbed_refStep undisturbed_supStep)

text \<open>
  An invariant of every call, which may rest on a condition \<open>G\<close> on the shared state that
  only calls can break. It has to hold for a call that arrives and has to be kept by every
  step of a call; then it holds for all calls in every interleaving.
\<close>

locale call_invariant =
  fixes rt :: "'w rt" and opts :: "'w options" and G :: "'w st \<Rightarrow> bool" and I :: "'w callPc \<Rightarrow> bool"
  assumes enters: "I (CEnter c server tool args)"
    and steps: "mx_opts mx = opts \<Longrightarrow> sessions_present mx \<Longrightarrow> G s \<Longrightarrow> I pc \<Longrightarrow>
      callStep rt mx pc s = (pc', s') \<Longrightarrow> G s' \<and> I pc'"
    and stays: "undisturbed s s' \<Longrightarrow> G s \<Longrightarrow> G s'"
begin

definition holds :: "'w sys \<times> 'w callPc list \<Rightarrow> bool" where
  "holds q \<longleftrightarrow> mx_opts (sy_mx (fst q)) = opts \<and> sys_inv (fst q) \<and> G (sy_st (fst q)) \<and> list_all I (snd q)"

lemma holds_step: "joint_step rt c q q' \<Longrightarrow> holds q \<Longrightarrow> holds q'"
proof (induction rule: joint_step.induct)
  case (background y y' pcs)
  then show ?case
    using fixed_opts.kept [OF background(1)] live.kept [OF background(1)] stays [OF background(2)]
    by (simp add: holds_def)
next
  case (arrives y pcs c' server tool args)
  then show ?case by (simp add: holds_def enters)
next
  case (advances i pcs y pc' s')
  have "sys_inv (y\<lparr>sy_st := s'\<rparr>)"
    using advances(3) by (intro live.kept [OF sys_step.outside]) (simp add: holds_def)
  moreover have "G s' \<and> I pc'"
    using advances by (intro steps [OF _ _ _ _ advances(2)]) (auto simp: holds_def list_all_length intro: sys_inv_sessions)
  ultimately show ?case
    using advances(1,3) by (auto simp: holds_def list_all_iff dest!: set_update_subset_insert [THEN subsetD])
qed

lemma reached:
  assumes "(joint_step rt c)\<^sup>*\<^sup>* (y0, []) (y, pcs)"
    and "mx_opts (sy_mx y0) = opts" "sys_inv y0" "G (sy_st y0)"
  shows "list_all I pcs" "G (sy_st y)"
proof -
  have "holds (y0, [])" using assms(2-4) by (simp add: holds_def)
  with assms(1) have "holds (y, pcs)"
    by (induction rule: rtranclp_induct) (auto intro: holds_step)
  then show "list_all I pcs" "G (sy_st y)" by (simp_all add: holds_def)
qed

end

section \<open>No call panics\<close>

definition calm :: "'w options \<Rightarrow> bool" where
  "calm opts \<longleftrightarrow>
     (\<forall>h \<in> set (o_beforeCall opts). \<forall>c sv t i a w. fst (h c sv t i a w) \<noteq> Panic) \<and>
     (\<forall>h \<in> set (o_afterCall opts). \<forall>c sv t i a r e d w. fst (h c sv t i a r e d w) \<noteq> Panic) \<and>
     (\<forall>h \<in> set (o_resultTransform opts). \<forall>c sv t i r w. fst (h c sv t i r w) \<noteq> Panic)"

lemma hooks_calm_iff: "hooks_calm mx \<longleftrightarrow> calm (mx_opts mx)"
  by (simp add: hooks_calm_def calm_def)

lemma calm_hooks:
  assumes "calm opts"
  shows "b \<in> set (o_beforeCall opts) \<Longrightarrow> b c sv t i a w \<noteq> (Panic, w')"
    and "h \<in> set (o_afterCall opts) \<Longrightarrow> h c sv t i a r e d w \<noteq> (Panic, w')"
    and "g \<in> set (o_resultTransform opts) \<Longrightarrow> g c sv t i r0 w \<noteq> (Panic, w')"
  using assms by (auto simp: calm_def dest!: bspec) (metis fst_conv)+

text \<open>The snapshot of a call that goes on has a session, and the hooks still to run are configured ones.\<close>

fun pc_calm :: "'w options \<Rightarrow> 'w callPc \<Rightarrow> bool" where
  "pc_calm opts (CLog fr entry a) = (se_session entry \<noteq> None)"
| "pc_calm opts (CBefore fr entry a hooks) = (se_session entry \<noteq> None \<and> set hooks \<subseteq> set (o_beforeCall opts))"
| "pc_calm opts (CWarn fr entry a) = (se_session entry \<noteq> None)"
| "pc_calm opts (CGet fr entry a) = (se_session entry \<noteq> None)"
| "pc_calm opts (CUpstream fr entry a) = (se_session entry \<noteq> None)"
| "pc_calm opts (CTransform fr r d hooks) = (set hooks \<subseteq> set (o_resultTransform opts))"
| "pc_calm opts (CAfter fr r e d rc hooks) = (set hooks \<subseteq> set (o_afterCall opts))"
| "pc_calm opts (CDone out) = (out \<noteq> Panic)"
| "pc_calm opts pc = True"

lemma enterStep_calm:
  assumes "sessions_present mx"
  shows "pc_calm (mx_opts mx) (enterStep rt mx c server tool args start)"
proof -
  have "se_session e \<noteq> None" if "gm_get (mx_servers mx) server = Some e" "se_state e \<noteq> ServerStateDown" for e
    using assms map_of_SomeD [OF that(1)] that(2) by (auto simp: sessions_present_def list_all_iff)
  then show ?thesis
    by (auto simp: enterStep_def Let_def split: option.split sum.split)
qed

lemma upstreamStep_calm:
  "se_session entry \<noteq> None \<Longrightarrow> upstreamStep rt mx fr entry a s = (pc', s') \<Longrightarrow> pc_calm (mx_opts mx) pc'"
  by (auto simp: upstreamStep_def Let_def split: option.splits prod.splits)

lemma callStep_calm:
  assumes "calm (mx_opts mx)" "sessions_present mx" "pc_calm (mx_opts mx) pc" "callStep rt mx pc s = (pc', s')"
  shows "pc_calm (mx_opts mx) pc'"
proof (cases "(rt, mx, pc, s)" rule: callStep.cases)
  case (1 rt mx c server tool args s)
  with assms show ?thesis using enterStep_calm [of mx rt] by auto
next
  case (5 rt mx fr entry arguments hook hooks s)
  with assms(3) have "hook \<in> set (o_beforeCall (mx_opts mx))" by simp
  moreover note 5 calm_hooks(1) [OF _ this]
  ultimately show ?thesis using assms
    by (auto simp: Let_def split: prod.splits outcome.splits option.splits)
next
  case (8 rt mx fr entry arguments s)
  with assms show ?thesis using upstreamStep_calm [of entry rt mx fr arguments s pc' s'] by simp
next
  case (11 rt mx fr result dur hook hooks s)
  with assms(3) have "hook \<in> set (o_resultTransform (mx_opts mx))" by simp
  moreover note 11 calm_hooks(3) [OF _ this]
  ultimately show ?thesis using assms
    by (auto simp: Let_def split: prod.splits outcome.splits option.splits)
next
  case (15 rt mx fr result callErr dur rc hook hooks s)
  with assms(3) have "hook \<in> set (o_afterCall (mx_opts mx))" by simp
  moreover note 15 calm_hooks(2) [OF _ this]
  ultimately show ?thesis using assms
    by (auto simp: Let_def split: prod.splits outcome.splits)
qed (use assms in \<open>auto simp: Let_def split: if_splits option.splits prod.splits\<close>)

interpretation calls_calm: call_invariant rt opts "\<lambda>s. True" "\<lambda>pc. calm opts \<longrightarrow> pc_calm opts pc" for rt opts
  by unfold_locales (auto intro: callStep_calm)

text \<open>
  C5. No call panics, however it is interleaved with other calls, with the supervisor, the
  reconnect and refresh goroutines, notifications and \<open>Close\<close>, provided the hooks of the user
  do not panic: after \<open>New\<close> no interleaving leads to a call that ended with a panic. In
  particular the session a call took from its entry is there when it is used.\<close>

theorem concurrent_calls_return:
  assumes sched: "\<And>xs. mset (sched xs) = mset xs"
    and new: "New rt bi sched c cfg opts s = (Inr (mx, gs), s')" and calm: "hooks_calm mx"
    and run: "(joint_step rt c)\<^sup>*\<^sup>* (started mx gs s', []) (y, pcs)"
  shows "CDone Panic \<notin> set pcs"
proof -
  have "list_all (\<lambda>pc. calm (mx_opts mx) \<longrightarrow> pc_calm (mx_opts mx) pc) pcs"
    by (rule calls_calm.reached(1) [OF run]) (simp_all add: started_inv [OF sched new], simp add: started_def)
  with calm show ?thesis by (auto simp: hooks_calm_iff list_all_iff)
qed

section \<open>Runs of single calls\<close>

lemma advance_alone:
  "i < length pcs \<Longrightarrow> (joint_step rt c)\<^sup>*\<^sup>* (y, pcs)
     (y\<lparr>sy_st := snd ((solo rt (sy_mx y) ^^ n) (pcs ! i, sy_st y))\<rparr>,
      pcs[i := fst ((solo rt (sy_mx y) ^^ n) (pcs ! i, sy_st y))])"
proof (induction n)
  case (Suc n)
  let ?p = "(solo rt (sy_mx y) ^^ n) (pcs ! i, sy_st y)"
  let ?y = "y\<lparr>sy_st := snd ?p\<rparr>" and ?pcs = "pcs[i := fst ?p]"
  have "joint_step rt c (?y, ?pcs) (?y\<lparr>sy_st := snd (solo rt (sy_mx y) ?p)\<rparr>, ?pcs[i := fst (solo rt (sy_mx y) ?p)])"
    using Suc.prems by (intro joint_step.advances) (simp_all add: solo_def)
  with Suc show ?case by (auto intro: rtranclp.rtrancl_into_rtrancl)
qed simp

text \<open>A call that arrives and takes its steps at once.\<close>

lemma arrive_alone:
  "(joint_step rt c)\<^sup>*\<^sup>* (y, pcs)
     (y\<lparr>sy_st := snd ((solo rt (sy_mx y) ^^ n) (CEnter c' server tool args, sy_st y))\<rparr>,
      pcs @ [fst ((solo rt (sy_mx y) ^^ n) (CEnter c' server tool args, sy_st y))])"
  using converse_rtranclp_into_rtranclp [OF joint_step.arrives [of rt c y pcs c' server tool args]
      advance_alone [of "length pcs" "pcs @ [CEnter c' server tool args]" rt c y n]]
  by simp

section \<open>Results of concurrent calls\<close>

text \<open>
  The conditions on hooks under which all results have a property \<open>P\<close>: the last
  ResultTransform hook establishes it, no BeforeCall hook answers a call itself and no
  AfterCall hook destroys it. A cache of the user may return anything.
\<close>

definition filtering :: "(CallResult \<Rightarrow> bool) \<Rightarrow> 'w options \<Rightarrow> bool" where
  "filtering P opts \<longleftrightarrow> o_cache opts = None \<and> o_resultTransform opts \<noteq> [] \<and>
     (\<forall>c sv t i r w r' w'. last (o_resultTransform opts) c sv t i r w = (Ret (r', None), w') \<longrightarrow> P r') \<and>
     (\<forall>b \<in> set (o_beforeCall opts). \<forall>c sv t i a w nc r e w'. b c sv t i a w = (Ret (nc, r, e), w') \<longrightarrow> r = None) \<and>
     (\<forall>h \<in> set (o_afterCall opts). \<forall>c sv t i a r e d w r' w'. h c sv t i a (Some r) e d w = (Ret (Some r'), w') \<longrightarrow> P r \<longrightarrow> P r')"

lemma filtering_cache: "filtering P opts \<Longrightarrow> o_cache opts = None"
  and filtering_transforms: "filtering P opts \<Longrightarrow> o_resultTransform opts \<noteq> []"
  and filtering_last: "filtering P opts \<Longrightarrow> last (o_resultTransform opts) c sv t i r w = (Ret (r', None), w') \<Longrightarrow> P r'"
  and filtering_before: "filtering P opts \<Longrightarrow> b \<in> set (o_beforeCall opts) \<Longrightarrow> b c sv t i a w \<noteq> (Ret (nc, Some res, e), w')"
  and filtering_after: "filtering P opts \<Longrightarrow> h \<in> set (o_afterCall opts) \<Longrightarrow>
    h c sv t i a (Some r) er d w = (Ret (Some r'), w') \<Longrightarrow> P r \<Longrightarrow> P r'"
  unfolding filtering_def by (metis option.distinct(1))+

fun pc_filtered :: "(CallResult \<Rightarrow> bool) \<Rightarrow> 'w options \<Rightarrow> 'w callPc \<Rightarrow> bool" where
  "pc_filtered P opts (CBefore fr entry a hooks) = (set hooks \<subseteq> set (o_beforeCall opts))"
| "pc_filtered P opts (CTransform fr r d hooks) = (if hooks = [] then P r else last hooks = last (o_resultTransform opts))"
| "pc_filtered P opts (CTTL fr r d) = P r"
| "pc_filtered P opts (CSet fr r d ttl) = P r"
| "pc_filtered P opts (CAfter fr r e d rc hooks) = (set hooks \<subseteq> set (o_afterCall opts) \<and> (e = None \<longrightarrow> (\<forall>x. r = Some x \<longrightarrow> P x)))"
| "pc_filtered P opts (CDone out) = (\<forall>r e. out = Ret (Some r, e) \<longrightarrow> P r)"
| "pc_filtered P opts pc = True"

definition cache_filtered :: "(CallResult \<Rightarrow> bool) \<Rightarrow> 'w options \<Rightarrow> 'w st \<Rightarrow> bool" where
  "cache_filtered P opts s \<longleftrightarrow> o_cacheDisabled opts \<or> cache_holds P (st_cache s)"

lemma cache_filtered_frame [simp]:
  "cache_filtered P opts (s\<lparr>st_env := w\<rparr>) \<longleftrightarrow> cache_filtered P opts s"
  "cache_filtered P opts (s\<lparr>st_ttlWarned := x\<rparr>) \<longleftrightarrow> cache_filtered P opts s"
  "cache_filtered P opts (emit e s) \<longleftrightarrow> cache_filtered P opts s"
  "cache_filtered P opts (log_at opts' lvl msg fs s) \<longleftrightarrow> cache_filtered P opts s"
  "cache_filtered P opts (fireRejected mx c server tool reason err s) \<longleftrightarrow> cache_filtered P opts s"
  "cache_filtered P opts (logCall mx server tool a s) \<longleftrightarrow> cache_filtered P opts s"
  "cache_filtered P opts (warnScope mx c s) \<longleftrightarrow> cache_filtered P opts s"
  "cache_filtered P opts (safeRecordCall m server tool d eo s) \<longleftrightarrow> cache_filtered P opts s"
  by (simp_all add: cache_filtered_def safeRecordCall_def Let_def split: option.split prod.split)

lemma filtered_Get:
  assumes "filtering P (mx_opts mx)" "cache_filtered P (mx_opts mx) s" "cacheGet rt (activeCache mx) c key s = (res, s')"
  shows "cache_filtered P (mx_opts mx) s'" and "res = Some r \<Longrightarrow> P r"
proof -
  have "cache_filtered P (mx_opts mx) s' \<and> (\<forall>r. res = Some r \<longrightarrow> P r)"
    using assms(2,3) filtering_cache [OF assms(1)] cache_holds_Get [of P "st_cache s"]
    by (auto simp: cache_filtered_def cacheGet_def activeCache_def Let_def case_prod_beta split: if_splits)
  then show "cache_filtered P (mx_opts mx) s'" and "res = Some r \<Longrightarrow> P r" by auto
qed

lemma filtered_Set:
  assumes "filtering P (mx_opts mx)" "cache_filtered P (mx_opts mx) s" "P r"
  shows "cache_filtered P (mx_opts mx) (cacheSet rt (activeCache mx) c key r ttl s)"
  using assms(2,3) filtering_cache [OF assms(1)]
  by (auto simp: cache_filtered_def cacheSet_def activeCache_def Let_def cache_holds_Set)

lemma upstreamStep_filtered:
  assumes "filtering P (mx_opts mx)" "cache_filtered P (mx_opts mx) s" "upstreamStep rt mx fr entry a s = (pc', s')"
  shows "cache_filtered P (mx_opts mx) s' \<and> pc_filtered P (mx_opts mx) pc'"
  using assms(2,3) filtering_transforms [OF assms(1)]
  by (auto simp: upstreamStep_def Let_def split: option.splits prod.splits)

lemma enterStep_filtered: "pc_filtered P (mx_opts mx) (enterStep rt mx c server tool args start)"
  by (auto simp: enterStep_def Let_def split: option.split sum.split)

lemma callStep_filtered:
  assumes "filtering P (mx_opts mx)" "cache_filtered P (mx_opts mx) s" "pc_filtered P (mx_opts mx) pc"
    "callStep rt mx pc s = (pc', s')"
  shows "cache_filtered P (mx_opts mx) s' \<and> pc_filtered P (mx_opts mx) pc'"
proof (cases "(rt, mx, pc, s)" rule: callStep.cases)
  case (1 rt mx c server tool args s)
  with assms show ?thesis using enterStep_filtered [of P mx rt] by auto
next
  case (5 rt mx fr entry arguments hook hooks s)
  with assms(3) have "hook \<in> set (o_beforeCall (mx_opts mx))" by simp
  moreover note 5 filtering_before [OF _ this]
  ultimately show ?thesis using assms
    by (auto simp: Let_def split: prod.splits outcome.splits option.splits)
next
  case (7 rt mx fr entry arguments s)
  with assms filtered_Get [of P mx s rt] show ?thesis
    by (auto split: prod.splits option.splits)
next
  case (8 rt mx fr entry arguments s)
  with assms show ?thesis using upstreamStep_filtered [of P mx s rt fr entry arguments pc' s'] by simp
next
  case (11 rt mx fr result dur hook hooks s)
  with assms filtering_last [of P "mx_opts mx"] show ?thesis
    by (auto simp: Let_def split: prod.splits outcome.splits option.splits if_splits)
next
  case (13 rt mx fr result dur ttl s)
  with assms filtered_Set [of P mx s result rt] show ?thesis by auto
next
  case (14 rt mx fr result callErr dur rc s)
  with assms show ?thesis by (auto simp: recordStep_def split: recording.split if_splits)
next
  case (15 rt mx fr result callErr dur rc hook hooks s)
  with assms(3) have "hook \<in> set (o_afterCall (mx_opts mx))" by simp
  moreover note 15 filtering_after [OF _ this]
  ultimately show ?thesis using assms
    by (auto simp: Let_def split: prod.splits outcome.splits option.splits)
qed (use assms in \<open>auto simp: Let_def split: if_splits option.splits prod.splits\<close>)

interpretation calls_filtered: call_invariant rt opts
  "\<lambda>s. filtering P opts \<longrightarrow> cache_filtered P opts s" "\<lambda>pc. filtering P opts \<longrightarrow> pc_filtered P opts pc" for rt opts P
  by unfold_locales (auto dest: callStep_filtered simp: cache_filtered_def undisturbed_def)

lemma filtered_results:
  assumes "\<And>xs. mset (sched xs) = mset xs" and new: "New rt bi sched c cfg opts s = (Inr (mx, gs), s')"
    and f: "filtering P (mx_opts mx)" and size: "0 < o_cacheSize (mx_opts mx)"
    and run: "(joint_step rt c)\<^sup>*\<^sup>* (started mx gs s', []) (y, pcs)" "CDone (Ret (Some r, e)) \<in> set pcs"
  shows "P r"
proof -
  let ?o = "mx_opts mx"
  have "cache_filtered P ?o (sy_st (started mx gs s'))"
    using New_cache [OF new] filtering_cache [OF f] size
    by (cases "o_cacheDisabled ?o") (simp_all add: cache_filtered_def started_def New_opts [OF new] cache_holds_new)
  then have "list_all (\<lambda>pc. filtering P ?o \<longrightarrow> pc_filtered P ?o pc) pcs"
    by (intro calls_filtered.reached(1) [OF run(1)]) (simp_all add: started_inv [OF assms(1) new], simp_all add: started_def)
  with f run(2) show ?thesis by (auto simp: list_all_iff dest!: bspec)
qed

text \<open>
  C6. The cache is no way around the ResultTransform hooks, however calls interleave: if the
  transforms of a multiplexer without a cache of the user's own end with one that establishes a
  property of results whenever it succeeds, no BeforeCall hook answers calls itself and no
  AfterCall hook destroys the property, then every result that any call has returned has it,
  fresh or cached, in every interleaving of calls, goroutines and \<open>Close\<close> after \<open>New\<close>.\<close>

theorem concurrent_results:
  assumes sched: "\<And>xs. mset (sched xs) = mset xs"
    and new: "New rt bi sched c cfg opts s = (Inr (mx, gs), s')"
    and last: "o_resultTransform (mx_opts mx) = hooks @ [h]"
      "\<And>c sv t i r w r' w'. h c sv t i r w = (Ret (r', None), w') \<Longrightarrow> P r'"
    and others: "\<forall>b \<in> set (o_beforeCall (mx_opts mx)). \<forall>c sv t i a w nc r e w'. b c sv t i a w = (Ret (nc, r, e), w') \<longrightarrow> r = None"
      "\<forall>a \<in> set (o_afterCall (mx_opts mx)). \<forall>c sv t i args r e d w r' w'.
         a c sv t i args (Some r) e d w = (Ret (Some r'), w') \<longrightarrow> P r \<longrightarrow> P r'"
    and cache: "o_cache (mx_opts mx) = None" "0 < o_cacheSize (mx_opts mx)"
    and run: "(joint_step rt c)\<^sup>*\<^sup>* (started mx gs s', []) (y, pcs)" "CDone (Ret (Some r, e)) \<in> set pcs"
  shows "P r"
proof -
  have "filtering P (mx_opts mx)"
    unfolding filtering_def using last others cache(1) by (simp; blast)
  from filtered_results [OF sched new this cache(2) run] show ?thesis .
qed

section \<open>Gates and concurrent calls\<close>

text \<open>
  With a hook that denies tools: a denied call still has the hook before it, and a call that is
  past the hooks is not denied. What decides is the description of the tool in the snapshot.
\<close>

definition snapshot :: "frame \<Rightarrow> serverEntry \<Rightarrow> bool" where
  "snapshot fr entry \<longleftrightarrow> find (\<lambda>ti. ti_Name ti = fr_tool fr) (se_tools entry) = Some (fr_info fr)"

definition denied :: "(string \<Rightarrow> string \<Rightarrow> ToolInfo \<Rightarrow> bool) \<Rightarrow> frame \<Rightarrow> bool" where
  "denied deny fr \<longleftrightarrow> deny (fr_server fr) (fr_tool fr) (fr_info fr)"

fun pc_gated :: "'w BeforeCallHook \<Rightarrow> (string \<Rightarrow> string \<Rightarrow> ToolInfo \<Rightarrow> bool) \<Rightarrow> 'w callPc \<Rightarrow> bool" where
  "pc_gated hook deny (CLog fr entry a) = snapshot fr entry"
| "pc_gated hook deny (CBefore fr entry a hooks) = (snapshot fr entry \<and> (denied deny fr \<longrightarrow> hook \<in> set hooks))"
| "pc_gated hook deny (CWarn fr entry a) = (snapshot fr entry \<and> \<not> denied deny fr)"
| "pc_gated hook deny (CGet fr entry a) = (snapshot fr entry \<and> \<not> denied deny fr)"
| "pc_gated hook deny (CUpstream fr entry a) = (snapshot fr entry \<and> \<not> denied deny fr)"
| "pc_gated hook deny pc = True"

lemma snapshot_ctx [simp]:
  "snapshot (fr\<lparr>fr_ctx := c\<rparr>) entry \<longleftrightarrow> snapshot fr entry" "denied deny (fr\<lparr>fr_ctx := c\<rparr>) \<longleftrightarrow> denied deny fr"
  by (simp_all add: snapshot_def denied_def)

lemma enterStep_gated: "pc_gated hook deny (enterStep rt mx c server tool args start)"
  by (auto simp: enterStep_def Let_def snapshot_def split: option.split sum.split)

lemma upstreamStep_gated: "upstreamStep rt mx fr entry a s = (pc', s') \<Longrightarrow> pc_gated hook deny pc'"
  by (auto simp: upstreamStep_def Let_def split: option.splits prod.splits)

context gate_hook
begin

lemma callStep_gated:
  assumes "hook \<in> set (o_beforeCall (mx_opts mx))" "pc_gated hook deny pc" "callStep rt mx pc s = (pc', s')"
  shows "pc_gated hook deny pc'"
proof (cases "(rt, mx, pc, s)" rule: callStep.cases)
  case (1 rt mx c server tool args s)
  with assms show ?thesis using enterStep_gated [of hook deny rt mx] by auto
next
  case (5 rt mx fr entry arguments h hooks s)
  with assms denies [of "fr_server fr" "fr_tool fr" "fr_info fr" "fr_ctx fr" "fr_args fr" "st_env s"] show ?thesis
    by (auto simp: Let_def denied_def split: prod.splits outcome.splits option.splits)
next
  case (8 rt mx fr entry arguments s)
  with assms show ?thesis using upstreamStep_gated [of rt mx fr entry arguments s pc' s'] by simp
qed (use assms in \<open>auto simp: Let_def split: if_splits option.splits prod.splits outcome.splits\<close>)

end

sublocale gate_hook \<subseteq> calls: call_invariant rt opts "\<lambda>s. True"
  "\<lambda>pc. hook \<in> set (o_beforeCall opts) \<longrightarrow> pc_gated hook deny pc" for rt opts
  by unfold_locales (auto intro: callStep_gated)

text \<open>
  C22. No race around \<open>DenyDestructive\<close>: with that hook anywhere in the chain, in every
  interleaving of calls, goroutines and \<open>Close\<close> after \<open>New\<close>, no call that is about to ask the
  cache or a server is one of a tool that the entry it works on describes as destructive. A
  refresh that changes the tool while the call is on its way does not change what was checked:
  the call goes on with the entry it was checked against.\<close>

theorem concurrent_gate:
  assumes sched: "\<And>xs. mset (sched xs) = mset xs"
    and new: "New rt bi sched c cfg opts s = (Inr (mx, gs), s')" and hook: "DenyDestructive \<in> set (o_beforeCall (mx_opts mx))"
    and run: "(joint_step rt c)\<^sup>*\<^sup>* (started mx gs s', []) (y, pcs)"
    and pc: "CGet fr entry a \<in> set pcs \<or> CUpstream fr entry a \<in> set pcs"
    and info: "find (\<lambda>ti. ti_Name ti = fr_tool fr) (se_tools entry) = Some info"
  shows "\<not> ti_Destructive info"
proof -
  have "list_all (\<lambda>pc. DenyDestructive \<in> set (o_beforeCall (mx_opts mx)) \<longrightarrow>
      pc_gated DenyDestructive (\<lambda>server tool info. ti_Destructive info) pc) pcs"
    by (rule destructive.calls.reached(1) [OF run]) (simp_all add: started_inv [OF sched new], simp add: started_def)
  with hook pc info show ?thesis
    by (auto simp: list_all_iff snapshot_def denied_def dest: bspec)
qed

section \<open>Every call is sent at most once\<close>

fun unsent :: "'w callPc \<Rightarrow> nat" where
  "unsent (CEnter c server tool args) = 1"
| "unsent (CLog fr entry a) = 1"
| "unsent (CBefore fr entry a hooks) = 1"
| "unsent (CWarn fr entry a) = 1"
| "unsent (CGet fr entry a) = 1"
| "unsent (CUpstream fr entry a) = 1"
| "unsent pc = 0"

abbreviation sends :: "'w st \<Rightarrow> nat" where
  "sends s \<equiv> length (traced {KUpstream} s)"

lemma unsent_le: "unsent pc \<le> 1"
  by (cases pc) simp_all

lemma upstreamStep_sent: "upstreamStep rt mx fr entry a s = (pc', s') \<Longrightarrow> sends s' + unsent pc' \<le> Suc (sends s)"
  by (auto simp: upstreamStep_def Let_def split: option.splits prod.splits)

lemma cacheGet_traced: "cacheGet rt cr c key s = (res, s') \<Longrightarrow> traced {KUpstream} s' = traced {KUpstream} s"
  by (auto simp: cacheGet_def Let_def split: cacheRef.splits prod.splits)

lemma cacheSet_traced [simp]: "traced {KUpstream} (cacheSet rt cr c key r ttl s) = traced {KUpstream} s"
  by (simp add: cacheSet_def Let_def split: cacheRef.split)

lemma callStep_sent:
  assumes "callStep rt mx pc s = (pc', s')"
  shows "sends s' + unsent pc' \<le> sends s + unsent pc"
proof (cases "(rt, mx, pc, s)" rule: callStep.cases)
  case (1 rt mx c server tool args s)
  with assms show ?thesis using unsent_le [of pc'] by auto
next
  case (7 rt mx fr entry arguments s)
  with assms show ?thesis by (auto split: prod.splits option.splits dest: cacheGet_traced)
next
  case (8 rt mx fr entry arguments s)
  with assms show ?thesis using upstreamStep_sent [of rt mx fr entry arguments s pc' s'] by simp
next
  case (14 rt mx fr result callErr dur rc s)
  with assms show ?thesis by (auto simp: recordStep_def split: recording.split)
qed (use assms in \<open>auto simp: Let_def logCall_frame warnScope_frame split: if_splits option.splits prod.splits outcome.splits\<close>)

lemma sum_list_update: "i < length xs \<Longrightarrow> sum_list (xs[i := x]) + xs ! i = sum_list xs + (x :: nat)"
  by (induction xs arbitrary: i) (auto simp: nth_Cons split: nat.splits)

lemma joint_step_sent:
  "joint_step rt c q q' \<Longrightarrow>
   sends (sy_st (fst q')) + sum_list (map unsent (snd q')) + length (snd q) \<le>
   sends (sy_st (fst q)) + sum_list (map unsent (snd q)) + length (snd q')"
proof (induction rule: joint_step.induct)
  case (background y y' pcs)
  then show ?case by (simp add: undisturbed_def)
next
  case (advances i pcs y pc' s')
  with callStep_sent [OF advances(2)] sum_list_update [of i "map unsent pcs" "unsent pc'"] show ?case
    by (simp add: map_update)
qed simp

text \<open>
  C7. No call is sent twice: in every interleaving, whatever fails or comes back meanwhile,
  there are at most as many calls to the servers as there are calls of \<open>CallTool\<close>, and those
  still on their way to a server are not among them: a call is never repeated above its transport.\<close>

theorem concurrent_sent_once:
  assumes "(joint_step rt c)\<^sup>*\<^sup>* (y, []) (y', pcs)"
  shows "length (traced {KUpstream} (sy_st y')) + sum_list (map unsent pcs) \<le> length (traced {KUpstream} (sy_st y)) + length pcs"
proof -
  have "sends (sy_st (fst q)) + sum_list (map unsent (snd q)) \<le> sends (sy_st y) + length (snd q)"
    if "(joint_step rt c)\<^sup>*\<^sup>* (y, []) q" for q
    using that by (induction rule: rtranclp_induct) (auto dest: joint_step_sent)
  from this [OF assms] show ?thesis by simp
qed

section \<open>A concrete run\<close>

text \<open>The system of one server, with a hook that denies destructive tools and one that hides texts.\<close>

definition duo_new :: "(err + int mx \<times> goroutine list) \<times> int st" where
  "duo_new = New hl_rt None id ctx_Background hl_cfg [WithBeforeCall DenyDestructive, WithResultTransform hide] demo_st"

definition duo_mx :: "int mx" where
  "duo_mx = fst (projr (fst duo_new))"

definition duo_gs :: "goroutine list" where
  "duo_gs = snd (projr (fst duo_new))"

lemma duo_new: "New hl_rt None id ctx_Background hl_cfg [WithBeforeCall DenyDestructive, WithResultTransform hide] demo_st =
    (Inr (duo_mx, duo_gs), snd duo_new)"
proof -
  have "\<not> isl (fst duo_new)" by code_simp
  then have "duo_new = (Inr (duo_mx, duo_gs), snd duo_new)"
    by (cases "fst duo_new") (simp_all add: prod_eq_iff duo_mx_def duo_gs_def)
  then show ?thesis by (simp only: duo_new_def)
qed

lemma duo_opts: "o_beforeCall (mx_opts duo_mx) = [DenyDestructive]" "o_resultTransform (mx_opts duo_mx) = [] @ [hide]"
  "o_afterCall (mx_opts duo_mx) = []" "o_cache (mx_opts duo_mx) = None" "0 < o_cacheSize (mx_opts duo_mx)"
  by (simp_all add: New_opts [OF duo_new] applyOptions_def WithBeforeCall_def WithResultTransform_def defaultOptions_def
      defaultCacheSize_def)

lemma duo_calm: "hooks_calm duo_mx"
  by (simp add: hooks_calm_def duo_opts DenyDestructive_def hide_def)

abbreviation duo_start :: "int sys" where
  "duo_start \<equiv> started duo_mx duo_gs (snd duo_new)"

definition duo_call :: "nat \<Rightarrow> int callPc \<times> int st" where
  "duo_call n = (solo hl_rt duo_mx ^^ n) (CEnter ctx_Background ''a'' ''get'' [], snd duo_new)"

text \<open>One call, some steps on its way.\<close>

lemma duo_run:
  "(joint_step hl_rt ctx_Background)\<^sup>*\<^sup>* (duo_start, []) (duo_start\<lparr>sy_st := snd (duo_call n)\<rparr>, [fst (duo_call n)])"
  using arrive_alone [of hl_rt ctx_Background duo_start "[]" n ctx_Background "''a''" "''get''" "[]"]
  by (simp add: duo_call_def started_def)

definition duo_answer :: CallResult where
  "duo_answer = demo_answer\<lparr>cr_Text := ''***''\<rparr>"

lemma duo_done: "\<exists>s'. duo_call 13 = (CDone (Ret (Some duo_answer, None)), s')"
proof -
  have "fst (CallTool hl_rt duo_mx ctx_Background ''a'' ''get'' [] (snd duo_new)) = Ret (Some duo_answer, None)" by code_simp
  with solo_ends [OF _ ends_CallTool, of duo_mx ctx_Background "''a''" "''get''" "[]" 13 hl_rt "snd duo_new"] show ?thesis
    by (simp add: duo_call_def duo_opts)
qed

lemma duo_asks: "\<exists>fr entry a s'. duo_call 5 = (CGet fr entry a, s')"
proof -
  have "(case fst (duo_call 5) of CGet fr entry a \<Rightarrow> True | _ \<Rightarrow> False)" by code_simp
  then show ?thesis by (cases "duo_call 5") (auto split: callPc.splits)
qed

theorem concurrent_calls_return_witness: "CDone Panic \<notin> set [fst (duo_call 13)]"
  by (rule concurrent_calls_return [OF hl_sched duo_new duo_calm duo_run])

theorem concurrent_results_witness:
  "CDone (Ret (Some duo_answer, None)) \<in> set [fst (duo_call 13)] \<and> cr_Text duo_answer = ''***''"
proof -
  obtain s' where "duo_call 13 = (CDone (Ret (Some duo_answer, None)), s')" using duo_done by blast
  then have "CDone (Ret (Some duo_answer, None)) \<in> set [fst (duo_call 13)]" by simp
  with concurrent_results [OF hl_sched duo_new duo_opts(2), of "\<lambda>r. cr_Text r = ''***''" _ "[fst (duo_call 13)]" duo_answer None]
    duo_run [of 13]
  show ?thesis by (auto simp: duo_opts hide_def DenyDestructive_def split: if_splits)
qed

theorem concurrent_gate_witness:
  "\<exists>fr entry a s'. duo_call 5 = (CGet fr entry a, s') \<and>
     (\<forall>info. find (\<lambda>ti. ti_Name ti = fr_tool fr) (se_tools entry) = Some info \<longrightarrow> \<not> ti_Destructive info)"
proof -
  obtain fr entry a s' where at: "duo_call 5 = (CGet fr entry a, s')" using duo_asks by blast
  then have "CGet fr entry a \<in> set [fst (duo_call 5)] \<or> CUpstream fr entry a \<in> set [fst (duo_call 5)]" by simp
  with concurrent_gate [OF hl_sched duo_new _ duo_run [of 5]] at show ?thesis by (auto simp: duo_opts)
qed

theorem concurrent_sent_once_witness:
  "length (traced {KUpstream} (snd (duo_call 13))) + sum_list (map unsent [fst (duo_call 13)]) \<le>
   length (traced {KUpstream} (snd duo_new)) + 1"
  using concurrent_sent_once [OF duo_run [of 13]] by (simp add: started_def)

end
