(* ===== verification/Examples.thy ===== *)
theory Examples
  imports Concurrent
begin

text \<open>
  The three programs under \<open>examples/\<close>: a first call (\<open>basic\<close>), a gate against
  destructive tools (\<open>policy\<close>) and the redaction of social security numbers in results
  (\<open>redact\<close>). The regular expression of the latter is a matcher of its own, on bytes, as
  all characters it names are ASCII.
\<close>

section \<open>Definitions\<close>

text \<open>What a program writes, and how its \<open>main\<close> ends: an exit code, or a panic.\<close>

datatype written = Stdout string | Stderr string err

type_synonym 'w program = "nat outcome \<times> written list \<times> 'w st"

subsection \<open>basic\<close>

definition basicConfig :: MultiplexerConfig where
  "basicConfig =
     \<lparr>mc_Servers =
        [zeroServerConfig\<lparr>sc_Name := ''files'', sc_Transport := TransportStdio,
           sc_Binary := ''/usr/bin/mcp-server-filesystem'', sc_Args := [''/tmp'']\<rparr>,
         zeroServerConfig\<lparr>sc_Name := ''remote'', sc_Transport := TransportHTTP,
           sc_URL := ''http://localhost:3000''\<rparr>],
      mc_KindSettings = [], mc_KindHints = None\<rparr>"

text \<open>
  The error \<open>run\<close> wraps, with the prefix of its format. \<open>defer mx.Close()\<close> runs on every
  way out of \<open>run\<close> behind it, also when the call panics; reading \<open>result.Text\<close> from a nil
  result would panic.
\<close>

definition run ::
  "'w rt \<Rightarrow> string option \<Rightarrow> (ServerConfig list \<Rightarrow> ServerConfig list) \<Rightarrow> 'w st \<Rightarrow>
   (string \<times> err) option outcome \<times> written list \<times> 'w st" where
  "run rt bi sched s =
     (case New rt bi sched ctx_Background basicConfig [] s of
        (Inl e, s) \<Rightarrow> (Ret (Some (''connect: '', e)), [], s)
      | (Inr (mx, gs), s) \<Rightarrow>
          (let args = (case marshalMap rt (Some [(''path'', AStr ''/tmp'')]) of Some b \<Rightarrow> b | None \<Rightarrow> []);
               (out, s) = CallTool rt mx ctx_Background ''files'' ''list_directory'' args s
           in case out of
                Panic \<Rightarrow> (Panic, [], Close rt mx s)
              | Ret (result, Some e) \<Rightarrow> (Ret (Some (''call: '', e)), [], Close rt mx s)
              | Ret (None, None) \<Rightarrow> (Panic, [], Close rt mx s)
              | Ret (Some r, None) \<Rightarrow> (Ret None, [Stdout (cr_Text r)], Close rt mx s)))"

definition basicMain ::
  "'w rt \<Rightarrow> string option \<Rightarrow> (ServerConfig list \<Rightarrow> ServerConfig list) \<Rightarrow> 'w st \<Rightarrow> 'w program" where
  "basicMain rt bi sched s =
     (case run rt bi sched s of
        (Panic, out, s) \<Rightarrow> (Panic, out, s)
      | (Ret (Some (prefix, e)), out, s) \<Rightarrow> (Ret 1, out @ [Stderr prefix e], s)
      | (Ret None, out, s) \<Rightarrow> (Ret 0, out, s))"

subsection \<open>policy\<close>

definition blockDestructive :: "'w BeforeCallHook" where
  "blockDestructive c server tool info args w =
     (if ti_Destructive info then (Ret (None, None, Some (ErrText ''blocked: destructive tool'')), w)
      else (Ret (None, None, None), w))"

definition exampleConfig :: MultiplexerConfig where
  "exampleConfig =
     \<lparr>mc_Servers = [zeroServerConfig\<lparr>sc_Name := ''myserver'', sc_Transport := TransportHTTP,
        sc_URL := ''http://localhost:3000''\<rparr>],
      mc_KindSettings = [], mc_KindHints = None\<rparr>"

definition policyMain ::
  "'w rt \<Rightarrow> string option \<Rightarrow> (ServerConfig list \<Rightarrow> ServerConfig list) \<Rightarrow> 'w st \<Rightarrow> 'w program" where
  "policyMain rt bi sched s =
     (case New rt bi sched ctx_Background exampleConfig [WithBeforeCall blockDestructive] s of
        (Inl e, s) \<Rightarrow> (Ret 1, [Stderr ''connect: '' e], s)
      | (Inr (mx, gs), s) \<Rightarrow>
          (Ret 0, [Stdout ''Multiplexer ready. Destructive tools are blocked.''], Close rt mx s))"

subsection \<open>redact\<close>

text \<open>The space and digit classes of regular expressions in Go are ASCII classes.\<close>

definition isSpace :: "char \<Rightarrow> bool" where
  "isSpace ch \<longleftrightarrow> ch \<in> set [CHR 0x09, CHR 0x0A, CHR 0x0C, CHR 0x0D, CHR 0x20]"

definition isDigit :: "char \<Rightarrow> bool" where
  "isDigit ch \<longleftrightarrow> ch \<in> set ''0123456789''"

text \<open>Three digits, two digits and four digits, with dashes between them.\<close>

definition ssnDigits :: "string \<Rightarrow> bool" where
  "ssnDigits d \<longleftrightarrow> list_all2 (\<lambda>ch p. if p = CHR ''-'' then ch = p else isDigit ch) d ''ddd-dd-dddd''"

text \<open>
  A match of \<open>ssnPattern\<close> at the start of a text, and what follows it. A digit is no
  space, so the greedy run of spaces has one way to match.
\<close>

definition ssnMatch :: "string \<Rightarrow> string option" where
  "ssnMatch u =
     (if take 4 u = ''SSN:'' then
        (let v = dropWhile isSpace (drop 4 u)
         in if ssnDigits (take 11 v) then Some (drop 11 v) else None)
      else None)"

definition ssnReplacement :: string where
  "ssnReplacement = ''SSN: [REDACTED]''"

lemma ssnMatch_shorter: "ssnMatch u = Some v \<Longrightarrow> length v < length u"
proof -
  assume m: "ssnMatch u = Some v"
  have "length (dropWhile isSpace (drop 4 u)) \<le> length u - 4"
    using length_dropWhile_le [of isSpace "drop 4 u"] by simp
  moreover have "4 \<le> length u"
    using m by (cases "4 \<le> length u") (auto simp: ssnMatch_def dest!: arg_cong [of _ _ length] split: if_splits)
  ultimately show ?thesis
    using m by (auto simp: ssnMatch_def Let_def split: if_splits)
qed

text \<open>\<open>ReplaceAllString\<close>: the leftmost match, and on from where it ends.\<close>

function redactText :: "string \<Rightarrow> string" where
  "redactText u =
     (case u of
        [] \<Rightarrow> []
      | ch # rest \<Rightarrow>
          (case ssnMatch u of
             Some v \<Rightarrow> ssnReplacement @ redactText v
           | None \<Rightarrow> ch # redactText rest))"
  by auto
termination by (relation "measure length") (auto dest: ssnMatch_shorter)

declare redactText.simps [simp del]

definition redactPart :: "ContentPart \<Rightarrow> ContentPart" where
  "redactPart p = (if cp_Kind p = ContentText then p\<lparr>cp_Text := redactText (cp_Text p)\<rparr> else p)"

definition redact :: "'w ResultTransformHook" where
  "redact c server tool info result w =
     (let result = result\<lparr>cr_Text := redactText (cr_Text result)\<rparr>;
          result = result\<lparr>cr_Parts := map redactPart (cr_Parts result)\<rparr>
      in (Ret (result, None), w))"

definition redactMain ::
  "'w rt \<Rightarrow> string option \<Rightarrow> (ServerConfig list \<Rightarrow> ServerConfig list) \<Rightarrow> 'w st \<Rightarrow> 'w program" where
  "redactMain rt bi sched s =
     (case New rt bi sched ctx_Background exampleConfig [WithResultTransform redact] s of
        (Inl e, s) \<Rightarrow> (Ret 1, [Stderr ''connect: '' e], s)
      | (Inr (mx, gs), s) \<Rightarrow>
          (Ret 0, [Stdout ''Multiplexer ready. SSN values will be redacted from results.''], Close rt mx s))"

section \<open>Redacted texts\<close>

text \<open>A text holds a number if the pattern matches somewhere in it.\<close>

fun hasSSN :: "string \<Rightarrow> bool" where
  "hasSSN [] = False"
| "hasSSN (ch # u) = (ssnMatch (ch # u) \<noteq> None \<or> hasSSN u)"

lemma redactText_Nil [simp]: "redactText [] = []"
  by (simp add: redactText.simps)

lemma redactText_hit: "ssnMatch u = Some v \<Longrightarrow> redactText u = ssnReplacement @ redactText v"
  by (cases u) (simp_all add: redactText.simps ssnMatch_def)

lemma redactText_miss: "ssnMatch (ch # u) = None \<Longrightarrow> redactText (ch # u) = ch # redactText u"
  by (simp add: redactText.simps)

lemma isDigit_not_space: "isDigit ch \<Longrightarrow> \<not> isSpace ch"
  by (auto simp: isDigit_def isSpace_def)

lemma ssnDigits_chars: "ssnDigits d \<Longrightarrow> ch \<in> set d \<Longrightarrow> isDigit ch \<or> ch = CHR ''-''"
  unfolding ssnDigits_def list_all2_conv_all_nth in_set_conv_nth by (metis (full_types))

lemma ssnDigits_props:
  assumes "ssnDigits d"
  shows "length d = 11" "\<not> isSpace (hd d)" "CHR ''S'' \<notin> set d"
proof -
  show l: "length d = 11" using assms by (auto simp: ssnDigits_def dest: list_all2_lengthD)
  then have "hd d \<in> set d" by (cases d) simp_all
  from ssnDigits_chars [OF assms this] isDigit_not_space show "\<not> isSpace (hd d)"
    by (auto simp: isSpace_def)
  show "CHR ''S'' \<notin> set d" using ssnDigits_chars [OF assms, of "CHR ''S''"] by (auto simp: isDigit_def)
qed

lemma spaces_no_S: "list_all isSpace sp \<Longrightarrow> CHR ''S'' \<notin> set sp"
  by (induction sp) (auto simp: isSpace_def)

lemma ssnMatch_iff:
  "ssnMatch u = Some v \<longleftrightarrow>
     (\<exists>sp d. u = ''SSN:'' @ sp @ d @ v \<and> list_all isSpace sp \<and> ssnDigits d)"
proof
  assume m: "ssnMatch u = Some v"
  let ?t = "drop 4 u"
  have p: "take 4 u = ''SSN:''" and v: "v = drop 11 (dropWhile isSpace ?t)"
    using m by (auto simp: ssnMatch_def Let_def split: if_splits)
  have "u = ''SSN:'' @ ?t" using append_take_drop_id [of 4 u] unfolding p by simp
  also have "?t = takeWhile isSpace ?t @ take 11 (dropWhile isSpace ?t) @ v"
    unfolding v append_take_drop_id takeWhile_dropWhile_id ..
  finally have "u = ''SSN:'' @ takeWhile isSpace ?t @ take 11 (dropWhile isSpace ?t) @ v" .
  moreover have "list_all isSpace (takeWhile isSpace ?t)"
    by (auto simp: list_all_iff dest: set_takeWhileD)
  moreover have "ssnDigits (take 11 (dropWhile isSpace ?t))"
    using m by (auto simp: ssnMatch_def Let_def split: if_splits)
  ultimately show "\<exists>sp d. u = ''SSN:'' @ sp @ d @ v \<and> list_all isSpace sp \<and> ssnDigits d" by blast
next
  assume "\<exists>sp d. u = ''SSN:'' @ sp @ d @ v \<and> list_all isSpace sp \<and> ssnDigits d"
  then obtain sp d where u: "u = ''SSN:'' @ sp @ d @ v" and sp: "list_all isSpace sp" and d: "ssnDigits d" by blast
  have "dropWhile isSpace (sp @ d @ v) = d @ v"
    using sp ssnDigits_props [OF d] by (cases d) (auto simp: list_all_iff dropWhile_append2)
  with d ssnDigits_props(1) [OF d] show "ssnMatch u = Some v"
    by (simp add: ssnMatch_def u)
qed

text \<open>A piece of the redacted text without the letter S comes from the text itself.\<close>

lemma redactText_piece:
  "redactText u = p @ q \<Longrightarrow> CHR ''S'' \<notin> set p \<Longrightarrow> \<exists>u'. u = p @ u' \<and> q = redactText u'"
proof (induction p arbitrary: u)
  case (Cons x p)
  have "ssnMatch u = None"
    using Cons.prems redactText_hit [of u] by (cases "ssnMatch u") (auto simp: ssnReplacement_def)
  with Cons show ?case
    by (cases u) (auto simp: redactText_miss)
qed simp

lemma redactText_no_match: "ssnMatch (ch # u) = None \<Longrightarrow> ssnMatch (ch # redactText u) = None"
proof (rule ccontr)
  assume none: "ssnMatch (ch # u) = None" and "ssnMatch (ch # redactText u) \<noteq> None"
  then obtain sp d v where m: "ch # redactText u = ''SSN:'' @ sp @ d @ v"
    and sp: "list_all isSpace sp" and d: "ssnDigits d"
    by (auto simp: ssnMatch_iff)
  then have ch: "ch = CHR ''S''" and red: "redactText u = CHR ''S'' # (''N:'' @ sp @ d) @ v" by auto
  have "ssnMatch u = None"
    using red redactText_hit [of u] by (cases "ssnMatch u") (auto simp: ssnReplacement_def)
  with red obtain u0 where u: "u = CHR ''S'' # u0" and "redactText u0 = (''N:'' @ sp @ d) @ v"
    by (cases u) (auto simp: redactText_miss)
  moreover have "CHR ''S'' \<notin> set (''N:'' @ sp @ d)"
    using sp ssnDigits_props(3) [OF d] spaces_no_S by simp
  ultimately obtain v' where "u0 = (''N:'' @ sp @ d) @ v'" using redactText_piece by blast
  with u ch sp d have "ssnMatch (ch # u) = Some v'" by (auto simp: ssnMatch_iff)
  with none show False by simp
qed

lemma hasSSN_replacement: "hasSSN (ssnReplacement @ u) = hasSSN u"
  by (simp add: ssnReplacement_def ssnMatch_def isSpace_def ssnDigits_def Let_def list_all2_Cons2 isDigit_def)

lemma redactText_clean: "\<not> hasSSN (redactText u)"
proof (induction u rule: redactText.induct)
  case (1 u)
  show ?case
  proof (cases u)
    case (Cons ch rest)
    show ?thesis
    proof (cases "ssnMatch u")
      case None
      with 1(1) [OF Cons None] Cons redactText_no_match [of ch rest] show ?thesis by (simp add: redactText_miss)
    next
      case (Some v)
      with 1(2) [OF Cons Some] show ?thesis by (simp add: redactText_hit hasSSN_replacement)
    qed
  qed simp
qed

lemma redactText_id: "\<not> hasSSN u \<Longrightarrow> redactText u = u"
  by (induction u) (simp_all add: redactText_miss)

text \<open>
  Redaction: no text holds a number after it, a text that held none is unchanged, and a
  second redaction changes nothing; the text before the first number is kept, the number is
  replaced, and redaction goes on behind it.\<close>

theorem redactText_spec:
  "\<not> hasSSN (redactText u) \<and> (\<not> hasSSN u \<longrightarrow> redactText u = u) \<and> redactText (redactText u) = redactText u \<and>
   (ssnMatch q = Some v \<and> (\<forall>i < length p. ssnMatch (drop i (p @ q)) = None) \<longrightarrow>
      redactText (p @ q) = p @ ssnReplacement @ redactText v)"
proof (intro conjI impI)
  show "redactText (p @ q) = p @ ssnReplacement @ redactText v"
    if "ssnMatch q = Some v \<and> (\<forall>i < length p. ssnMatch (drop i (p @ q)) = None)"
    using that
  proof (induction p)
    case Nil
    then show ?case by (simp add: redactText_hit)
  next
    case (Cons x p)
    from Cons.prems have "ssnMatch (x # p @ q) = None" by force
    moreover have "\<forall>i < length p. ssnMatch (drop i (p @ q)) = None"
      using Cons.prems by (metis Suc_less_eq append_Cons drop_Suc_Cons length_Cons)
    ultimately show ?case using Cons by (simp add: redactText_miss)
  qed
qed (simp_all add: redactText_clean redactText_id)

section \<open>New on the configurations of the examples\<close>

lemma New_ok:
  assumes "config_ok cfg (applyOptions bi opts)"
  obtains mx gs s' where "New rt bi sched c cfg opts s = (Inr (mx, gs), s')"
proof -
  have "\<exists>p s'. New rt bi sched c cfg opts s = (Inr p, s')"
    using assms unfolding checkConfig_None [symmetric] by (simp add: New_def Let_def case_prod_beta)
  then show thesis using that by (metis surj_pair)
qed

lemma servers_ok:
  "list_all (\<lambda>sc. validate sc = None \<and> sc_Auth sc = None) (mc_Servers basicConfig)"
  "distinct (map sc_Name (mc_Servers basicConfig))"
  "list_all (\<lambda>sc. validate sc = None \<and> sc_Auth sc = None) (mc_Servers exampleConfig)"
  "distinct (map sc_Name (mc_Servers exampleConfig))"
  by code_simp+

lemma options_ok:
  "\<not> o_healthCheckSet (applyOptions bi [])"
  "\<not> o_healthCheckSet (applyOptions bi [WithBeforeCall b])"
  "\<not> o_healthCheckSet (applyOptions bi [WithResultTransform t])"
  by (simp_all add: applyOptions_def defaultOptions_def WithBeforeCall_def WithResultTransform_def)

lemma configs_ok:
  "config_ok basicConfig (applyOptions bi [])"
  "config_ok exampleConfig (applyOptions bi [WithBeforeCall b])"
  "config_ok exampleConfig (applyOptions bi [WithResultTransform t])"
  using servers_ok by (auto simp: config_ok_def options_ok list_all_iff)

section \<open>The programs\<close>

text \<open>
  The \<open>basic\<close> program ends, without a panic, whatever the servers do: \<open>New\<close> accepts its
  configuration, so an unreachable server shows as an error of the call; then the text of
  the result is printed with exit code 0, or the error with exit code 1, and in both cases
  the multiplexer is closed, as the last step.\<close>

theorem basicMain_ends:
  assumes "\<And>xs. mset (sched xs) = mset xs"
  shows "\<exists>mx gs s0 args out s1.
    New rt bi sched ctx_Background basicConfig [] s = (Inr (mx, gs), s0) \<and>
    CallTool rt mx ctx_Background ''files'' ''list_directory'' args s0 = (out, s1) \<and>
    ((\<exists>r. out = Ret (Some r, None) \<and> basicMain rt bi sched s = (Ret 0, [Stdout (cr_Text r)], Close rt mx s1)) \<or>
     (\<exists>e. out = Ret (None, Some e) \<and> basicMain rt bi sched s = (Ret 1, [Stderr ''call: '' e], Close rt mx s1)))"
proof -
  obtain mx gs s0 where new: "New rt bi sched ctx_Background basicConfig [] s = (Inr (mx, gs), s0)"
    by (rule New_ok [OF configs_ok(1)])
  define args where "args = (case marshalMap rt (Some [(''path'', AStr ''/tmp'')]) of Some b \<Rightarrow> b | None \<Rightarrow> [])"
  obtain out s1 where call: "CallTool rt mx ctx_Background ''files'' ''list_directory'' args s0 = (out, s1)"
    by fastforce
  have "hooks_calm mx"
    by (simp add: hooks_calm_def New_opts [OF new] applyOptions_def defaultOptions_def)
  moreover have "sessions_present mx"
    using New_entries [OF assms new] by (fastforce simp: sessions_present_def list_all_iff gm_ok_def split: if_splits)
  ultimately have "out \<noteq> Panic"
    using CallTool_calm [of mx rt ctx_Background "''files''" "''list_directory''" args s0] call by simp
  moreover have "one_of (out, s1)"
    using CallTool_result_or_error [of rt mx ctx_Background "''files''" "''list_directory''" args s0] call by simp
  ultimately have "(\<exists>r. out = Ret (Some r, None)) \<or> (\<exists>e. out = Ret (None, Some e))"
    by (cases out) (auto simp: one_of_def split: prod.splits)
  then show ?thesis
    by (intro exI [of _ mx] exI [of _ gs] exI [of _ s0] exI [of _ args] exI [of _ out] exI [of _ s1])
       (auto simp: new call basicMain_def run_def args_def [symmetric])
qed

text \<open>
  The other two only start and close a multiplexer; they always report that it is ready.\<close>

theorem mains_ready:
  "fst (policyMain rt bi sched s) = Ret 0 \<and> fst (redactMain rt bi sched s) = Ret 0"
  by (rule New_ok [OF configs_ok(2) [of bi blockDestructive], of rt sched ctx_Background s],
      rule New_ok [OF configs_ok(3) [of bi redact], of rt sched ctx_Background s])
     (simp add: policyMain_def redactMain_def)

interpretation block: gate_hook blockDestructive "\<lambda>server tool info. ti_Destructive info"
  by unfold_locales (simp add: blockDestructive_def)

text \<open>
  In the multiplexer of the \<open>policy\<close> program, with its entries as any background goroutine
  leaves them, a call of a destructive tool reaches neither the server nor the cache.\<close>

theorem policy_blocks:
  assumes "New rt bi sched ctx_Background exampleConfig [WithBeforeCall blockDestructive] s0 = (Inr (mx, gs), s1)"
    and "mx_opts mx' = mx_opts mx" "gm_get (mx_servers mx') server = Some entry"
    and "find (\<lambda>ti. ti_Name ti = tool) (se_tools entry) = Some info" "ti_Destructive info"
  shows "traced {KUpstream, KCacheGet, KCacheSet} (snd (CallTool rt mx' c server tool args s)) =
         traced {KUpstream, KCacheGet, KCacheSet} s"
  by (rule block.blocked [OF _ assms(3-5)])
     (simp add: assms(2) New_opts [OF assms(1)] applyOptions_def WithBeforeCall_def)

definition redacted :: "CallResult \<Rightarrow> bool" where
  "redacted r \<longleftrightarrow> \<not> hasSSN (cr_Text r) \<and> list_all (\<lambda>p. cp_Kind p = ContentText \<longrightarrow> \<not> hasSSN (cp_Text p)) (cr_Parts r)"

lemma redact_redacts: "redact c server tool info r w = (Ret (r', None), w') \<Longrightarrow> redacted r'"
  by (auto simp: redact_def redacted_def redactPart_def redactText_clean list_all_iff)

text \<open>
  C30. No result of the \<open>redact\<close> program shows a social security number: in any interleaving
  of calls to the multiplexer it starts, of its background goroutines and of \<open>Close\<close>, neither
  the text nor a text part of a result that a call has returned matches the pattern, be it
  fresh or from the cache.\<close>

theorem redacted_results:
  assumes sched: "\<And>xs. mset (sched xs) = mset xs"
    and new: "New rt bi sched ctx_Background exampleConfig [WithResultTransform redact] s = (Inr (mx, gs), s')"
    and run: "(joint_step rt ctx_Background)\<^sup>*\<^sup>* (started mx gs s', []) (y, pcs)"
    and out: "CDone (Ret (Some r, e)) \<in> set pcs"
  shows "\<not> hasSSN (cr_Text r) \<and> list_all (\<lambda>p. cp_Kind p = ContentText \<longrightarrow> \<not> hasSSN (cp_Text p)) (cr_Parts r)"
proof -
  have opts: "o_resultTransform (mx_opts mx) = [redact]" "o_beforeCall (mx_opts mx) = []" "o_afterCall (mx_opts mx) = []"
      "o_cache (mx_opts mx) = None" "0 < o_cacheSize (mx_opts mx)"
    by (simp_all add: New_opts [OF new] applyOptions_def WithResultTransform_def defaultOptions_def defaultCacheSize_def)
  then have "filtering redacted (mx_opts mx)"
    by (auto simp: filtering_def intro: redact_redacts)
  from filtered_results [OF sched new this opts(5) run out] show ?thesis by (simp add: redacted_def)
qed

section \<open>A run of the examples\<close>

text \<open>A server whose one tool answers with a number; the second call is answered by the cache.\<close>

definition ssn_rt :: "int rt" where
  "ssn_rt = mux_rt\<lparr>rt_Connect := (\<lambda>c tp a b w. (Inr 5, w)),
     rt_CallTool := (\<lambda>sess c t a w.
       ((Some \<lparr>mr_Content = [TextContent ''SSN: 123-45-6789 ok''], mr_IsError = False\<rparr>, None), w + 1))\<rparr>"

definition ssn_new :: "(err + int mx \<times> goroutine list) \<times> int st" where
  "ssn_new = New ssn_rt None id ctx_Background exampleConfig [WithResultTransform redact] demo_st"

definition ssn_answer :: CallResult where
  "ssn_answer = \<lparr>cr_Text = ''SSN: [REDACTED] ok'', cr_Parts = [\<lparr>cp_Kind = ContentText,
     cp_Text = ''SSN: [REDACTED] ok'', cp_MIMEType = [], cp_Data = None, cp_Raw = None\<rparr>], cr_IsError = False\<rparr>"

lemma ssn_new_ok: "ssn_new = (Inr (fst (projr (fst ssn_new)), snd (projr (fst ssn_new))), snd ssn_new)"
proof -
  have "\<not> isl (fst ssn_new)" by code_simp
  then show ?thesis by (cases "fst ssn_new") (simp_all add: prod_eq_iff)
qed

text \<open>The first call runs to its end, the second arrives and ends with the answer of the cache.\<close>

abbreviation ssn_start :: "int sys" where
  "ssn_start \<equiv> started (fst (projr (fst ssn_new))) (snd (projr (fst ssn_new))) (snd ssn_new)"

definition ssn_first :: "int callPc \<times> int st" where
  "ssn_first = (solo ssn_rt (fst (projr (fst ssn_new))) ^^ 11) (CEnter ctx_Background ''myserver'' ''get'' [], snd ssn_new)"

definition ssn_second :: "int callPc \<times> int st" where
  "ssn_second = (solo ssn_rt (fst (projr (fst ssn_new))) ^^ 11) (CEnter ctx_Background ''myserver'' ''get'' [], snd ssn_first)"

lemma ssn_run:
  "(joint_step ssn_rt ctx_Background)\<^sup>*\<^sup>* (ssn_start, []) (ssn_start\<lparr>sy_st := snd ssn_second\<rparr>, [fst ssn_first, fst ssn_second])"
proof -
  let ?y = "ssn_start\<lparr>sy_st := snd ssn_first\<rparr>"
  have "(joint_step ssn_rt ctx_Background)\<^sup>*\<^sup>* (ssn_start, []) (?y, [fst ssn_first])"
    using arrive_alone [of ssn_rt ctx_Background ssn_start "[]" 11 ctx_Background "''myserver''" "''get''" "[]"]
    by (simp add: ssn_first_def started_def)
  moreover have "(joint_step ssn_rt ctx_Background)\<^sup>*\<^sup>* (?y, [fst ssn_first])
      (ssn_start\<lparr>sy_st := snd ssn_second\<rparr>, [fst ssn_first, fst ssn_second])"
    using arrive_alone [of ssn_rt ctx_Background ?y "[fst ssn_first]" 11 ctx_Background "''myserver''" "''get''" "[]"]
    by (simp add: ssn_second_def started_def)
  ultimately show ?thesis by (rule rtranclp_trans)
qed

lemma ssn_steps:
  "(solo ssn_rt (fst (projr (fst ssn_new))) ^^ 11) (CEnter ctx_Background ''myserver'' ''get'' [], s) =
     (CDone (fst (CallTool ssn_rt (fst (projr (fst ssn_new))) ctx_Background ''myserver'' ''get'' [] s)),
      snd (CallTool ssn_rt (fst (projr (fst ssn_new))) ctx_Background ''myserver'' ''get'' [] s))"
  by (rule solo_ends [OF _ ends_CallTool])
     (simp add: New_opts [OF trans [OF ssn_new_def [symmetric] ssn_new_ok]] applyOptions_def WithResultTransform_def defaultOptions_def)

lemma ssn_done: "fst ssn_second = CDone (Ret (Some ssn_answer, None))" "length (traced {KUpstream} (snd ssn_second)) = 1"
proof -
  let ?call = "CallTool ssn_rt (fst (projr (fst ssn_new))) ctx_Background ''myserver'' ''get'' []"
  have "fst (?call (snd (?call (snd ssn_new)))) = Ret (Some ssn_answer, None) \<and>
      length (traced {KUpstream} (snd (?call (snd (?call (snd ssn_new)))))) = 1"
    by code_simp
  then show "fst ssn_second = CDone (Ret (Some ssn_answer, None))" "length (traced {KUpstream} (snd ssn_second)) = 1"
    by (simp_all add: ssn_second_def ssn_first_def ssn_steps)
qed

theorem basicMain_ends_witness:
  "\<exists>mx gs s0 args out s1.
    New mux_rt None id ctx_Background basicConfig [] demo_st = (Inr (mx, gs), s0) \<and>
    CallTool mux_rt mx ctx_Background ''files'' ''list_directory'' args s0 = (out, s1) \<and>
    ((\<exists>r. out = Ret (Some r, None) \<and> basicMain mux_rt None id demo_st = (Ret 0, [Stdout (cr_Text r)], Close mux_rt mx s1)) \<or>
     (\<exists>e. out = Ret (None, Some e) \<and> basicMain mux_rt None id demo_st = (Ret 1, [Stderr ''call: '' e], Close mux_rt mx s1)))"
  by (rule basicMain_ends) simp

theorem redacted_results_witness:
  "CDone (Ret (Some ssn_answer, None)) \<in> set [fst ssn_first, fst ssn_second] \<and> \<not> hasSSN (cr_Text ssn_answer)"
proof -
  have "CDone (Ret (Some ssn_answer, None)) \<in> set [fst ssn_first, fst ssn_second]" by (simp add: ssn_done)
  with redacted_results [OF hl_sched trans [OF ssn_new_def [symmetric] ssn_new_ok] ssn_run] show ?thesis by blast
qed

text \<open>
  The parts of a result are redacted one by one: a number whose label ends one part and
  whose digits start the next is hidden in the joined text and shows in the parts.
\<close>

lemma redact_split_number:
  "let r = buildResult demo_rt (Some \<lparr>mr_Content = [TextContent ''SSN:'', TextContent ''123-45-6789''], mr_IsError = False\<rparr>);
       r' = (case fst (redact ctx_Background [] [] zeroToolInfo r (0 :: int)) of Ret (r', _) \<Rightarrow> r' | Panic \<Rightarrow> r)
   in cr_Text r' = ssnReplacement \<and> map cp_Text (cr_Parts r') = [''SSN:'', ''123-45-6789'']"
  by code_simp

end
