(* ===== verification/Spec2Isabelle.thy ===== *)
theory Spec2Isabelle
  imports View Recovery Admission Capture TestServer Concurrent Examples
begin

text \<open>
  A verification library for \<open>mcpx\<close>, a Go library that puts many MCP servers behind one
  multiplexer.

  \<^bold>\<open>The program.\<close> \<open>New\<close> (\<open>multiplexer.go\<close>) checks a configuration, connects to every server
  in a goroutine of its own and registers an entry for each, connected or down. \<open>CallTool\<close>
  (\<open>caller.go\<close>) takes a call through a fixed pipeline: find server and tool, check and
  transform the arguments (\<open>validate.go\<close>, \<open>transform.go\<close>), run the BeforeCall hooks, ask the
  response cache (\<open>cache.go\<close>), call the server, run the ResultTransform hooks, store the
  result, run the AfterCall hooks and record metrics. In the background a supervisor probes
  the servers and starts reconnect goroutines (\<open>healthcheck.go\<close>), and a refresh goroutine per
  server fetches its tools anew when it announces a change (\<open>toolrefresh.go\<close>). Views
  (\<open>filter.go\<close>) restrict a multiplexer to some servers, policies (\<open>policy/\<close>) are ready-made
  hooks, adapters connect it to the Eino framework and to loggers.

  \<^bold>\<open>The model.\<close> The state of a multiplexer is the record \<open>mx\<close> of its entries and options. What
  is outside (clock, network, callbacks of the user) is a world of an arbitrary type that is
  passed through; \<open>rt\<close> is the record of the runtime and library functions the code calls, as
  functions on that world. \<open>st\<close> adds the built-in cache, the two warn-once flags and a trace of
  what was called, which the properties speak about. Panics are values of \<open>outcome\<close>, errors
  values of \<open>err\<close>, Go maps association lists with the iteration order as the order of the
  list, durations and times integers of nanoseconds, with the wrap to 64 bits written out where
  the code can reach it.

  \<^bold>\<open>The theories.\<close>
  \<^item> \<open>Prelude\<close>: strings, JSON values, Go maps and the facts the components share.
    \<open>Transform\<close> shows where the arguments go and \<open>Validate\<close> which values are rejected.
  \<^item> \<open>Transform\<close> (\<open>transform.go\<close>), \<open>Validate\<close> (\<open>validate.go\<close>), \<open>Tool\<close> (\<open>tool.go\<close>, with \<open>Clone\<close>
    on a heap of byte slices), \<open>Core\<close> (errors, contexts, log fields), \<open>Config\<close> (\<open>config.go\<close>),
    \<open>Options\<close> (\<open>options.go\<close>, \<open>hooks.go\<close>, \<open>metrics.go\<close>, \<open>logger.go\<close>), \<open>Auth\<close> (\<open>auth/auth.go\<close>),
    \<open>Transport\<close> (\<open>transport.go\<close>, \<open>auth_func.go\<close>).
  \<^item> \<open>Cache\<close>: the LRU cache with its linked list and index, refined to a list in order of
    recency; a hit is the last value stored and not expired, recent keys are retained, keys of
    different scopes differ.
  \<^item> \<open>Runtime\<close> and \<open>Registry\<close>: the state and trace, and the read operations of the multiplexer
    (\<open>ServerNames\<close>, \<open>AllTools\<close>, \<open>ToolsForServers\<close>, \<open>KindGroups\<close>, states).
  \<^item> \<open>Caller\<close> and \<open>CallLaws\<close>: \<open>CallTool\<close> stage by stage, and its guarantees: what is sent and when,
    every rejection reported, hooks and metrics run once, no arguments in logs, sound use of
    the cache, no panic of its own. \<open>Results\<close>: properties that ResultTransform hooks establish
    hold for all results, cached ones included.
  \<^item> \<open>Multiplexer\<close> (\<open>multiplexer.go\<close>, \<open>from_sessions.go\<close>): \<open>fetchTools\<close>, \<open>connect\<close>, \<open>New\<close>,
    \<open>NewFromSessions\<close>, \<open>Close\<close>.
  \<^item> \<open>Health\<close> and \<open>Recovery\<close>: the goroutines as program counters whose steps, one per lock
    section or blocking call, interleave in the relation \<open>sys_step\<close>, with the end of the context,
    by \<open>Close\<close> or by the caller of \<open>New\<close>, and the closing of the sessions one by one as steps of
    their own; invariants of all reachable states (one reconnect goroutine per server, sessions
    present, backoff), what a goroutine achieves by its own steps (\<open>recon_alone\<close>, \<open>ref_alone\<close>) and
    within a round of the supervisor, and two races.
  \<^item> \<open>View\<close>: views, the Eino adapter and the log adapters.
  \<^item> \<open>Float64\<close>, \<open>Limiter\<close>, \<open>Policy\<close>, \<open>Admission\<close> (\<open>policy/policy.go\<close>): binary64 rounding, the token
    bucket in that arithmetic, the four hooks, and the number of calls that a rate limit lets
    through to a server.
  \<^item> \<open>Capture\<close>, \<open>TestServer\<close> (\<open>internal/testutil\<close>): the capturing logger and the test servers with
    the tool set of the vendored server library; the round trips of tool metadata and of calls
    between the server side and the multiplexer.
  \<^item> \<open>Examples\<close> (\<open>examples/\<close>): the three programs, and that the redacting one shows no number.
  \<^item> \<open>Concurrent\<close>: calls that run at the same time. A call in progress is a program counter,
    \<open>callStep\<close> takes it from one point where other goroutines may run to the next, and
    \<open>joint_step\<close> interleaves any number of calls with the goroutines of \<open>sys_step\<close>. Taken alone the
    steps are \<open>CallTool\<close>; interleaved in any way no call panics, is sent twice, gets around
    the ResultTransform hooks through the cache, or slips past a gate.
  \<^item> This theory: tools that are not declared harmless, and live changes of a server seen through
    a refresh.

  \<^bold>\<open>Interfaces.\<close> \<open>call_spec\<close> carries a specification through the stages of a call and is
  interpreted for AfterCall hooks, metrics and results; \<open>event_spec\<close> is its special case for
  conditions on single events (\<open>sublocale\<close>), interpreted for logs and cache accesses; \<open>gate_hook\<close>
  is what a hook must do to close the way to a tool, interpreted for \<open>DenyDestructive\<close>, for
  \<open>RequireRoles\<close> without roles and for the hook of the policy example; \<open>response_cache\<close> is the
  contract of a cache, \<open>args_transformer\<close> that of a transformer, \<open>auth_scheme\<close> that of a
  credential helper, \<open>rounding\<close> that of a floating-point format, \<open>kept_invariant\<close> that of an
  invariant of a step relation, \<open>call_invariant\<close> that of an invariant of concurrent calls,
  interpreted for panics and for filtered results, and given by every \<open>gate_hook\<close> (\<open>sublocale\<close>).

  \<^bold>\<open>Parameters and bounds.\<close> Parameters are the MCP client and its transports, JSON encoding and
  decoding, the JSON Schema package, \<open>time.ParseDuration\<close>, Unicode tables, the wrapped loggers
  and all callbacks; \<open>sched\<close> is the order in which the connects of \<open>New\<close> run, any permutation.
  There is no fuel: all functions terminate, the loops of the goroutines are step relations.
  The limiter is treated for a period below \<open>2 ^ 63\<close> nanoseconds and a burst of at most \<open>2 ^ 53\<close>,
  the integers a float64 holds exactly; a period of zero is treated on its own. A page of
  tools has 1000 entries, the default of the server library. A round of the supervisor takes
  at most three steps per server and one more, a successful reconnect at most seven steps, a
  refresh four.

  \<^bold>\<open>Not modelled.\<close> The package comments (\<open>doc.go\<close>) hold no code. Data races inside one lock
  section are excluded by the mutexes the code holds; unlocked reads are listed as findings.
  The locks themselves and waiting for them are not modelled, so nothing is said about deadlock
  or about how long a call waits for a lock that \<open>Close\<close>, the cache or a warn-once flag holds.
  A step of a call is what it does up to the next point where another goroutine may matter to
  it, a callback, a cache operation or a request to a server included; the lookup of an entry
  and the reads of its fields are one step, on the snapshot the code takes.
  The counts and limits of calls (\<open>Admission\<close>) and the traces of single calls (\<open>CallLaws\<close>) are stated for calls one after the other. What the rest of the program
  does between steps may change the world, but not the cache, which only calls write.
  Third-party code beyond the vendored tool set is a parameter, among it the wire protocol,
  HTTP and the retrying client.
\<close>

section \<open>Tools that are not declared harmless\<close>

text \<open>The finding by name is stable when every advertised tool is mapped to its description.\<close>

lemma find_toolInfoOf:
  "find (\<lambda>ti. ti_Name ti = tool) (map (toolInfoOf rt server) ts) =
     map_option (toolInfoOf rt server) (find (\<lambda>t. mt_Name t = tool) ts)"
  by (induction ts) simp_all

lemma fetchTools_lists:
  "o_metaEnrichers opts = [] \<Longrightarrow> rt_ListTools rt sess c (st_env s) = (Inr ts, w) \<Longrightarrow>
   fst (fetchTools rt opts c server sess s) = Inr (map (toolInfoOf rt server) ts)"
  by (simp add: fetchTools_def Let_def toolInfos_plain)

text \<open>
  C21. A tool that its server does not declare harmless cannot be called under
  \<open>DenyDestructive\<close>: if the entry of a server holds the tools fetched from it, without
  enrichers, and the first tool of that name carries no annotations, or annotations that do
  not call it read-only and whose destructive hint is not explicitly false, the call reaches
  neither the server nor the cache.\<close>

theorem undeclared_tools_denied:
  assumes "o_metaEnrichers opts = []" "rt_ListTools rt sess c0 (st_env s0) = (Inr ts, w0)"
    and "fst (fetchTools rt opts c0 server sess s0) = Inr (se_tools entry)"
    and "find (\<lambda>t. mt_Name t = tool) ts = Some t"
    and "case mt_Annotations t of None \<Rightarrow> True | Some a \<Rightarrow> \<not> ma_ReadOnlyHint a \<and> ma_DestructiveHint a \<noteq> Some False"
    and "gm_get (mx_servers mx) server = Some entry" "DenyDestructive \<in> set (o_beforeCall (mx_opts mx))"
  shows "traced {KUpstream, KCacheGet, KCacheSet} (snd (CallTool rt mx c server tool args s)) =
         traced {KUpstream, KCacheGet, KCacheSet} s"
proof (rule destructive.blocked [OF assms(7,6)])
  have "se_tools entry = map (toolInfoOf rt server) ts"
    using fetchTools_lists [where s = s0, OF assms(1,2)] assms(3) by simp
  with assms(4) show "find (\<lambda>ti. ti_Name ti = tool) (se_tools entry) = Some (toolInfoOf rt server t)"
    by (simp add: find_toolInfoOf)
  show "ti_Destructive (toolInfoOf rt server t)" using assms(5) by (simp split: option.splits)
qed

section \<open>Live changes of a server\<close>

lemma gm_set_length: "length (gm_set k v m) \<le> Suc (length m)"
  by (induction m) (auto simp: gm_set_def)

lemma gm_delete_length: "length (gm_delete k m) \<le> length m"
  by (simp add: gm_delete_def length_delete_le)

text \<open>What the refresh finds, for a server whose list fits on one page.\<close>

lemma fetch_served:
  assumes "tools_ok srv" "length srv \<le> DefaultPageSize"
    and "\<And>c w. rt_ListTools rt sess c w = (Inr (fst (sdk_listTools srv)), w)" "o_metaEnrichers opts = []"
  shows "\<exists>tools s1. fetchTools rt opts c server sess s = (Inr tools, s1) \<and>
    find (\<lambda>ti. ti_Name ti = tool) tools = map_option (toolInfoOf rt server \<circ> fst) (gm_get srv tool)"
proof -
  let ?ts = "map (fst \<circ> snd) (sort_key fst srv)"
  have l: "fst (sdk_listTools srv) = ?ts" using assms(2) by (simp add: sdk_listTools_def Let_def)
  have "fst (fetchTools rt opts c server sess s) = Inr (map (toolInfoOf rt server) ?ts)"
    by (rule fetchTools_lists [OF assms(4) assms(3) [unfolded l]])
  moreover have "find (\<lambda>ti. ti_Name ti = tool) (map (toolInfoOf rt server) ?ts) = map_option (toolInfoOf rt server \<circ> fst) (gm_get srv tool)"
    unfolding find_toolInfoOf find_listed [OF assms(1)] option.map_comp ..
  ultimately show ?thesis by (metis prod.collapse)
qed

text \<open>
  C33. A live change of a server becomes visible through its notification: let a server be
  connected, not being reconnected, its refresh goroutine idle and its tools few enough for one
  page, and let there be no enrichers. When a tool is added to the running server, also in
  place of one with the same name, or removed from it, then after the notification that
  announces the change four steps of the refresh goroutine alone let the multiplexer find the
  added tool with the metadata of its declaration, and the removed tool not any more.\<close>

theorem live_tool_visible:
  assumes "sv_mcpServer sv = Some srv" "tools_ok srv" "length srv < DefaultPageSize" "spec_ok spec"
    and "snd (if added then AddLiveTool rt sleep spec sv else RemoveLiveTool rt sleep (ts_Name spec) sv) = sv'"
    and "sv_mcpServer sv' = Some srv'" "\<And>c w. rt_ListTools rt sess c w = (Inr (fst (sdk_listTools srv')), w)"
    and y: "sy_ref y = xs @ (server, RefIdle) # ys" "gm_get (mx_servers (sy_mx y)) server = Some entry" "se_session entry = Some sess"
      "\<not> se_reconnecting entry" "se_refreshCh entry \<noteq> None" "o_metaEnrichers (mx_opts (sy_mx y)) = []"
    and notified: "y1 = y\<lparr>sy_mx := upd_entry server (\<lambda>e. e\<lparr>se_refreshCh := signal (se_refreshCh e)\<rparr>) (sy_mx y)\<rparr>"
  shows "sys_step rt c y y1 \<and> (\<exists>y' entry'. (ref_alone rt c server ^^ 4) y1 y' \<and> gm_get (mx_servers (sy_mx y')) server = Some entry' \<and>
    find (\<lambda>ti. ti_Name ti = ts_Name spec) (se_tools entry') =
      (if added then Some (toolInfoOf rt server (specTool spec)) else None))"
proof
  show "sys_step rt c y y1" unfolding notified by (rule sys_step.notified)
  have srv': "srv' = (if added then gm_set (ts_Name spec) (snd (served rt sleep sv spec)) srv else gm_delete (ts_Name spec) srv)"
    using assms(1,4-6) AddLiveTool_lists [OF assms(1,4), of rt sleep] RemoveLiveTool_lists [OF assms(1), of rt sleep]
    by (auto split: if_splits)
  have ok: "tools_ok srv'"
    using assms(2) tools_ok_set [of srv "specTool spec"] tools_ok_delete by (auto simp: srv' served_def)
  have page: "length srv' \<le> DefaultPageSize"
    using assms(3) gm_set_length [of "ts_Name spec" "snd (served rt sleep sv spec)" srv]
      gm_delete_length [of "ts_Name spec" srv] by (auto simp: srv')
  have new: "map_option (toolInfoOf rt server \<circ> fst) (gm_get srv' (ts_Name spec)) =
      (if added then Some (toolInfoOf rt server (specTool spec)) else None)"
    by (simp add: srv' gm_get_set gm_get_delete served_def)
  have y1: "sy_ref y1 = xs @ (server, RefIdle) # ys" "mx_opts (sy_mx y1) = mx_opts (sy_mx y)"
      "gm_get (mx_servers (sy_mx y1)) server = Some (entry\<lparr>se_refreshCh := Some True\<rparr>)"
    using y(1,2,5) by (auto simp: notified signal_def)
  obtain tools s1 where "fetchTools rt (mx_opts (sy_mx y1)) (ctx_WithTimeout c (rt_now rt (st_env (sy_st y1))) (o_callTimeout (mx_opts (sy_mx y1))))
      server sess (sy_st y1) = (Inr tools, s1)"
    "find (\<lambda>ti. ti_Name ti = ts_Name spec) tools = map_option (toolInfoOf rt server \<circ> fst) (gm_get srv' (ts_Name spec))"
    using fetch_served [OF ok page assms(7), of "mx_opts (sy_mx y1)"] y(6) y1(2) by metis
  with refresh_run [OF y1(1,3), of sess rt c tools s1] y(3,4) new
  show "\<exists>y' entry'. (ref_alone rt c server ^^ 4) y1 y' \<and> gm_get (mx_servers (sy_mx y')) server = Some entry' \<and>
    find (\<lambda>ti. ti_Name ti = ts_Name spec) (se_tools entry') =
      (if added then Some (toolInfoOf rt server (specTool spec)) else None)"
    by auto
qed

section \<open>Concrete systems\<close>

text \<open>A server that advertises one tool without annotations.\<close>

definition bare_tool :: mcp_tool where
  "bare_tool = mux_tool\<lparr>mt_Annotations := None\<rparr>"

definition bare_rt :: "int rt" where
  "bare_rt = mux_rt\<lparr>rt_ListTools := (\<lambda>sess c w. (Inr [bare_tool], w))\<rparr>"

definition bare_entry :: serverEntry where
  "bare_entry = pol_entry\<lparr>se_tools := map (toolInfoOf bare_rt ''s'') [bare_tool]\<rparr>"

definition bare_mx :: "int mx" where
  "bare_mx = (pol_mx [DenyDestructive])\<lparr>mx_servers := [(''s'', bare_entry)]\<rparr>"

theorem undeclared_tools_denied_witness:
  "traced {KUpstream, KCacheGet, KCacheSet} (snd (CallTool bare_rt bare_mx ctx_Background ''s'' ''get'' [] demo_st)) = []"
proof -
  have l: "rt_ListTools bare_rt 7 ctx_Background (st_env demo_st) = (Inr [bare_tool], st_env demo_st)"
    by (simp add: bare_rt_def)
  have f: "fst (fetchTools bare_rt (defaultOptions None) ctx_Background ''s'' 7 demo_st) = Inr (se_tools bare_entry)"
    using fetchTools_lists [OF mux_simps(3) l, of "''s''"] by (simp add: bare_entry_def)
  show ?thesis
    using undeclared_tools_denied [OF mux_simps(3) l f, of "''get''" bare_tool bare_mx ctx_Background "[]" demo_st]
    by (simp add: bare_tool_def mux_tool_def bare_mx_def pol_simps demo_st_def traced_def)
qed

text \<open>A second tool is added to the running server of the concrete test server.\<close>

definition pang_spec :: "int ToolSpec" where
  "pang_spec = ping_spec\<lparr>ts_Name := ''pang''\<rparr>"

definition pang_rt :: "int rt" where
  "pang_rt = demo_rt\<lparr>rt_ListTools := (\<lambda>sess c w. (Inr [specTool pang_spec, specTool ping_spec], w))\<rparr>"

definition ping_sys :: "int sys" where
  "ping_sys = \<lparr>sy_mx = ping_mx, sy_st = demo_st, sy_cancelled = False, sy_recon = [], sy_ref = [(''s'', RefIdle)],
     sy_sup = SupDone, sy_closing = None\<rparr>"

theorem live_tool_visible_witness:
  "\<exists>y1 y' entry'. sys_step pang_rt ctx_Background ping_sys y1 \<and> (ref_alone pang_rt ctx_Background ''s'' ^^ 4) y1 y' \<and>
     gm_get (mx_servers (sy_mx y')) ''s'' = Some entry' \<and>
     find (\<lambda>ti. ti_Name ti = ''pang'') (se_tools entry') = Some (toolInfoOf pang_rt ''s'' (specTool pang_spec))"
proof -
  let ?sv = "ping_server\<lparr>sv_mcpServer := Some ping_tools\<rparr>"
  let ?srv' = "gm_set ''pang'' (snd (served pang_rt ping_sleep ?sv pang_spec)) ping_tools"
  have "tools_ok ping_tools" "length ping_tools < DefaultPageSize"
    by (simp_all add: ping_tools_def served_def tools_ok_def gm_ok_def DefaultPageSize_def)
  moreover have pang: "ts_Name pang_spec = ''pang''" "spec_ok pang_spec"
    by (simp_all add: pang_spec_def ping_spec_def spec_ok_def)
  moreover have "snd (AddLiveTool pang_rt ping_sleep pang_spec ?sv) = ?sv\<lparr>sv_mcpServer := Some ?srv'\<rparr>"
    using AddLiveTool_lists [of ?sv ping_tools pang_spec pang_rt ping_sleep] pang by simp
  moreover have "rt_ListTools pang_rt 7 c w = (Inr (fst (sdk_listTools ?srv')), w)" for c w
    by (simp add: pang_rt_def sdk_listTools_def DefaultPageSize_def ping_tools_def served_def ping_server_simps gm_set_def pang Let_def)
  moreover have "sy_ref ping_sys = [] @ (''s'', RefIdle) # []" "gm_get (mx_servers (sy_mx ping_sys)) ''s'' = Some ping_entry"
    "se_session ping_entry = Some 7" "\<not> se_reconnecting ping_entry" "se_refreshCh ping_entry \<noteq> None"
    "o_metaEnrichers (mx_opts (sy_mx ping_sys)) = []"
    by (simp_all add: ping_sys_def ping_mx_def ping_entry_def demo_entry_def demo_mx_def defaultOptions_def)
  ultimately show ?thesis
    using live_tool_visible [where sv = ?sv and srv = ping_tools and spec = pang_spec and added = True and sleep = ping_sleep
        and rt = pang_rt and srv' = ?srv' and sess = 7 and server = "''s''" and entry = ping_entry and y = ping_sys and xs = "[]" and ys = "[]"
        and c = ctx_Background]
    by fastforce
qed

end
